(* ===== verification/Prelude.thy ===== *)
theory Prelude
  imports Main
    "HOL-Library.AList" "HOL-Library.List_Lexorder" "HOL-Library.Char_ord"
    "HOL-Library.Product_Lexorder" "HOL-Library.Sublist" "HOL-Library.Multiset"
begin

text \<open>
  What every component of the development shares: the sequencing of fallible Go calls,
  the "seen map" loop that keeps the first occurrence of each value, sorting by a key
  (\<open>sort.Slice\<close>, \<open>sort.Strings\<close>), association lists as Go maps with an explicit
  iteration order, and the invariant rule of a transition system.
\<close>

named_theorems inv_intros \<open>an operation keeps an invariant\<close>
named_theorems op_simps \<open>characteristic equations of operations\<close>

section \<open>Fallible calls\<close>

text \<open>
  A Go call that returns \<open>(value, err)\<close> is a value of \<open>'e + 'a\<close>. The early return
  \<open>if err != nil { return ..., err }\<close> is \<open>and_then\<close>.
\<close>

definition and_then :: "'e + 'a \<Rightarrow> ('a \<Rightarrow> 'e + 'b) \<Rightarrow> 'e + 'b" where
  "and_then m f = (case m of Inl e \<Rightarrow> Inl e | Inr x \<Rightarrow> f x)"

definition guard_err :: "bool \<Rightarrow> 'e \<Rightarrow> 'e + unit" where
  "guard_err bad e = (if bad then Inl e else Inr ())"

lemma and_then_Inl [simp]: "and_then (Inl e) f = Inl e"
  by (simp add: and_then_def)

lemma and_then_Inr [simp]: "and_then (Inr x) f = f x"
  by (simp add: and_then_def)

lemma and_then_eq_Inr [simp]: "and_then m f = Inr y \<longleftrightarrow> (\<exists>x. m = Inr x \<and> f x = Inr y)"
  by (cases m) simp_all

lemma and_then_eq_Inl:
  "and_then m f = Inl e \<longleftrightarrow> m = Inl e \<or> (\<exists>x. m = Inr x \<and> f x = Inl e)"
  by (cases m) auto

lemma guard_err_eq_Inr [simp]: "guard_err bad e = Inr u \<longleftrightarrow> \<not> bad"
  by (simp add: guard_err_def)

lemma guard_err_eq_Inl [simp]: "guard_err bad e = Inl e' \<longleftrightarrow> bad \<and> e = e'"
  by (simp add: guard_err_def)

lemma guard_err_False [simp]: "guard_err False e = Inr ()"
  by (simp add: guard_err_def)

lemma guard_err_True [simp]: "guard_err True e = Inl e"
  by (simp add: guard_err_def)

section \<open>Keeping first occurrences\<close>

text \<open>
  The recurring Go loop with a \<open>seen\<close> map: a value already seen is skipped, a new one
  is recorded and appended to the output.
\<close>

fun dedup_from :: "'a list \<Rightarrow> 'a list \<Rightarrow> 'a list" where
  "dedup_from seen [] = []"
| "dedup_from seen (x # xs) =
     (if x \<in> set seen then dedup_from seen xs else x # dedup_from (x # seen) xs)"

abbreviation dedup :: "'a list \<Rightarrow> 'a list" where
  "dedup \<equiv> dedup_from []"

lemma set_dedup_from: "set (dedup_from seen xs) = set xs - set seen"
  by (induction seen xs rule: dedup_from.induct) auto

lemma set_dedup [simp]: "set (dedup xs) = set xs"
  by (simp add: set_dedup_from)

lemma distinct_dedup_from [simp]: "distinct (dedup_from seen xs)"
  by (induction seen xs rule: dedup_from.induct) (auto simp: set_dedup_from)

lemma length_dedup_from: "length (dedup_from seen xs) \<le> length xs"
  by (induction seen xs rule: dedup_from.induct) auto

lemma dedup_from_distinct:
  "distinct xs \<Longrightarrow> set xs \<inter> set seen = {} \<Longrightarrow> dedup_from seen xs = xs"
  by (induction seen xs rule: dedup_from.induct) auto

lemma dedup_distinct [simp]: "distinct xs \<Longrightarrow> dedup xs = xs"
  by (simp add: dedup_from_distinct)

lemma dedup_from_cong_set: "set seen = set seen' \<Longrightarrow> dedup_from seen xs = dedup_from seen' xs"
  by (induction seen xs arbitrary: seen' rule: dedup_from.induct) auto

lemma dedup_from_Nil_iff: "dedup_from seen xs = [] \<longleftrightarrow> set xs \<subseteq> set seen"
  by (metis Diff_eq_empty_iff set_dedup_from set_empty)

lemma dedup_Nil_iff [simp]: "dedup xs = [] \<longleftrightarrow> xs = []"
  by (simp add: dedup_from_Nil_iff)

section \<open>Sorting by a key\<close>

text \<open>
  Go's \<open>sort.Slice\<close> sorts by a comparison of key fields and is not stable; a map is
  iterated in an arbitrary order before it. The listing is a function of the contents
  exactly where the keys are pairwise different, which is the next lemma.
\<close>

lemma sort_key_perm_eq:
  fixes f :: "'a \<Rightarrow> 'k::linorder"
  assumes "mset xs = mset ys" and "inj_on f (set xs)"
  shows "sort_key f xs = sort_key f ys"
  by (rule sort_key_inj_key_eq) (use assms in simp_all)

lemma map_inj_on_distinct: "distinct (map f xs) \<Longrightarrow> inj_on f (set xs)"
  by (simp add: distinct_map)

section \<open>Association lists as Go maps\<close>

text \<open>
  A Go map that the code iterates is an association list with pairwise different keys;
  its order stands for the iteration order, which Go leaves open.
\<close>

abbreviation keys_distinct :: "('k \<times> 'v) list \<Rightarrow> bool" where
  "keys_distinct m \<equiv> distinct (map fst m)"

lemma map_of_update [simp]: "map_of (AList.update k v m) = (map_of m)(k \<mapsto> v)"
  by (rule update_conv')

lemma map_of_delete [simp]: "map_of (AList.delete k m) = (map_of m)(k := None)"
  by (rule delete_conv')

lemma map_of_map_val:
  "map_of (map (\<lambda>(k, v). (k, f k v)) m) k = map_option (f k) (map_of m k)"
  by (induction m) auto

lemma map_of_eq_Some_iff_in:
  "keys_distinct m \<Longrightarrow> map_of m k = Some v \<longleftrightarrow> (k, v) \<in> set m"
  by simp

lemma dom_map_of: "dom (map_of m) = fst ` set m"
  by (rule dom_map_of_conv_image_fst)

lemma map_of_None_iff: "map_of m k = None \<longleftrightarrow> k \<notin> fst ` set m"
  by (rule map_of_eq_None_iff)

section \<open>Transition systems\<close>

text \<open>
  The invariant rule shared by the step relations of the development: what holds at the
  start and is kept by every step holds in every reachable state.
\<close>

locale transition_system =
  fixes init :: "'s \<Rightarrow> bool"
    and step :: "'s \<Rightarrow> 's \<Rightarrow> bool"
    and inv :: "'s \<Rightarrow> bool"
  assumes init_inv: "init s \<Longrightarrow> inv s"
    and step_inv: "inv s \<Longrightarrow> step s t \<Longrightarrow> inv t"
begin

lemma steps_inv: "step\<^sup>*\<^sup>* s t \<Longrightarrow> inv s \<Longrightarrow> inv t"
  by (induction rule: rtranclp_induct) (auto intro: step_inv)

lemma reachable_inv: "init s \<Longrightarrow> step\<^sup>*\<^sup>* s t \<Longrightarrow> inv t"
  by (blast intro: steps_inv init_inv)

end

end
