(* ===== verification/Go_Strings.thy ===== *)
theory Go_Strings
  imports Prelude
begin

text \<open>
  The part of Go's \<open>strings\<close>, \<open>bytes\<close> and \<open>unicode/utf8\<close> packages the program calls.
  A Go string or byte slice is a HOL \<^typ>\<open>string\<close>: a list of bytes, so \<open>len\<close> is
  \<^const>\<open>length\<close> and multi-byte runes are several list elements. \<open>TrimSpace\<close> removes the
  UTF-8 encodings of the code points for which \<open>unicode.IsSpace\<close> holds.
\<close>

section \<open>Bytes\<close>

definition byte :: "char \<Rightarrow> nat" where
  "byte c = of_char c"

lemma byte_less [simp]: "byte c < 256"
  by (simp add: byte_def)

definition is_ascii :: "string \<Rightarrow> bool" where
  "is_ascii s \<longleftrightarrow> (\<forall>c \<in> set s. byte c < 128)"

lemma is_ascii_simps [simp]:
  "is_ascii []"
  "is_ascii (c # s) \<longleftrightarrow> byte c < 128 \<and> is_ascii s"
  "is_ascii (s @ t) \<longleftrightarrow> is_ascii s \<and> is_ascii t"
  by (auto simp: is_ascii_def)

abbreviation NL :: char where "NL \<equiv> CHR 0x0A"
abbreviation CR :: char where "CR \<equiv> CHR 0x0D"
abbreviation NUL :: char where "NUL \<equiv> CHR 0x00"

section \<open>White space\<close>

text \<open>The encodings of the code points of \<open>unicode.IsSpace\<close>.\<close>

definition ws_runes :: "string list" where
  "ws_runes =
    [[CHR 0x09], [CHR 0x0A], [CHR 0x0B], [CHR 0x0C], [CHR 0x0D], [CHR 0x20],
     [CHR 0xC2, CHR 0x85], [CHR 0xC2, CHR 0xA0], [CHR 0xE1, CHR 0x9A, CHR 0x80],
     [CHR 0xE2, CHR 0x80, CHR 0x80], [CHR 0xE2, CHR 0x80, CHR 0x81],
     [CHR 0xE2, CHR 0x80, CHR 0x82], [CHR 0xE2, CHR 0x80, CHR 0x83],
     [CHR 0xE2, CHR 0x80, CHR 0x84], [CHR 0xE2, CHR 0x80, CHR 0x85],
     [CHR 0xE2, CHR 0x80, CHR 0x86], [CHR 0xE2, CHR 0x80, CHR 0x87],
     [CHR 0xE2, CHR 0x80, CHR 0x88], [CHR 0xE2, CHR 0x80, CHR 0x89],
     [CHR 0xE2, CHR 0x80, CHR 0x8A], [CHR 0xE2, CHR 0x80, CHR 0xA8],
     [CHR 0xE2, CHR 0x80, CHR 0xA9], [CHR 0xE2, CHR 0x80, CHR 0xAF],
     [CHR 0xE2, CHR 0x81, CHR 0x9F], [CHR 0xE3, CHR 0x80, CHR 0x80]]"

text \<open>
  \<open>strip_runes ps s\<close> removes encodings from \<open>ps\<close> from the front of \<open>s\<close> while there is
  one. The encodings are canonical, so the first rune of \<open>s\<close> is a space exactly when one of
  them is a prefix of \<open>s\<close>; \<open>utf8.DecodeLastRune\<close> gives the same for suffixes.
\<close>

function strip_runes :: "string list \<Rightarrow> string \<Rightarrow> string" where
  "strip_runes ps s =
     (case find (\<lambda>p. p \<noteq> [] \<and> prefix p s) ps of
        None \<Rightarrow> s
      | Some p \<Rightarrow> strip_runes ps (drop (length p) s))"
  by pat_completeness auto
termination
  by (relation "measure (\<lambda>(ps, s). length s)")
    (auto simp: find_Some_iff prefix_def)

declare strip_runes.simps [simp del]

definition trim_left_space :: "string \<Rightarrow> string" where
  "trim_left_space s = strip_runes ws_runes s"

definition trim_right_space :: "string \<Rightarrow> string" where
  "trim_right_space s = rev (strip_runes (map rev ws_runes) (rev s))"

definition trim_space :: "string \<Rightarrow> string" where
  "trim_space s = trim_right_space (trim_left_space s)"

definition starts_with :: "string list \<Rightarrow> string \<Rightarrow> bool" where
  "starts_with ps s \<longleftrightarrow> (\<exists>p \<in> set ps. p \<noteq> [] \<and> prefix p s)"

lemma starts_with_find:
  "starts_with ps s \<longleftrightarrow> find (\<lambda>p. p \<noteq> [] \<and> prefix p s) ps \<noteq> None"
  by (auto simp: starts_with_def find_None_iff)

lemma strip_runes_done: "\<not> starts_with ps (strip_runes ps s)"
proof (induction ps s rule: strip_runes.induct)
  case (1 ps s)
  show ?case
  proof (cases "find (\<lambda>p. p \<noteq> [] \<and> prefix p s) ps")
    case None
    then show ?thesis by (simp add: strip_runes.simps [of ps s] starts_with_find)
  next
    case (Some p)
    with 1 show ?thesis by (simp add: strip_runes.simps [of ps s])
  qed
qed

lemma strip_runes_id [simp]: "\<not> starts_with ps s \<Longrightarrow> strip_runes ps s = s"
  by (simp add: starts_with_find strip_runes.simps [of ps s])

lemma strip_runes_id_iff: "strip_runes ps s = s \<longleftrightarrow> \<not> starts_with ps s"
  by (metis strip_runes_done strip_runes_id)

lemma suffix_strip_runes: "suffix (strip_runes ps s) s"
proof (induction ps s rule: strip_runes.induct)
  case (1 ps s)
  show ?case
  proof (cases "find (\<lambda>p. p \<noteq> [] \<and> prefix p s) ps")
    case None
    then show ?thesis by (simp add: strip_runes.simps [of ps s])
  next
    case (Some p)
    with 1 have "suffix (strip_runes ps (drop (length p) s)) (drop (length p) s)" by simp
    also have "suffix (drop (length p) s) s" by (rule suffix_drop)
    finally show ?thesis using Some by (simp add: strip_runes.simps [of ps s])
  qed
qed

lemma starts_with_prefix: "prefix s t \<Longrightarrow> starts_with ps s \<Longrightarrow> starts_with ps t"
  by (meson starts_with_def prefix_order.trans)

lemma prefix_trim_right: "prefix (trim_right_space s) s"
  using suffix_strip_runes [of "map rev ws_runes" "rev s"]
  by (simp add: trim_right_space_def suffix_to_prefix)

lemma suffix_trim_left: "suffix (trim_left_space s) s"
  by (simp add: trim_left_space_def suffix_strip_runes)

lemma trim_left_trim_right:
  "\<not> starts_with ws_runes s \<Longrightarrow> \<not> starts_with ws_runes (trim_right_space s)"
  using prefix_trim_right starts_with_prefix by blast

text \<open>A string is trimmed when no space rune begins or ends it.\<close>

lemma trim_space_id_iff:
  "trim_space s = s \<longleftrightarrow> \<not> starts_with ws_runes s \<and> \<not> starts_with (map rev ws_runes) (rev s)"
proof
  assume eq: "trim_space s = s"
  have "\<not> starts_with ws_runes (trim_space s)"
    unfolding trim_space_def trim_left_space_def
    by (intro trim_left_trim_right strip_runes_done)
  moreover have "\<not> starts_with (map rev ws_runes) (rev (trim_space s))"
    by (simp add: trim_space_def trim_right_space_def strip_runes_done)
  ultimately show "\<not> starts_with ws_runes s \<and> \<not> starts_with (map rev ws_runes) (rev s)"
    by (simp add: eq)
next
  assume "\<not> starts_with ws_runes s \<and> \<not> starts_with (map rev ws_runes) (rev s)"
  then show "trim_space s = s"
    by (simp add: trim_space_def trim_left_space_def trim_right_space_def)
qed

lemma trim_space_idem [simp]: "trim_space (trim_space s) = trim_space s"
proof -
  have "\<not> starts_with ws_runes (trim_space s)"
    unfolding trim_space_def trim_left_space_def
    by (intro trim_left_trim_right strip_runes_done)
  moreover have "\<not> starts_with (map rev ws_runes) (rev (trim_space s))"
    by (simp add: trim_space_def trim_right_space_def strip_runes_done)
  ultimately show ?thesis by (simp add: trim_space_id_iff)
qed

lemma trim_space_Nil [simp]: "trim_space [] = []"
  by (simp add: trim_space_id_iff starts_with_def)

lemma set_trim_space: "set (trim_space s) \<subseteq> set s"
  using set_mono_prefix [OF prefix_trim_right] set_mono_suffix [OF suffix_trim_left]
  unfolding trim_space_def by blast

lemma length_trim_space: "length (trim_space s) \<le> length s"
  using prefix_length_le [OF prefix_trim_right] suffix_length_le [OF suffix_trim_left]
  unfolding trim_space_def by (meson le_trans)

text \<open>Bytes that no space rune begins or ends with.\<close>

definition solid :: "char \<Rightarrow> bool" where
  "solid c \<longleftrightarrow> byte c \<noteq> 0x20 \<and> \<not> (9 \<le> byte c \<and> byte c \<le> 13) \<and> byte c < 128"

lemma ws_runes_not_solid: "p \<in> set ws_runes \<Longrightarrow> p \<noteq> [] \<and> \<not> solid (hd p) \<and> \<not> solid (last p)"
  by (auto simp: ws_runes_def solid_def byte_def)

lemma not_starts_with_solid: "solid c \<Longrightarrow> \<not> starts_with ws_runes (c # s)"
  using ws_runes_not_solid by (fastforce simp: starts_with_def prefix_Cons)

lemma not_ends_with_solid: "solid c \<Longrightarrow> \<not> starts_with (map rev ws_runes) (c # s)"
proof
  assume c: "solid c" and "starts_with (map rev ws_runes) (c # s)"
  then obtain p where p: "p \<in> set ws_runes" "p \<noteq> []" "prefix (rev p) (c # s)"
    by (auto simp: starts_with_def)
  then have "last p = c" by (cases p rule: rev_cases) auto
  with ws_runes_not_solid [OF p(1)] c show False by simp
qed

lemma trim_space_solid:
  "s \<noteq> [] \<Longrightarrow> solid (hd s) \<Longrightarrow> solid (last s) \<Longrightarrow> trim_space s = s"
proof -
  assume s: "s \<noteq> []" "solid (hd s)" "solid (last s)"
  from s have "\<not> starts_with ws_runes s"
    using not_starts_with_solid [of "hd s" "tl s"] by simp
  moreover from s have "\<not> starts_with (map rev ws_runes) (rev s)"
    using not_ends_with_solid [of "last s" "rev (butlast s)"]
    by (metis append_butlast_last_id rev_eq_Cons_iff rev_rev_ident)
  ultimately show ?thesis by (simp add: trim_space_id_iff)
qed

lemma set_ws_runes_solid: "solid c \<Longrightarrow> c \<notin> set (concat ws_runes)"
  by (auto simp: ws_runes_def solid_def byte_def)

section \<open>Prefixes, replacement and cut sets\<close>

definition has_prefix :: "string \<Rightarrow> string \<Rightarrow> bool" where
  "has_prefix s p \<longleftrightarrow> prefix p s"

definition has_suffix :: "string \<Rightarrow> string \<Rightarrow> bool" where
  "has_suffix s p \<longleftrightarrow> suffix p s"

definition cut_prefix :: "string \<Rightarrow> string \<Rightarrow> string option" where
  "cut_prefix s p = (if prefix p s then Some (drop (length p) s) else None)"

definition contains :: "string \<Rightarrow> string \<Rightarrow> bool" where
  "contains s sub \<longleftrightarrow> sublist sub s"

text \<open>\<open>strings.ReplaceAll\<close> for a non-empty \<open>old\<close>.\<close>

function replace_all :: "string \<Rightarrow> string \<Rightarrow> string \<Rightarrow> string" where
  "replace_all old new [] = []"
| "replace_all old new (c # s) =
     (if old \<noteq> [] \<and> prefix old (c # s)
      then new @ replace_all old new (drop (length old) (c # s))
      else c # replace_all old new s)"
  by pat_completeness auto
termination
  by (relation "measure (\<lambda>(old, new, s). length s)") (auto simp: prefix_def)

declare replace_all.simps(2) [simp del]

lemma replace_all_other:
  "old = [] \<or> hd old \<noteq> c \<Longrightarrow> replace_all old new (c # s) = c # replace_all old new s"
  by (cases old) (auto simp: replace_all.simps(2))

lemma replace_all_single:
  "replace_all [a] new s = concat (map (\<lambda>c. if c = a then new else [c]) s)"
  by (induction s) (auto simp: replace_all.simps(2))

lemma replace_all_skip:
  "old = [] \<or> hd old \<notin> set r \<Longrightarrow> replace_all old new (r @ s) = r @ replace_all old new s"
  by (induction r) (auto simp: replace_all_other)

lemma replace_all_absent: "old = [] \<or> hd old \<notin> set s \<Longrightarrow> replace_all old new s = s"
  using replace_all_skip [of old s new "[]"] by simp

lemma set_replace_all: "set (replace_all old new s) \<subseteq> set new \<union> set s"
proof (induction old new s rule: replace_all.induct)
  case (2 old new c s)
  moreover have "set (drop (length old) (c # s)) \<subseteq> set (c # s)"
    by (rule set_drop_subset)
  ultimately show ?case
    by (auto simp: replace_all.simps(2) [of old new c s] simp del: drop_Cons)
qed simp

definition trim_left_set :: "string \<Rightarrow> string \<Rightarrow> string" where
  "trim_left_set s cutset = dropWhile (\<lambda>c. c \<in> set cutset) s"

definition trim_right_set :: "string \<Rightarrow> string \<Rightarrow> string" where
  "trim_right_set s cutset = rev (dropWhile (\<lambda>c. c \<in> set cutset) (rev s))"

lemma trim_left_set_suffix: "suffix (trim_left_set s cs) s"
  by (simp add: trim_left_set_def suffix_dropWhile)

lemma trim_right_set_prefix: "prefix (trim_right_set s cs) s"
  by (metis rev_rev_ident suffix_dropWhile suffix_to_prefix trim_right_set_def)

lemma hd_trim_left_set: "trim_left_set s cs \<noteq> [] \<Longrightarrow> hd (trim_left_set s cs) \<notin> set cs"
  unfolding trim_left_set_def by (rule hd_dropWhile)

lemma trim_left_set_id: "s = [] \<or> hd s \<notin> set cs \<Longrightarrow> trim_left_set s cs = s"
  by (cases s) (auto simp: trim_left_set_def)

lemma trim_right_set_id: "s = [] \<or> last s \<notin> set cs \<Longrightarrow> trim_right_set s cs = s"
  by (cases s rule: rev_cases) (auto simp: trim_right_set_def)

text \<open>\<open>strings.SplitSeq(s, "\n")\<close>.\<close>

fun split_nl :: "string \<Rightarrow> string list" where
  "split_nl [] = [[]]"
| "split_nl (c # s) =
     (if c = NL then [] # split_nl s
      else (case split_nl s of [] \<Rightarrow> [[c]] | l # ls \<Rightarrow> (c # l) # ls))"

lemma split_nl_not_Nil [simp]: "split_nl s \<noteq> []"
  by (induction s) (auto split: list.splits)

lemma split_nl_no_nl: "l \<in> set (split_nl s) \<Longrightarrow> NL \<notin> set l"
  by (induction s arbitrary: l) (auto split: list.splits if_splits)

lemma set_split_nl: "l \<in> set (split_nl s) \<Longrightarrow> set l \<subseteq> set s"
  by (induction s arbitrary: l) (fastforce split: list.splits if_splits)+

lemma split_nl_append: "NL \<notin> set l \<Longrightarrow> split_nl (l @ NL # s) = l # split_nl s"
  by (induction l) auto

lemma split_nl_single: "NL \<notin> set l \<Longrightarrow> split_nl l = [l]"
  by (induction l) auto

section \<open>Lower case\<close>

text \<open>
  \<open>strings.ToLower\<close>, as far as its result is compared with ASCII constants, which is all
  the program does with it: ASCII letters, and the two code points outside ASCII whose lower
  case is an ASCII letter (U+0130 to \<open>i\<close>, U+212A to \<open>k\<close>). Every other code point has a
  lower case outside ASCII; it is left as it is here, and either way no ASCII constant
  equals the result.
\<close>

fun to_lower :: "string \<Rightarrow> string" where
  "to_lower [] = []"
| "to_lower (c # s) =
     (if c = CHR 0xC4 \<and> prefix [CHR 0xB0] s then CHR ''i'' # to_lower (drop 1 s)
      else if c = CHR 0xE2 \<and> prefix [CHR 0x84, CHR 0xAA] s
        then CHR ''k'' # to_lower (drop 2 s)
      else (if 65 \<le> byte c \<and> byte c \<le> 90 then char_of (byte c + 32) else c) # to_lower s)"

section \<open>UTF-8\<close>

text \<open>
  \<open>utf8.Valid\<close>: the number of bytes that the lead byte asks for, the range allowed for the
  second byte (no overlong forms, no surrogates, nothing above U+10FFFF), continuation
  bytes after it.
\<close>

definition rune_size :: "nat \<Rightarrow> nat" where
  "rune_size b =
     (if b < 0x80 then 1 else if 0xC2 \<le> b \<and> b \<le> 0xDF then 2
      else if 0xE0 \<le> b \<and> b \<le> 0xEF then 3 else if 0xF0 \<le> b \<and> b \<le> 0xF4 then 4 else 0)"

definition second_ok :: "nat \<Rightarrow> nat \<Rightarrow> bool" where
  "second_ok b c \<longleftrightarrow>
     (if b = 0xE0 then 0xA0 \<le> c \<and> c \<le> 0xBF
      else if b = 0xED then 0x80 \<le> c \<and> c \<le> 0x9F
      else if b = 0xF0 then 0x90 \<le> c \<and> c \<le> 0xBF
      else if b = 0xF4 then 0x80 \<le> c \<and> c \<le> 0x8F
      else 0x80 \<le> c \<and> c \<le> 0xBF)"

definition cont_byte :: "char \<Rightarrow> bool" where
  "cont_byte c \<longleftrightarrow> 0x80 \<le> byte c \<and> byte c \<le> 0xBF"

text \<open>The width of the rune a string starts with; 0 when it is not a valid encoding.\<close>

fun rune_width :: "string \<Rightarrow> nat" where
  "rune_width [] = 0"
| "rune_width (c # s) =
     (let n = rune_size (byte c) in
      if n = 0 \<or> length s < n - 1 then 0
      else if n = 1 then 1
      else if second_ok (byte c) (byte (hd s)) \<and> list_all cont_byte (take (n - 1) s) then n
      else 0)"

lemma rune_width_le: "rune_width s \<le> length s"
  by (cases s) (auto simp: Let_def)

function valid_utf8 :: "string \<Rightarrow> bool" where
  "valid_utf8 s =
     (if s = [] then True
      else if rune_width s = 0 then False
      else valid_utf8 (drop (rune_width s) s))"
  by pat_completeness auto
termination
  by (relation "measure length") auto

declare valid_utf8.simps [simp del]

lemma valid_utf8_Nil [simp]: "valid_utf8 []"
  by (simp add: valid_utf8.simps)

lemma rune_size_cases: "rune_size b \<in> {0, 1, 2, 3, 4}"
  by (auto simp: rune_size_def)

lemma rune_width_le4: "rune_width s \<le> 4"
proof (cases s)
  case (Cons c t)
  then show ?thesis using rune_size_cases [of "byte c"] by (auto simp: Let_def)
qed simp

lemma rune_width_ascii [simp]: "byte c < 128 \<Longrightarrow> rune_width (c # s) = 1"
  by (simp add: rune_size_def)

lemma valid_utf8_ascii [simp]: "byte c < 128 \<Longrightarrow> valid_utf8 (c # s) = valid_utf8 s"
  by (simp add: valid_utf8.simps [of "c # s"] del: rune_width.simps)

lemma second_ok_ge: "second_ok b c \<Longrightarrow> 128 \<le> c"
  by (auto simp: second_ok_def split: if_splits)

text \<open>Every byte of a multi-byte rune is outside ASCII.\<close>

lemma rune_bytes_high:
  assumes "1 < rune_width s" and "c \<in> set (take (rune_width s) s)"
  shows "128 \<le> byte c"
proof (cases s)
  case (Cons d t)
  let ?n = "rune_size (byte d)"
  from assms(1) Cons have w: "rune_width s = ?n" "1 < ?n" "?n - 1 \<le> length t"
    "second_ok (byte d) (byte (hd t))" "list_all cont_byte (take (?n - 1) t)"
    by (auto simp: Let_def split: if_splits)
  from w(2) have "128 \<le> byte d" by (auto simp: rune_size_def split: if_splits)
  moreover have "take (rune_width s) s = d # take (?n - 1) t"
    using w(1,2) Cons by (cases ?n) auto
  ultimately show ?thesis
    using assms(2) w(5) by (auto simp: list_all_iff cont_byte_def)
qed (use assms in simp)

lemma rune_width_append:
  "rune_width s \<noteq> 0 \<Longrightarrow> rune_width (s @ t) = rune_width s"
  by (cases s) (auto simp: Let_def hd_append split: if_splits)

lemma rune_width_prefix:
  assumes "rune_width (s @ t) \<noteq> 0" and "rune_width (s @ t) \<le> length s"
  shows "rune_width s = rune_width (s @ t)"
proof (cases s)
  case (Cons c u)
  from assms Cons show ?thesis
    by (cases "u = []") (auto simp: Let_def hd_append split: if_splits)
qed (use assms in simp)

lemma valid_utf8_rune:
  "s \<noteq> [] \<Longrightarrow> valid_utf8 s \<longleftrightarrow> rune_width s \<noteq> 0 \<and> valid_utf8 (drop (rune_width s) s)"
  by (simp add: valid_utf8.simps [of s])

lemma valid_utf8_append: "valid_utf8 s \<Longrightarrow> valid_utf8 (s @ t) = valid_utf8 t"
proof (induction s rule: valid_utf8.induct)
  case (1 s)
  show ?case
  proof (cases "s = []")
    case False
    with 1(2) have w: "rune_width s \<noteq> 0" "valid_utf8 (drop (rune_width s) s)"
      by (simp_all add: valid_utf8_rune)
    have "valid_utf8 (s @ t) = valid_utf8 (drop (rune_width s) s @ t)"
      using False w(1) rune_width_le [of s]
      by (simp add: valid_utf8_rune [of "s @ t"] rune_width_append)
    with 1(1) [OF False w(1) w(2)] show ?thesis by simp
  qed simp
qed

text \<open>Validity splits at an ASCII byte.\<close>

lemma valid_utf8_split:
  "byte c < 128 \<Longrightarrow> valid_utf8 (xs @ c # ys) \<longleftrightarrow> valid_utf8 xs \<and> valid_utf8 ys"
proof
  assume c: "byte c < 128" and "valid_utf8 (xs @ c # ys)"
  then have "valid_utf8 xs"
  proof (induction xs rule: valid_utf8.induct)
    case (1 xs)
    show ?case
    proof (cases "xs = []")
      case False
      let ?w = "rune_width (xs @ c # ys)"
      from 1(3) have w: "?w \<noteq> 0" "valid_utf8 (drop ?w (xs @ c # ys))"
        by (simp_all add: valid_utf8_rune)
      have "?w \<le> length xs"
      proof (rule ccontr)
        assume less: "\<not> ?w \<le> length xs"
        with False have "1 < ?w" by (cases xs) auto
        moreover from less have "c \<in> set (take ?w (xs @ c # ys))"
          by (cases "?w - length xs") (auto simp: take_Cons)
        ultimately show False using c rune_bytes_high by fastforce
      qed
      then have "rune_width xs = ?w" using w(1) by (metis rune_width_prefix)
      with w False \<open>?w \<le> length xs\<close> 1(1,2) show ?thesis
        by (simp add: valid_utf8_rune)
    qed simp
  qed
  with c \<open>valid_utf8 (xs @ c # ys)\<close> show "valid_utf8 xs \<and> valid_utf8 ys"
    by (simp add: valid_utf8_append)
qed (simp add: valid_utf8_append)

lemma valid_utf8_is_ascii: "is_ascii s \<Longrightarrow> valid_utf8 s"
  by (induction s) auto

lemma valid_utf8_split_ascii:
  "is_ascii m \<Longrightarrow> m \<noteq> [] \<Longrightarrow> valid_utf8 (xs @ m @ ys) \<longleftrightarrow> valid_utf8 xs \<and> valid_utf8 ys"
proof (cases m)
  case (Cons c m')
  moreover assume "is_ascii m"
  ultimately show ?thesis
    by (simp add: valid_utf8_split valid_utf8_append valid_utf8_is_ascii)
qed simp

lemma valid_utf8_take_rune:
  assumes "valid_utf8 s" and "s \<noteq> []"
  shows "valid_utf8 (take (rune_width s) s)"
proof -
  let ?w = "rune_width s"
  have w: "?w \<noteq> 0" "?w \<le> length s"
    using assms by (simp_all add: valid_utf8_rune rune_width_le)
  then have "rune_width (take ?w s) = ?w"
    using rune_width_prefix [of "take ?w s" "drop ?w s"] by simp
  with w assms(2) show ?thesis by (simp add: valid_utf8_rune)
qed

text \<open>Near every position of a valid string, at most three bytes back, a rune ends.\<close>

lemma valid_utf8_take_near:
  "valid_utf8 s \<Longrightarrow> n \<le> length s \<Longrightarrow> \<exists>m \<le> 3. m \<le> n \<and> valid_utf8 (take (n - m) s)"
proof (induction s arbitrary: n rule: valid_utf8.induct)
  case (1 s)
  show ?case
  proof (cases "s = []")
    case False
    let ?w = "rune_width s"
    from 1(2) False have w: "?w \<noteq> 0" "valid_utf8 (drop ?w s)" by (simp_all add: valid_utf8_rune)
    show ?thesis
    proof (cases "n < ?w")
      case True
      with rune_width_le4 [of s] show ?thesis by (intro exI [of _ n]) auto
    next
      case False
      from 1(1) [OF \<open>s \<noteq> []\<close> w(1) w(2), of "n - ?w"] 1(3) obtain m
        where m: "m \<le> 3" "m \<le> n - ?w" "valid_utf8 (take (n - ?w - m) (drop ?w s))"
        using diff_le_mono by auto
      have "n - m = ?w + (n - ?w - m)" using False m(2) by simp
      then have "take (n - m) s = take ?w s @ take (n - ?w - m) (drop ?w s)"
        by (metis take_add)
      with m valid_utf8_take_rune [OF 1(2) \<open>s \<noteq> []\<close>] show ?thesis
        by (intro exI [of _ m]) (auto simp: valid_utf8_append)
    qed
  qed (use 1 in simp)
qed

text \<open>Replacing ASCII text by ASCII text keeps a valid string valid.\<close>

lemma valid_utf8_replace_all:
  assumes "is_ascii old" and "is_ascii new" and "old \<noteq> []"
  shows "valid_utf8 s \<Longrightarrow> valid_utf8 (replace_all old new s)"
proof (induction "length s" arbitrary: s rule: less_induct)
  case less
  show ?case
  proof (cases s)
    case (Cons c t)
    show ?thesis
    proof (cases "prefix old s")
      case True
      then obtain u where u: "s = old @ u" by (auto simp: prefix_def)
      with less.prems assms(1) have "valid_utf8 u"
        by (simp add: valid_utf8_append valid_utf8_is_ascii)
      with less.hyps [of u] u assms have "valid_utf8 (replace_all old new u)" by simp
      moreover have "replace_all old new s = new @ replace_all old new u"
        using True Cons u assms(3) by (metis append_eq_conv_conj replace_all.simps(2))
      ultimately show ?thesis
        using assms(2) by (simp add: valid_utf8_append valid_utf8_is_ascii)
    next
      case False
      let ?w = "rune_width s"
      have w: "?w \<noteq> 0" "valid_utf8 (drop ?w s)" "valid_utf8 (take ?w s)"
        using less.prems Cons valid_utf8_rune [of s] valid_utf8_take_rune [of s] by auto
      have IH: "valid_utf8 (replace_all old new (drop ?w s))"
        using less.hyps [of "drop ?w s"] w Cons by simp
      have "replace_all old new s = take ?w s @ replace_all old new (drop ?w s)"
      proof (cases "?w = 1")
        case True
        with False Cons assms(3) show ?thesis by (simp add: replace_all.simps(2))
      next
        case False
        with w(1) have "1 < ?w" by simp
        then have "hd old \<notin> set (take ?w s)"
          using assms rune_bytes_high [of s "hd old"] by (cases old) force+
        then show ?thesis
          using replace_all_skip [of old "take ?w s" new "drop ?w s"] by simp
      qed
      with IH w(3) show ?thesis by (simp add: valid_utf8_append)
    qed
  qed simp
qed

section \<open>Decimal rendering\<close>

text \<open>\<open>%d\<close> of a non-negative number.\<close>

fun show_nat :: "nat \<Rightarrow> string" where
  "show_nat n =
     (if n < 10 then [char_of (48 + n)] else show_nat (n div 10) @ [char_of (48 + n mod 10)])"

declare show_nat.simps [simp del]

end
