(* ===== verification/Spec_Types.thy ===== *)
theory Spec_Types
  imports Go_Strings
begin

text \<open>
  The types of \<open>spec/types.go\<close>, \<open>spec/provider_types.go\<close>, \<open>spec/errors.go\<close> and the internal
  \<open>handleKey\<close>: identifiers, skill definitions and handles, index records, documents and the
  argument and result structs of the tools. String enumerations stay strings, because their
  values come from outside (frontmatter, JSON arguments) and are checked at run time.
\<close>

section \<open>Errors\<close>

text \<open>
  The sentinel errors of \<open>spec/errors.go\<close> and the two context errors of the standard library.
  A \<open>go_error\<close> is a sentinel, a plain message, or a message that wraps other errors
  (\<open>fmt.Errorf\<close> with \<open>%w\<close>, \<open>errors.Join\<close>); the message is the constant part of the format.
  \<open>Hang\<close> is no error of the program: it stands for a call that would wait for ever.
\<close>

datatype sentinel =
    ErrInvalidArgument
  | ErrSkillNotFound
  | ErrSkillAlreadyExists
  | ErrProviderNotFound
  | ErrSkillNotActive
  | ErrRunScriptUnsupported
  | ErrSessionNotFound
  | ErrSkillNotAllowed
  | CtxCanceled
  | CtxDeadlineExceeded

datatype go_error =
    Sentinel sentinel
  | Msg string
  | Wrapf string "go_error list"
  | Hang

text \<open>\<open>errors.Is(err, target)\<close> for a sentinel target.\<close>

fun errors_is :: "go_error \<Rightarrow> sentinel \<Rightarrow> bool" where
  "errors_is (Sentinel s) t = (s = t)"
| "errors_is (Msg m) t = False"
| "errors_is (Wrapf m es) t = (\<exists>e \<in> set es. errors_is e t)"
| "errors_is Hang t = False"

abbreviation invalid_arg :: "string \<Rightarrow> go_error" where
  "invalid_arg m \<equiv> Wrapf m [Sentinel ErrInvalidArgument]"

text \<open>
  A context is what \<open>ctx.Err()\<close> returns during the call: \<open>None\<close> for nil. A context argument
  that may itself be nil is a \<open>ctx option\<close>.
\<close>

type_synonym ctx = "go_error option"

definition ctx_check :: "ctx \<Rightarrow> go_error + unit" where
  "ctx_check c = (case c of None \<Rightarrow> Inr () | Some e \<Rightarrow> Inl e)"

lemma ctx_check_simps [simp]:
  "ctx_check None = Inr ()" "ctx_check (Some e) = Inl e" "ctx_check c = Inr u \<longleftrightarrow> c = None"
  by (auto simp: ctx_check_def split: option.splits)

section \<open>Definitions, keys and handles\<close>

record skill_def =
  def_type :: string
  def_name :: string
  def_location :: string

record provider_skill_key =
  key_type :: string
  key_name :: string
  key_location :: string

record skill_handle =
  handle_name :: string
  handle_location :: string

text \<open>
  The internal \<open>handleKey\<close> of the catalog. Its order, by name and then by location, is the
  comparison the code uses wherever it sorts by name and location.
\<close>

datatype handle_key = HandleKey (hk_name: string) (hk_location: string)

instantiation handle_key :: linorder
begin

definition less_eq_handle_key :: "handle_key \<Rightarrow> handle_key \<Rightarrow> bool" where
  "less_eq_handle_key a b \<longleftrightarrow>
     (if hk_name a = hk_name b then hk_location a \<le> hk_location b else hk_name a < hk_name b)"

definition less_handle_key :: "handle_key \<Rightarrow> handle_key \<Rightarrow> bool" where
  "less_handle_key a b \<longleftrightarrow>
     (if hk_name a = hk_name b then hk_location a < hk_location b else hk_name a < hk_name b)"

instance
proof
  fix a b c :: handle_key
  show "a < b \<longleftrightarrow> a \<le> b \<and> \<not> b \<le> a"
    by (auto simp: less_eq_handle_key_def less_handle_key_def)
  show "a \<le> a"
    by (simp add: less_eq_handle_key_def)
  show "a \<le> b \<Longrightarrow> b \<le> c \<Longrightarrow> a \<le> c"
    by (auto simp: less_eq_handle_key_def split: if_splits)
  show "a \<le> b \<Longrightarrow> b \<le> a \<Longrightarrow> a = b"
    by (cases a; cases b) (auto simp: less_eq_handle_key_def split: if_splits)
  show "a \<le> b \<or> b \<le> a"
    by (auto simp: less_eq_handle_key_def)
qed

end

section \<open>Skill documents and records\<close>

type_synonym skill_insert = string

definition SkillInsertInstructions :: skill_insert where
  "SkillInsertInstructions = ''instructions''"

definition SkillInsertUserMessage :: skill_insert where
  "SkillInsertUserMessage = ''user-message''"

definition MaxSkillResourceLocations :: nat where
  "MaxSkillResourceLocations = 1024"

record skill_argument =
  arg_name :: string
  arg_description :: string
  arg_default :: string

text \<open>
  A Go \<open>any\<close> as it occurs in frontmatter: the dynamic types the code distinguishes, and one
  constructor for every other scalar (numbers, booleans, times), which the code copies and
  never looks into. A Go map is a list of entries with different keys.
\<close>

datatype gval =
    VNil
  | VStr string
  | VList "gval list"
  | VStrList "string list"
  | VMap "(string \<times> gval) list"
  | VAnyMap "(gval \<times> gval) list"
  | VMapList "(string \<times> gval) list list"
  | VArgs "skill_argument list"
  | VOther string

type_synonym frontmatter = "(string \<times> gval) list"

record skill_document =
  doc_name :: string
  doc_display_name :: string
  doc_description :: string
  doc_insert :: skill_insert
  doc_arguments :: "skill_argument list"
  doc_tags :: "string list"
  doc_markdown_body :: string
  doc_raw_frontmatter :: frontmatter

record skill_resource_info =
  res_has_resources :: bool
  res_total_count :: nat
  res_locations :: "string list"
  res_more_locations :: bool

record render_skill_body_result =
  rr_text :: string
  rr_applied_arguments :: "string \<rightharpoonup> string"
  rr_unknown_placeholders :: "string list"
  rr_warnings :: "string list"

record render_skill_out =
  ro_name :: string
  ro_description :: string
  ro_display_name :: string
  ro_insert :: skill_insert
  ro_tags :: "string list"
  ro_resources :: skill_resource_info
  ro_text :: string
  ro_arguments :: "skill_argument list"
  ro_applied_arguments :: "string \<rightharpoonup> string"
  ro_raw_frontmatter :: frontmatter
  ro_warnings :: "string list"

record skill_record =
  rec_def :: skill_def
  rec_name :: string
  rec_description :: string
  rec_display_name :: string
  rec_insert :: skill_insert
  rec_arguments :: "skill_argument list"
  rec_tags :: "string list"
  rec_resources :: skill_resource_info
  rec_raw_frontmatter :: frontmatter
  rec_warnings :: "string list"
  rec_digest :: string

record index_record =
  idx_key :: provider_skill_key
  idx_name :: string
  idx_description :: string
  idx_display_name :: string
  idx_insert :: skill_insert
  idx_arguments :: "skill_argument list"
  idx_tags :: "string list"
  idx_resources :: skill_resource_info
  idx_raw_frontmatter :: frontmatter
  idx_warnings :: "string list"
  idx_digest :: string
  idx_skill_body :: string

definition empty_resources :: skill_resource_info where
  "empty_resources = \<lparr>res_has_resources = False, res_total_count = 0, res_locations = [],
     res_more_locations = False\<rparr>"

section \<open>Tool arguments and results\<close>

definition LoadModeReplace :: string where "LoadModeReplace = ''replace''"
definition LoadModeAdd :: string where "LoadModeAdd = ''add''"

definition ReadResourceEncodingText :: string where "ReadResourceEncodingText = ''text''"
definition ReadResourceEncodingBinary :: string where "ReadResourceEncodingBinary = ''binary''"

record load_args =
  la_skills :: "skill_handle list"
  la_mode :: string

record unload_args =
  ua_skills :: "skill_handle list"
  ua_all :: bool

record read_args =
  ra_skill_name :: string
  ra_skill_location :: string
  ra_resource_location :: string
  ra_encoding :: string

record script_args =
  sa_skill_name :: string
  sa_skill_location :: string
  sa_script_location :: string
  sa_args :: "string list"
  sa_env :: "string \<rightharpoonup> string"
  sa_work_dir :: string

record run_script_out =
  rs_location :: string
  rs_exit_code :: int
  rs_stdout :: string
  rs_stderr :: string
  rs_timed_out :: bool
  rs_duration_ms :: int

text \<open>\<open>ToolOutputUnion\<close> belongs to \<open>llmtools-go\<close>; it is passed through, never inspected.\<close>

datatype tool_output = ToolOutput string

section \<open>Providers\<close>

text \<open>
  The interface \<open>spec.SkillProvider\<close>: a value of it is its method table. What a method returns
  may depend on the outside world, so an operation takes the method table that holds while it
  runs, and different operations of a run may take different ones.
\<close>

record provider =
  p_type :: string
  p_index :: "ctx \<Rightarrow> skill_def \<Rightarrow> go_error + index_record"
  p_load_body :: "ctx \<Rightarrow> provider_skill_key \<Rightarrow> go_error + string"
  p_read_resource :: "ctx \<Rightarrow> provider_skill_key \<Rightarrow> string \<Rightarrow> string \<Rightarrow> go_error + tool_output list"
  p_run_script :: "ctx \<Rightarrow> provider_skill_key \<Rightarrow> string \<Rightarrow> string list \<Rightarrow> (string \<rightharpoonup> string) \<Rightarrow> string
     \<Rightarrow> go_error + run_script_out"

text \<open>\<open>ProviderResolver.Provider(skillType)\<close>: the provider map of the runtime.\<close>

type_synonym resolver = "string \<rightharpoonup> provider"

end
