(* ===== verification/Prompt_Text.thy ===== *)
theory Prompt_Text
  imports Spec_Types
begin

text \<open>
  \<open>internal/catalog/promptxml.go\<close>: the two catalog blocks shown to a model. An item is one
  group of lines; values are forced onto one line by \<open>trimInline\<close>, bodies lose their trailing
  line ends. \<open>sort.Slice\<close> on (name, location) is \<open>sort_key\<close> on the handle key; the two agree
  wherever the pairs are different, which is where the order is determined at all.
\<close>

definition availableSkillsStart :: string where
  "availableSkillsStart = ''<<<AVAILABLE_SKILLS>>>''"
definition availableSkillsEnd :: string where
  "availableSkillsEnd = ''<<<END_AVAILABLE_SKILLS>>>''"
definition activeSkillsStart :: string where
  "activeSkillsStart = ''<<<ACTIVE_SKILLS>>>''"
definition activeSkillsEnd :: string where
  "activeSkillsEnd = ''<<<END_ACTIVE_SKILLS>>>''"
definition nextAvailableSkillsSeparator :: string where
  "nextAvailableSkillsSeparator = ''---''"
definition nextActiveSkillsSeparator :: string where
  "nextActiveSkillsSeparator = ''<!-- SKILL SEPARATOR -->''"

record available_skill_item =
  av_name :: string
  av_description :: string
  av_location :: string
  av_resources :: skill_resource_info

record active_skill_item =
  ac_name :: string
  ac_body :: string
  ac_resources :: skill_resource_info

definition trimInline :: "string \<Rightarrow> string" where
  "trimInline s =
     replace_all [CR] '' '' (replace_all [NL] '' '' (replace_all [CR, NL] '' '' (trim_space s)))"

definition trimTrailingNewlines :: "string \<Rightarrow> string" where
  "trimTrailingNewlines s = trim_right_set s [CR, NL]"

definition item_key :: "available_skill_item \<Rightarrow> handle_key" where
  "item_key it = HandleKey (av_name it) (av_location it)"

definition available_lines :: "available_skill_item \<Rightarrow> string list" where
  "available_lines it =
     [''name: '' @ trimInline (av_name it)]
     @ (if av_location it \<noteq> [] then [''location: '' @ trimInline (av_location it)] else [])
     @ (if av_description it \<noteq> [] then [''description: '' @ trimInline (av_description it)] else [])"

text \<open>The loop over the items: a separator line before every item but the first.\<close>

fun with_separators :: "string \<Rightarrow> string list list \<Rightarrow> string list" where
  "with_separators sep [] = []"
| "with_separators sep [ls] = ls"
| "with_separators sep (ls # k # kss) = ls @ [sep] @ with_separators sep (k # kss)"

definition written_lines :: "string list \<Rightarrow> string" where
  "written_lines ls = concat (map (\<lambda>l. l @ [NL]) ls)"

definition AvailableSkillsPrompt :: "available_skill_item list \<Rightarrow> string" where
  "AvailableSkillsPrompt items =
     (let sorted = sort_key item_key items in
      if sorted = [] then availableSkillsStart @ [NL] @ ''(none)'' @ [NL] @ availableSkillsEnd
      else availableSkillsStart @ [NL]
        @ written_lines (with_separators nextAvailableSkillsSeparator (map available_lines sorted))
        @ availableSkillsEnd)"

definition active_lines :: "active_skill_item \<Rightarrow> string list" where
  "active_lines it =
     [''name: '' @ trimInline (ac_name it), ''body:'']
     @ (let body = trimTrailingNewlines (ac_body it) in if body \<noteq> [] then [body] else [])"

definition ActiveSkillsPrompt :: "active_skill_item list \<Rightarrow> string" where
  "ActiveSkillsPrompt items =
     (if items = [] then activeSkillsStart @ [NL] @ ''(none)'' @ [NL] @ activeSkillsEnd
      else activeSkillsStart @ [NL]
        @ written_lines (with_separators nextActiveSkillsSeparator (map active_lines items))
        @ activeSkillsEnd)"

section \<open>One line per value\<close>

lemma trimInline_no_line_end: "NL \<notin> set (trimInline s) \<and> CR \<notin> set (trimInline s)"
proof -
  have "NL \<notin> set (replace_all [NL] '' '' t)" for t by (auto simp: replace_all_single)
  then have "NL \<notin> set (trimInline s)"
    using set_replace_all [of "[CR]" "'' ''"] unfolding trimInline_def by fastforce
  moreover have "CR \<notin> set (trimInline s)"
    unfolding trimInline_def by (auto simp: replace_all_single)
  ultimately show ?thesis by simp
qed

lemma available_lines_no_nl: "l \<in> set (available_lines it) \<Longrightarrow> NL \<notin> set l"
  using trimInline_no_line_end by (auto simp: available_lines_def split: if_splits)

lemma split_nl_written_lines:
  "\<forall>l \<in> set ls. NL \<notin> set l \<Longrightarrow> split_nl (written_lines ls @ s) = ls @ split_nl s"
  by (induction ls) (auto simp: written_lines_def split_nl_append)

lemma with_separators_set: "l \<in> set (with_separators sep lss) \<Longrightarrow> l = sep \<or> (\<exists>ls \<in> set lss. l \<in> set ls)"
  by (induction sep lss rule: with_separators.induct) auto

text \<open>
  C35. The available-skills block is the start marker, the lines of the skills in order of name
  and location with a separator line between two skills, and the end marker: no name,
  description or location can add a line of its own.
\<close>

theorem AvailableSkillsPrompt_lines:
  "split_nl (AvailableSkillsPrompt items) =
     availableSkillsStart
     # (if items = [] then [''(none)'']
        else with_separators nextAvailableSkillsSeparator (map available_lines (sort_key item_key items)))
     @ [availableSkillsEnd]"
proof (cases "items = []")
  case False
  let ?ls = "with_separators nextAvailableSkillsSeparator (map available_lines (sort_key item_key items))"
  have "\<forall>l \<in> set ?ls. NL \<notin> set l"
    using with_separators_set available_lines_no_nl
    by (fastforce simp: nextAvailableSkillsSeparator_def)
  then have "split_nl (written_lines ?ls @ availableSkillsEnd) = ?ls @ split_nl availableSkillsEnd"
    by (rule split_nl_written_lines)
  moreover have "split_nl (availableSkillsStart @ NL # s) = availableSkillsStart # split_nl s" for s
    by (rule split_nl_append) (simp add: availableSkillsStart_def)
  moreover have "split_nl availableSkillsEnd = [availableSkillsEnd]"
    by (rule split_nl_single) (simp add: availableSkillsEnd_def)
  moreover have "sort_key item_key items \<noteq> []" using False by (metis length_0_conv length_sort)
  ultimately show ?thesis using False by (simp add: AvailableSkillsPrompt_def Let_def)
next
  case True
  then show ?thesis by (simp add: AvailableSkillsPrompt_def) code_simp
qed

lemma AvailableSkillsPrompt_order:
  assumes "mset items = mset items'" and "distinct (map item_key items)"
  shows "AvailableSkillsPrompt items = AvailableSkillsPrompt items'"
  using sort_key_perm_eq [OF assms(1) map_inj_on_distinct [OF assms(2)]]
  by (simp add: AvailableSkillsPrompt_def)

end
