(* ===== verification/Artifact.thy ===== *)
theory Artifact
  imports Spec_Types
begin

text \<open>
  \<open>internal/catalog/artifact.go\<close>: the insert hint, argument names, and the rendering of
  declared arguments into a skill body. Rendering is two passes over the text: first
  \<open>$name\<close> with the escape \<open>\$\<close>, then \<open>{{name}}\<close>. The sets \<open>used\<close> and \<open>unknown\<close> that the Go
  code threads through as maps are HOL sets; they are only iterated before a sort.
\<close>

section \<open>Insert hints and argument names\<close>

definition NormalizeSkillInsert :: "skill_insert \<Rightarrow> skill_insert \<times> bool" where
  "NormalizeSkillInsert v =
     (let l = to_lower (trim_space v) in
      if l = [] then (SkillInsertInstructions, True)
      else if l = SkillInsertInstructions then (SkillInsertInstructions, True)
      else if l = SkillInsertUserMessage then (SkillInsertUserMessage, True)
      else (SkillInsertInstructions, False))"

definition is_letter :: "char \<Rightarrow> bool" where
  "is_letter c \<longleftrightarrow> c = CHR ''_'' \<or> (97 \<le> byte c \<and> byte c \<le> 122) \<or> (65 \<le> byte c \<and> byte c \<le> 90)"

definition is_digit :: "char \<Rightarrow> bool" where
  "is_digit c \<longleftrightarrow> 48 \<le> byte c \<and> byte c \<le> 57"

definition is_word_char :: "char \<Rightarrow> bool" where
  "is_word_char c \<longleftrightarrow> is_letter c \<or> is_digit c"

text \<open>
  The loop over runes accepts ASCII letters, the underscore, and digits after the first
  position. Every byte of a rune outside ASCII is at least 128, so going byte by byte
  rejects at the same place.
\<close>

fun IsValidSkillArgumentName :: "string \<Rightarrow> bool" where
  "IsValidSkillArgumentName [] = False"
| "IsValidSkillArgumentName (c # s) = (is_letter c \<and> list_all is_word_char s)"

text \<open>
  \<open>scanIdentifier\<close>: the longest identifier the string starts with, and its length. The
  source's loop stops at the first byte that does not fit; at the end of the string it
  checks the name again.
\<close>

fun scanIdentifier :: "string \<Rightarrow> string \<times> nat" where
  "scanIdentifier [] = ([], 0)"
| "scanIdentifier (c # s) =
     (if \<not> is_letter c then ([], 0)
      else let rest = dropWhile is_word_char s; name = c # takeWhile is_word_char s in
           if rest \<noteq> [] then (name, length name)
           else if IsValidSkillArgumentName name then (name, length name) else ([], 0))"

lemma scanIdentifier_eq:
  "scanIdentifier s =
     (case s of [] \<Rightarrow> ([], 0)
      | c # s' \<Rightarrow> if is_letter c
          then (c # takeWhile is_word_char s', Suc (length (takeWhile is_word_char s')))
          else ([], 0))"
  by (cases s) (auto simp: Let_def list_all_iff dest: set_takeWhileD)

lemma scanIdentifier_length: "snd (scanIdentifier s) \<le> length s"
  by (cases s) (auto simp: scanIdentifier_eq length_takeWhile_le simp del: scanIdentifier.simps)

lemma scanIdentifier_valid:
  "scanIdentifier s = (n, k) \<Longrightarrow> k \<noteq> 0 \<Longrightarrow>
     IsValidSkillArgumentName n \<and> k = length n \<and> n = take k s"
  by (cases s)
    (auto simp: scanIdentifier_eq list_all_iff takeWhile_eq_take [symmetric] dest: set_takeWhileD
      simp del: scanIdentifier.simps split: if_splits)

lemmas is_word_char_defs = is_word_char_def is_letter_def is_digit_def

lemma valid_name_solid:
  assumes "IsValidSkillArgumentName n" and "c \<in> set n"
  shows "solid c"
proof -
  from assms have "is_word_char c"
    by (cases n) (auto simp: list_all_iff is_word_char_def)
  then show ?thesis by (auto simp: is_word_char_defs solid_def byte_def)
qed

lemma valid_name_trim [simp]: "IsValidSkillArgumentName n \<Longrightarrow> trim_space n = n"
  by (rule trim_space_solid)
    (metis IsValidSkillArgumentName.simps(1) hd_in_set last_in_set valid_name_solid)+

section \<open>Rendering\<close>

text \<open>The placeholder sets that the two passes fill.\<close>

record marks =
  used :: "string set"
  unknown :: "string set"

text \<open>
  \<open>renderDollarPlaceholders\<close>. The loop keeps a position in the text; here it is the rest of
  the text, and each equation is one turn of the loop.
\<close>

function renderDollarPlaceholders ::
  "(string \<rightharpoonup> string) \<Rightarrow> string \<Rightarrow> marks \<Rightarrow> string \<times> marks" where
  "renderDollarPlaceholders declared [] m = ([], m)"
| "renderDollarPlaceholders declared (c # s) m =
     (if c = CHR 0x5C \<and> prefix ''$'' s then
        (let (out, m') = renderDollarPlaceholders declared (drop 1 s) m in (CHR ''$'' # out, m'))
      else if c \<noteq> CHR ''$'' then
        (let (out, m') = renderDollarPlaceholders declared s m in (c # out, m'))
      else (case scanIdentifier s of (name, n) \<Rightarrow>
        if n = 0 then
          (let (out, m') = renderDollarPlaceholders declared s m in (c # out, m'))
        else (case declared name of
            Some value \<Rightarrow>
              (let (out, m') = renderDollarPlaceholders declared (drop n s)
                                 (m\<lparr>used := insert name (used m)\<rparr>) in (value @ out, m'))
          | None \<Rightarrow>
              (let (out, m') = renderDollarPlaceholders declared (drop n s)
                                 (m\<lparr>unknown := insert name (unknown m)\<rparr>)
               in (CHR ''$'' # name @ out, m')))))"
  by pat_completeness auto
termination
  by (relation "measure (\<lambda>(d, s, m). length s)") auto

declare renderDollarPlaceholders.simps(2) [simp del]

text \<open>
  The regular expression \<open>\{\{\s*([A-Za-z_][A-Za-z0-9_]*)\s*\}\}\<close> at the front of a string: the
  name it captures and the rest after the match. Its parts are disjoint character classes,
  so greedy matching never backtracks. \<open>\s\<close> is tab, newline, form feed, return and space.
\<close>

definition re_space :: "char \<Rightarrow> bool" where
  "re_space c \<longleftrightarrow> byte c \<in> {9, 10, 12, 13, 32}"

definition matchDoubleBrace :: "string \<Rightarrow> (string \<times> string) option" where
  "matchDoubleBrace s =
     (case cut_prefix s ''{{'' of None \<Rightarrow> None
      | Some s1 \<Rightarrow>
          (case dropWhile re_space s1 of
             [] \<Rightarrow> None
           | c # s2 \<Rightarrow>
               if \<not> is_letter c then None
               else (case cut_prefix (dropWhile re_space (dropWhile is_word_char s2)) ''}}'' of
                       None \<Rightarrow> None
                     | Some rest \<Rightarrow> Some (c # takeWhile is_word_char s2, rest))))"

lemma matchDoubleBrace_shorter: "matchDoubleBrace s = Some (n, rest) \<Longrightarrow> length rest < length s"
proof -
  assume "matchDoubleBrace s = Some (n, rest)"
  then obtain s1 c s2 where s: "prefix ''{{'' s" "s1 = drop 2 s" "dropWhile re_space s1 = c # s2"
    and r: "rest = drop 2 (dropWhile re_space (dropWhile is_word_char s2))"
    by (auto simp: matchDoubleBrace_def cut_prefix_def numeral_2_eq_2
        split: if_splits list.splits)
  have "length rest \<le> length s2"
    using r length_dropWhile_le [of re_space "dropWhile is_word_char s2"]
      length_dropWhile_le [of is_word_char s2] by simp
  moreover have "Suc (length s2) \<le> length s1"
    using s(3) length_dropWhile_le [of re_space s1] by simp
  ultimately show ?thesis using s(2) by simp
qed

text \<open>
  \<open>ReplaceAllStringFunc\<close>: leftmost matches, not overlapping, scanning on after each match.
  The callback finds the capture group of its own match again; the group is the name.
\<close>

function renderDoubleBracePlaceholders ::
  "(string \<rightharpoonup> string) \<Rightarrow> string \<Rightarrow> marks \<Rightarrow> string \<times> marks" where
  "renderDoubleBracePlaceholders declared [] m = ([], m)"
| "renderDoubleBracePlaceholders declared (c # s) m =
     (case matchDoubleBrace (c # s) of
        None \<Rightarrow>
          (let (out, m') = renderDoubleBracePlaceholders declared s m in (c # out, m'))
      | Some (name, rest) \<Rightarrow>
          (case declared name of
             Some value \<Rightarrow>
               (let (out, m') = renderDoubleBracePlaceholders declared rest
                                  (m\<lparr>used := insert name (used m)\<rparr>) in (value @ out, m'))
           | None \<Rightarrow>
               (let (out, m') = renderDoubleBracePlaceholders declared rest
                                  (m\<lparr>unknown := insert name (unknown m)\<rparr>)
                in (take (length (c # s) - length rest) (c # s) @ out, m'))))"
  by pat_completeness auto
termination
  by (relation "measure (\<lambda>(d, s, m). length s)") (auto dest: matchDoubleBrace_shorter)

declare renderDoubleBracePlaceholders.simps(2) [simp del]

text \<open>\<open>uniqueSortedStrings\<close>: a map used as a set, then \<open>sort.Strings\<close>.\<close>

definition uniqueSortedStrings :: "string list \<Rightarrow> string list" where
  "uniqueSortedStrings ss = sorted_list_of_set (set (filter (\<lambda>s. s \<noteq> []) (map trim_space ss)))"

text \<open>
  The declaration loop of \<open>RenderSkillBody\<close>: the declared vals so far, the names seen and the
  warnings. \<open>declared\<close> and \<open>AppliedArguments\<close> always hold the same entries.
\<close>

fun declare_arguments ::
  "skill_argument list \<Rightarrow> (string \<rightharpoonup> string) \<Rightarrow> (string \<rightharpoonup> string) \<Rightarrow> string set \<Rightarrow> string list
   \<Rightarrow> (string \<rightharpoonup> string) \<times> string list" where
  "declare_arguments [] vals declared seen ws = (declared, ws)"
| "declare_arguments (a # args) vals declared seen ws =
     (let name = trim_space (arg_name a) in
      if \<not> IsValidSkillArgumentName name then
        declare_arguments args vals declared seen
          (if name \<noteq> [] then ws @ [''invalid argument name ignored: '' @ name] else ws)
      else if name \<in> seen then
        declare_arguments args vals declared seen
          (ws @ [''duplicate argument ignored: '' @ name])
      else
        let value = (case vals name of Some supplied \<Rightarrow> supplied | None \<Rightarrow> arg_default a) in
        declare_arguments args vals (declared(name \<mapsto> value)) (insert name seen) ws)"

definition unknown_placeholder_warning :: "string \<Rightarrow> string" where
  "unknown_placeholder_warning n = ''unknown placeholder left unchanged: '' @ n"

definition RenderSkillBody ::
  "string \<Rightarrow> skill_argument list \<Rightarrow> (string \<rightharpoonup> string) \<Rightarrow> render_skill_body_result" where
  "RenderSkillBody body arguments vals =
     (let (declared, ws) = declare_arguments arguments vals Map.empty {} [];
          (rendered1, m1) = renderDollarPlaceholders declared body \<lparr>used = {}, unknown = {}\<rparr>;
          (rendered, m2) = renderDoubleBracePlaceholders declared rendered1 m1;
          names = sorted_list_of_set (unknown m2)
      in \<lparr>rr_text = rendered,
          rr_applied_arguments = declared,
          rr_unknown_placeholders = names,
          rr_warnings = uniqueSortedStrings
            (ws @ map unknown_placeholder_warning names)\<rparr>)"

section \<open>Rendering as substitution on tokens\<close>

text \<open>
  The specification of the two passes: a text is cut into tokens, each token has its source
  text and, under a declaration, its output. The cut loses nothing: the sources concatenate
  to the text.
\<close>

datatype dollar_token = DByte char | DEscape | DName string

function dollar_tokens :: "string \<Rightarrow> dollar_token list" where
  "dollar_tokens [] = []"
| "dollar_tokens (c # s) =
     (if c = CHR 0x5C \<and> prefix ''$'' s then DEscape # dollar_tokens (drop 1 s)
      else if c = CHR ''$'' \<and> snd (scanIdentifier s) \<noteq> 0
        then DName (fst (scanIdentifier s)) # dollar_tokens (drop (snd (scanIdentifier s)) s)
      else DByte c # dollar_tokens s)"
  by pat_completeness auto
termination
  by (relation "measure length") auto

declare dollar_tokens.simps(2) [simp del]

fun dollar_source :: "dollar_token \<Rightarrow> string" where
  "dollar_source (DByte c) = [c]"
| "dollar_source DEscape = [CHR 0x5C, CHR ''$'']"
| "dollar_source (DName n) = CHR ''$'' # n"

fun dollar_out :: "(string \<rightharpoonup> string) \<Rightarrow> dollar_token \<Rightarrow> string" where
  "dollar_out declared (DByte c) = [c]"
| "dollar_out declared DEscape = ''$''"
| "dollar_out declared (DName n) =
     (case declared n of Some v \<Rightarrow> v | None \<Rightarrow> CHR ''$'' # n)"

definition dollar_names :: "string \<Rightarrow> string set" where
  "dollar_names s = {n. DName n \<in> set (dollar_tokens s)}"

definition dollar_subst :: "(string \<rightharpoonup> string) \<Rightarrow> string \<Rightarrow> string" where
  "dollar_subst declared s = concat (map (dollar_out declared) (dollar_tokens s))"

lemma dollar_tokens_escape:
  "prefix ''$'' s \<Longrightarrow> dollar_tokens (CHR 0x5C # s) = DEscape # dollar_tokens (drop 1 s)"
  by (simp add: dollar_tokens.simps(2))

lemma dollar_tokens_name:
  "scanIdentifier s = (n, k) \<Longrightarrow> k \<noteq> 0 \<Longrightarrow>
     dollar_tokens (CHR ''$'' # s) = DName n # dollar_tokens (drop k s)"
  by (simp add: dollar_tokens.simps(2))

lemma dollar_tokens_byte:
  "\<not> (c = CHR 0x5C \<and> prefix ''$'' s) \<Longrightarrow> \<not> (c = CHR ''$'' \<and> snd (scanIdentifier s) \<noteq> 0) \<Longrightarrow>
     dollar_tokens (c # s) = DByte c # dollar_tokens s"
  by (auto simp: dollar_tokens.simps(2))

text \<open>The three kinds of position of the scanner, as a case rule.\<close>

lemma dollar_cases:
  obtains (escape) "c = CHR 0x5C" "prefix ''$'' s"
  | (name) n k where "c = CHR ''$''" "scanIdentifier s = (n, k)" "k \<noteq> 0"
  | (plain) "\<not> (c = CHR 0x5C \<and> prefix ''$'' s)" "\<not> (c = CHR ''$'' \<and> snd (scanIdentifier s) \<noteq> 0)"
  by (cases "scanIdentifier s") auto

lemma dollar_tokens_lossless: "concat (map dollar_source (dollar_tokens s)) = s"
proof (induction s rule: dollar_tokens.induct)
  case (2 c s)
  show ?case
  proof (cases c s rule: dollar_cases)
    case escape
    with 2(1) show ?thesis by (cases s) (auto simp: dollar_tokens_escape)
  next
    case (name n k)
    then have "n = take k s" using scanIdentifier_valid by blast
    with name 2(2) show ?thesis by (simp add: dollar_tokens_name)
  next
    case plain
    with 2(3) show ?thesis by (simp add: dollar_tokens_byte)
  qed
qed simp

lemma dollar_names_Nil [simp]: "dollar_names [] = {}"
  by (simp add: dollar_names_def)

definition add_marks :: "(string \<rightharpoonup> string) \<Rightarrow> string set \<Rightarrow> marks \<Rightarrow> marks" where
  "add_marks declared ns m =
     m\<lparr>used := used m \<union> (ns \<inter> dom declared), unknown := unknown m \<union> (ns - dom declared)\<rparr>"

lemma add_marks_empty [simp]: "add_marks declared {} m = m"
  by (simp add: add_marks_def)

lemma add_marks_insert:
  "declared n = Some v \<Longrightarrow>
     add_marks declared (insert n ns) m = add_marks declared ns (m\<lparr>used := insert n (used m)\<rparr>)"
  "declared n = None \<Longrightarrow>
     add_marks declared (insert n ns) m = add_marks declared ns (m\<lparr>unknown := insert n (unknown m)\<rparr>)"
  by (rule marks.equality; auto simp: add_marks_def)+

lemma renderDollar_subst:
  "renderDollarPlaceholders declared s m =
     (dollar_subst declared s, add_marks declared (dollar_names s) m)"
proof (induction declared s m rule: renderDollarPlaceholders.induct)
  case (1 declared m)
  then show ?case by (simp add: dollar_subst_def)
next
  case (2 declared c s m)
  show ?case
  proof (cases c s rule: dollar_cases)
    case escape
    with 2(1) show ?thesis
      by (simp add: renderDollarPlaceholders.simps(2) dollar_subst_def dollar_names_def
          dollar_tokens_escape)
  next
    case (name n k)
    have names: "dollar_names (c # s) = insert n (dollar_names (drop k s))"
      using name by (auto simp: dollar_names_def dollar_tokens_name)
    from name 2(4) [OF _ _ name(2) [symmetric]] 2(5) [OF _ _ name(2) [symmetric]] names
    show ?thesis
      by (cases "declared n")
        (simp_all add: renderDollarPlaceholders.simps(2) dollar_subst_def dollar_tokens_name
          add_marks_insert)
  next
    case plain
    have names: "dollar_names (c # s) = dollar_names s"
      using plain by (auto simp: dollar_names_def dollar_tokens_byte)
    have toks: "dollar_tokens (c # s) = DByte c # dollar_tokens s"
      using plain by (rule dollar_tokens_byte)
    show ?thesis
    proof (cases "c = CHR ''$''")
      case True
      with plain obtain n where n: "scanIdentifier s = (n, 0)" by (cases "scanIdentifier s") auto
      with 2(3) [OF plain(1) _ n [symmetric]] True toks names show ?thesis
        by (simp add: renderDollarPlaceholders.simps(2) dollar_subst_def)
    next
      case no: False
      with 2(2) [OF plain(1) no] plain toks names show ?thesis
        by (auto simp: renderDollarPlaceholders.simps(2) dollar_subst_def)
    qed
  qed
qed

datatype brace_token = BByte char | BName (brace_text: string) (brace_name: string)

function brace_tokens :: "string \<Rightarrow> brace_token list" where
  "brace_tokens [] = []"
| "brace_tokens (c # s) =
     (case matchDoubleBrace (c # s) of
        None \<Rightarrow> BByte c # brace_tokens s
      | Some (n, rest) \<Rightarrow> BName (take (length (c # s) - length rest) (c # s)) n # brace_tokens rest)"
  by pat_completeness auto
termination
  by (relation "measure length") (auto dest: matchDoubleBrace_shorter)

declare brace_tokens.simps(2) [simp del]

fun brace_source :: "brace_token \<Rightarrow> string" where
  "brace_source (BByte c) = [c]"
| "brace_source (BName t n) = t"

fun brace_out :: "(string \<rightharpoonup> string) \<Rightarrow> brace_token \<Rightarrow> string" where
  "brace_out declared (BByte c) = [c]"
| "brace_out declared (BName t n) = (case declared n of Some v \<Rightarrow> v | None \<Rightarrow> t)"

definition brace_names :: "string \<Rightarrow> string set" where
  "brace_names s = {n. \<exists>t. BName t n \<in> set (brace_tokens s)}"

definition brace_subst :: "(string \<rightharpoonup> string) \<Rightarrow> string \<Rightarrow> string" where
  "brace_subst declared s = concat (map (brace_out declared) (brace_tokens s))"

lemma matchDoubleBrace_Some:
  "matchDoubleBrace s = Some (n, rest) \<longleftrightarrow>
     (\<exists>c s2. prefix ''{{'' s \<and> dropWhile re_space (drop 2 s) = c # s2 \<and> is_letter c
        \<and> prefix ''}}'' (dropWhile re_space (dropWhile is_word_char s2))
        \<and> n = c # takeWhile is_word_char s2
        \<and> rest = drop 2 (dropWhile re_space (dropWhile is_word_char s2)))"
  by (cases "dropWhile re_space (drop 2 s)")
    (auto simp: matchDoubleBrace_def cut_prefix_def numeral_2_eq_2 split: if_splits
      simp del: dropWhile_eq_Nil_conv)

lemma matchDoubleBrace_suffix:
  assumes "matchDoubleBrace s = Some (n, rest)" shows "suffix rest s"
proof -
  from assms obtain c s2 where s: "dropWhile re_space (drop 2 s) = c # s2"
    and r: "rest = drop 2 (dropWhile re_space (dropWhile is_word_char s2))"
    by (auto simp: matchDoubleBrace_Some)
  have "suffix rest s2"
    unfolding r
    by (rule suffix_order.trans [OF suffix_drop
          suffix_order.trans [OF suffix_dropWhile suffix_dropWhile]])
  also have "suffix s2 (c # s2)" by (simp add: suffix_ConsI)
  also have "suffix (c # s2) s"
    unfolding s [symmetric] by (rule suffix_order.trans [OF suffix_dropWhile suffix_drop])
  finally show ?thesis .
qed

lemma brace_tokens_lossless: "concat (map brace_source (brace_tokens s)) = s"
proof (induction s rule: brace_tokens.induct)
  case (2 c s)
  show ?case
  proof (cases "matchDoubleBrace (c # s)")
    case None
    with 2(1) show ?thesis by (simp add: brace_tokens.simps(2))
  next
    case (Some a)
    obtain n rest where a: "a = (n, rest)" by (cases a)
    with Some have "suffix rest (c # s)" using matchDoubleBrace_suffix by simp
    then obtain pre where pre: "c # s = pre @ rest" by (auto simp: suffix_def)
    have "take (length (c # s) - length rest) (c # s) @ rest = c # s"
      unfolding pre by simp
    moreover have "concat (map brace_source (brace_tokens rest)) = rest"
      using 2(2) [OF Some a [symmetric]] .
    moreover have "brace_tokens (c # s) =
        BName (take (length (c # s) - length rest) (c # s)) n # brace_tokens rest"
      using Some a by (simp add: brace_tokens.simps(2))
    ultimately show ?thesis by (simp only: list.map concat.simps brace_source.simps)
  qed
qed simp

lemma brace_names_simps [simp]:
  "brace_names [] = {}"
  "matchDoubleBrace (c # s) = None \<Longrightarrow> brace_names (c # s) = brace_names s"
  "matchDoubleBrace (c # s) = Some (n, rest) \<Longrightarrow>
     brace_names (c # s) = insert n (brace_names rest)"
  by (auto simp: brace_names_def brace_tokens.simps(2))

lemma renderDoubleBrace_subst:
  "renderDoubleBracePlaceholders declared s m =
     (brace_subst declared s, add_marks declared (brace_names s) m)"
proof (induction declared s m rule: renderDoubleBracePlaceholders.induct)
  case (1 declared m)
  then show ?case by (simp add: brace_subst_def)
next
  case (2 declared c s m)
  show ?case
  proof (cases "matchDoubleBrace (c # s)")
    case None
    with 2(1) show ?thesis
      by (simp add: renderDoubleBracePlaceholders.simps(2) brace_subst_def brace_tokens.simps(2))
  next
    case (Some a)
    obtain n rest where a: "a = (n, rest)" by (cases a)
    with Some 2(2) [OF Some a [symmetric]] 2(3) [OF Some a [symmetric]] show ?thesis
      by (cases "declared n")
        (simp_all add: renderDoubleBracePlaceholders.simps(2) brace_subst_def
          brace_tokens.simps(2) add_marks_insert)
  qed
qed

section \<open>Declared arguments\<close>

text \<open>
  What the declaration loop computes: the first argument with a (trimmed) valid name declares
  it, with the supplied value or else its default.
\<close>

definition applied_value ::
  "skill_argument list \<Rightarrow> (string \<rightharpoonup> string) \<Rightarrow> string \<Rightarrow> string option" where
  "applied_value arguments vals n =
     (if IsValidSkillArgumentName n
      then map_option (\<lambda>a. case vals n of Some v \<Rightarrow> v | None \<Rightarrow> arg_default a)
             (find (\<lambda>a. trim_space (arg_name a) = n) arguments)
      else None)"

lemma declare_arguments_declared:
  "fst (declare_arguments args vals declared seen ws) n =
     (if n \<in> seen then declared n
      else case applied_value args vals n of Some v \<Rightarrow> Some v | None \<Rightarrow> declared n)"
proof (induction args vals declared seen ws rule: declare_arguments.induct)
  case (1 vals declared seen ws)
  then show ?case by (simp add: applied_value_def)
next
  case (2 a args vals declared seen ws)
  let ?name = "trim_space (arg_name a)"
  consider (invalid) "\<not> IsValidSkillArgumentName ?name"
    | (dup) "IsValidSkillArgumentName ?name" "?name \<in> seen"
    | (new) "IsValidSkillArgumentName ?name" "?name \<notin> seen" by blast
  then show ?case
  proof cases
    case invalid
    with 2(1) show ?thesis by (auto simp: Let_def applied_value_def)
  next
    case dup
    with 2(2) show ?thesis by (auto simp: Let_def applied_value_def split: option.splits)
  next
    case new
    let ?v = "case vals ?name of Some supplied \<Rightarrow> supplied | None \<Rightarrow> arg_default a"
    have IH: "fst (declare_arguments args vals (declared(?name \<mapsto> ?v)) (insert ?name seen) ws) n =
        (if n \<in> insert ?name seen then (declared(?name \<mapsto> ?v)) n
         else case applied_value args vals n of Some v \<Rightarrow> Some v
              | None \<Rightarrow> (declared(?name \<mapsto> ?v)) n)"
      by (rule 2(3)) (use new in simp_all)
    have "declare_arguments (a # args) vals declared seen ws =
        declare_arguments args vals (declared(?name \<mapsto> ?v)) (insert ?name seen) ws"
      using new by (simp add: Let_def)
    with IH new show ?thesis by (simp add: applied_value_def split: option.splits)
  qed
qed

lemma declare_arguments_applied:
  "fst (declare_arguments args vals Map.empty {} ws) = applied_value args vals"
  by (rule ext) (simp add: declare_arguments_declared split: option.splits)

lemma RenderSkillBody_unfold:
  "RenderSkillBody body arguments vals =
     (let D = applied_value arguments vals;
          t = dollar_subst D body;
          names = sorted_list_of_set ((dollar_names body \<union> brace_names t) - dom D)
      in \<lparr>rr_text = brace_subst D t, rr_applied_arguments = D, rr_unknown_placeholders = names,
          rr_warnings = uniqueSortedStrings
            (snd (declare_arguments arguments vals Map.empty {} [])
             @ map unknown_placeholder_warning names)\<rparr>)"
  by (simp add: RenderSkillBody_def Let_def renderDollar_subst renderDoubleBrace_subst
      declare_arguments_applied split_beta add_marks_def Un_Diff)

lemma finite_dollar_names [simp]: "finite (dollar_names s)"
proof -
  have "dollar_names s \<subseteq> (\<lambda>t. case t of DName n \<Rightarrow> n | _ \<Rightarrow> []) ` set (dollar_tokens s)"
    by (force simp: dollar_names_def split: dollar_token.splits)
  then show ?thesis by (rule finite_subset) simp
qed

lemma finite_brace_names [simp]: "finite (brace_names s)"
proof -
  have "brace_names s \<subseteq> (\<lambda>t. case t of BName x n \<Rightarrow> n | _ \<Rightarrow> []) ` set (brace_tokens s)"
    by (force simp: brace_names_def split: brace_token.splits)
  then show ?thesis by (rule finite_subset) simp
qed

lemma dollar_names_valid: "n \<in> dollar_names s \<Longrightarrow> IsValidSkillArgumentName n"
proof (induction s rule: dollar_tokens.induct)
  case (2 c s)
  show ?case
  proof (cases c s rule: dollar_cases)
    case escape
    with 2 show ?thesis by (auto simp: dollar_names_def dollar_tokens_escape)
  next
    case (name m k)
    then have "IsValidSkillArgumentName m" using scanIdentifier_valid by blast
    with name 2 show ?thesis by (auto simp: dollar_names_def dollar_tokens_name)
  next
    case plain
    with 2 show ?thesis by (auto simp: dollar_names_def dollar_tokens_byte)
  qed
qed simp

lemma matchDoubleBrace_valid: "matchDoubleBrace s = Some (n, rest) \<Longrightarrow> IsValidSkillArgumentName n"
  by (auto simp: matchDoubleBrace_Some list_all_iff dest: set_takeWhileD)

lemma brace_names_valid: "n \<in> brace_names s \<Longrightarrow> IsValidSkillArgumentName n"
proof (induction s rule: brace_tokens.induct)
  case (2 c s)
  show ?case
  proof (cases "matchDoubleBrace (c # s)")
    case None
    with 2 show ?thesis by simp
  next
    case (Some a)
    obtain m rest where a: "a = (m, rest)" by (cases a)
    from 2(2) [OF Some a [symmetric]] 2(3) Some a matchDoubleBrace_valid show ?thesis by auto
  qed
qed simp

lemma uniqueSortedStrings_set:
  "set (uniqueSortedStrings ss) = trim_space ` set ss - {[]}"
  by (auto simp: uniqueSortedStrings_def)

lemma uniqueSortedStrings_sorted [simp]:
  "sorted (uniqueSortedStrings ss)" "distinct (uniqueSortedStrings ss)"
  by (simp_all add: uniqueSortedStrings_def)

lemma unknown_warning_trimmed:
  assumes "IsValidSkillArgumentName n"
  shows "trim_space (unknown_placeholder_warning n) = unknown_placeholder_warning n"
proof -
  from assms have "n \<noteq> []" by auto
  with assms have "solid (last n)" using valid_name_solid last_in_set by blast
  with \<open>n \<noteq> []\<close> show ?thesis
    by (intro trim_space_solid) (auto simp: unknown_placeholder_warning_def solid_def byte_def)
qed

lemma dollar_escape_sublist: "DEscape \<in> set (dollar_tokens s) \<Longrightarrow> sublist [CHR 0x5C, CHR ''$''] s"
proof -
  assume "DEscape \<in> set (dollar_tokens s)"
  then obtain xs ys where "dollar_tokens s = xs @ DEscape # ys" by (auto simp: in_set_conv_decomp)
  then have "s = concat (map dollar_source xs) @ [CHR 0x5C, CHR ''$''] @ concat (map dollar_source ys)"
    using dollar_tokens_lossless [of s] by simp
  then show ?thesis by (metis sublist_appendI)
qed

lemma dollar_subst_none:
  assumes "\<not> contains s [CHR 0x5C, CHR ''$'']" and "dollar_names s \<inter> dom D = {}"
  shows "dollar_subst D s = s"
proof -
  have "dollar_out D t = dollar_source t" if "t \<in> set (dollar_tokens s)" for t
  proof (cases t)
    case DEscape
    with that assms(1) dollar_escape_sublist show ?thesis by (simp add: contains_def)
  next
    case (DName n)
    with that assms(2) have "D n = None" by (auto simp: dollar_names_def)
    with DName show ?thesis by simp
  qed simp
  then have "dollar_subst D s = concat (map dollar_source (dollar_tokens s))"
    unfolding dollar_subst_def by (metis (no_types, lifting) map_eq_conv)
  then show ?thesis by (simp add: dollar_tokens_lossless)
qed

lemma brace_subst_none:
  assumes "brace_names s \<inter> dom D = {}"
  shows "brace_subst D s = s"
proof -
  have "brace_out D t = brace_source t" if "t \<in> set (brace_tokens s)" for t
  proof (cases t)
    case (BName x n)
    with that assms have "D n = None" by (auto simp: brace_names_def)
    with BName show ?thesis by simp
  qed simp
  then have "brace_subst D s = concat (map brace_source (brace_tokens s))"
    unfolding brace_subst_def by (metis (no_types, lifting) map_eq_conv)
  then show ?thesis by (simp add: brace_tokens_lossless)
qed

section \<open>Properties\<close>

text \<open>
  C30. Rendering is two substitutions on tokens: the text is cut into tokens without loss,
  \<open>$name\<close> tokens are replaced by the declared vals, the result is cut again and its
  \<open>{{name}}\<close> tokens are replaced; the unknown placeholders are exactly the names found by
  either pass that are not declared.
\<close>

theorem RenderSkillBody_two_pass:
  "let r = RenderSkillBody body arguments vals; D = rr_applied_arguments r;
       t = concat (map (dollar_out D) (dollar_tokens body))
   in rr_text r = concat (map (brace_out D) (brace_tokens t))
    \<and> concat (map dollar_source (dollar_tokens body)) = body
    \<and> concat (map brace_source (brace_tokens t)) = t
    \<and> set (rr_unknown_placeholders r) = (dollar_names body \<union> brace_names t) - dom D"
  by (simp add: RenderSkillBody_unfold Let_def dollar_tokens_lossless brace_tokens_lossless
      flip: dollar_subst_def brace_subst_def)

text \<open>
  C31. The applied arguments of a rendering: a name is applied exactly when it is a valid
  argument name declared by some argument (names are trimmed, the first declaration wins),
  with the supplied value if there is one and the declared default otherwise.
\<close>

theorem RenderSkillBody_applied:
  "rr_applied_arguments (RenderSkillBody body arguments vals) n =
     (if IsValidSkillArgumentName n
      then (case find (\<lambda>a. trim_space (arg_name a) = n) arguments of
              None \<Rightarrow> None
            | Some a \<Rightarrow> Some (case vals n of Some v \<Rightarrow> v | None \<Rightarrow> arg_default a))
      else None)"
  by (simp add: RenderSkillBody_unfold Let_def applied_value_def split: option.splits)

text \<open>
  The unknown placeholders are reported in ascending order without repetition, none of
  them is a declared argument, and each has its own warning; the warnings are ascending and
  without repetition too.
\<close>

theorem RenderSkillBody_unknown:
  "let r = RenderSkillBody body arguments vals; ns = rr_unknown_placeholders r
   in sorted ns \<and> distinct ns \<and> set ns \<inter> dom (rr_applied_arguments r) = {}
    \<and> unknown_placeholder_warning ` set ns \<subseteq> set (rr_warnings r)
    \<and> sorted (rr_warnings r) \<and> distinct (rr_warnings r)"
proof -
  let ?r = "RenderSkillBody body arguments vals"
  have "unknown_placeholder_warning n \<in> set (rr_warnings ?r)"
    if "n \<in> set (rr_unknown_placeholders ?r)" for n
  proof -
    from that have "IsValidSkillArgumentName n"
      by (auto simp: RenderSkillBody_unfold Let_def dest: dollar_names_valid brace_names_valid)
    then have "trim_space (unknown_placeholder_warning n) = unknown_placeholder_warning n"
      by (rule unknown_warning_trimmed)
    moreover have "unknown_placeholder_warning n \<noteq> []"
      by (simp add: unknown_placeholder_warning_def)
    ultimately show ?thesis
      using that
      by (auto simp: RenderSkillBody_unfold Let_def uniqueSortedStrings_set image_iff
          intro!: bexI [of _ "unknown_placeholder_warning n"])
  qed
  then show ?thesis by (auto simp: RenderSkillBody_unfold Let_def)
qed

lemma dollar_names_code [code]:
  "dollar_names s = set (concat (map (\<lambda>t. case t of DName n \<Rightarrow> [n] | _ \<Rightarrow> []) (dollar_tokens s)))"
  by (force simp: dollar_names_def split: dollar_token.splits)

lemma brace_names_code [code]:
  "brace_names s = set (concat (map (\<lambda>t. case t of BName x n \<Rightarrow> [n] | _ \<Rightarrow> []) (brace_tokens s)))"
  by (force simp: brace_names_def split: brace_token.splits)

text \<open>
  A body without the escape \<open>\$\<close> in which no placeholder names a declared argument is
  rendered unchanged: unknown placeholders are preserved literally.
\<close>

theorem RenderSkillBody_unchanged:
  assumes "\<not> contains body [CHR 0x5C, CHR ''$'']"
    and "\<forall>n \<in> dollar_names body \<union> brace_names body. applied_value arguments vals n = None"
  shows "rr_text (RenderSkillBody body arguments vals) = body"
proof -
  have "dollar_subst (applied_value arguments vals) body = body"
    using assms by (intro dollar_subst_none) auto
  with assms(2) show ?thesis
    by (auto simp: RenderSkillBody_unfold Let_def intro!: brace_subst_none)
qed

definition string_argument :: "string \<Rightarrow> string \<Rightarrow> skill_argument" where
  "string_argument n d = \<lparr>arg_name = n, arg_description = [], arg_default = d\<rparr>"

theorem RenderSkillBody_unchanged_witness:
  "rr_text (RenderSkillBody ''costs $5 for $who, {{ other }}''
      [string_argument ''tone'' ''dry''] Map.empty) = ''costs $5 for $who, {{ other }}''"
  by (rule RenderSkillBody_unchanged) code_simp+

text \<open>
  The two passes do not commute with substitution: a value inserted for \<open>$text\<close> is scanned
  again by the \<open>{{name}}\<close> pass, so a supplied value that contains a placeholder is expanded
  when it is inserted through \<open>$text\<close> and kept literally through \<open>{{text}}\<close>.
\<close>

theorem RenderSkillBody_rescans_values:
  "let arguments = [string_argument ''text'' [], string_argument ''tone'' []];
       vals = [''text'' \<mapsto> ''{{tone}}'', ''tone'' \<mapsto> ''formal'']
   in rr_text (RenderSkillBody ''$text'' arguments vals) = ''formal''
    \<and> rr_text (RenderSkillBody ''{{text}}'' arguments vals) = ''{{tone}}''"
  by code_simp

section \<open>Facts on insert hints\<close>

lemma insert_constants [simp]:
  "SkillInsertInstructions \<noteq> []" "SkillInsertUserMessage \<noteq> []"
  "SkillInsertInstructions \<noteq> SkillInsertUserMessage"
  "SkillInsertUserMessage \<noteq> SkillInsertInstructions"
  by (simp_all add: SkillInsertInstructions_def SkillInsertUserMessage_def)

lemma to_lower_constants [simp]:
  "to_lower (trim_space SkillInsertInstructions) = SkillInsertInstructions"
  "to_lower (trim_space SkillInsertUserMessage) = SkillInsertUserMessage"
  by code_simp+

lemma NormalizeSkillInsert_constants [simp]:
  "NormalizeSkillInsert [] = (SkillInsertInstructions, True)"
  "NormalizeSkillInsert SkillInsertInstructions = (SkillInsertInstructions, True)"
  "NormalizeSkillInsert SkillInsertUserMessage = (SkillInsertUserMessage, True)"
  by (simp_all add: NormalizeSkillInsert_def Let_def)

lemma NormalizeSkillInsert_range:
  "fst (NormalizeSkillInsert v) \<in> {SkillInsertInstructions, SkillInsertUserMessage}"
  by (simp add: NormalizeSkillInsert_def Let_def)

lemma NormalizeSkillInsert_idem [simp]:
  "NormalizeSkillInsert (fst (NormalizeSkillInsert v)) = (fst (NormalizeSkillInsert v), True)"
  using NormalizeSkillInsert_range [of v] by auto

end
