(* ===== verification/Catalog.thy ===== *)
theory Catalog
  imports Prompt_Text Artifact
begin

text \<open>
  \<open>internal/catalog/catalog.go\<close> and \<open>prompt.go\<close>: the registry of skills. The three Go maps are
  \<open>by_key\<close>, \<open>by_def\<close> (association lists: the code iterates \<open>byKey\<close>, in an order Go leaves open)
  and \<open>handle_index\<close>. A wait channel is a number; \<open>closed_chans\<close> are the channels already
  closed. Each operation takes the mutex once, so it is one function on the state; \<open>EnsureBody\<close>
  takes it several times, and is built from its critical sections, which \<open>Catalog_Concurrency\<close>
  interleaves. \<open>hx\<close> is the hexadecimal SHA-256 digest, \<open>res\<close> the provider resolver.
\<close>

section \<open>State\<close>

record entry =
  e_def :: skill_def
  e_idx :: index_record
  body_loaded :: bool
  llm_name :: string
  body_wait :: "nat option"
  body_err :: "go_error option"

type_synonym entries = "(provider_skill_key \<times> entry) list"

record catalog =
  by_key :: entries
  by_def :: "(skill_def \<times> provider_skill_key) list"
  handle_index :: "handle_key \<rightharpoonup> provider_skill_key"
  next_chan :: nat
  closed_chans :: "nat set"

definition New :: catalog where
  "New = \<lparr>by_key = [], by_def = [], handle_index = Map.empty, next_chan = 0, closed_chans = {}\<rparr>"

section \<open>Names shown to the model\<close>

definition shortHashDef :: "(string \<Rightarrow> string) \<Rightarrow> skill_def \<Rightarrow> string" where
  "shortHashDef hx d = take 8 (hx (def_type d @ [NUL] @ def_name d @ [NUL] @ def_location d))"

abbreviation entry_name :: "entry \<Rightarrow> string" where
  "entry_name e \<equiv> key_name (idx_key (e_idx e))"

abbreviation entry_location :: "entry \<Rightarrow> string" where
  "entry_location e \<equiv> def_location (e_def e)"

definition group_key :: "entry \<Rightarrow> handle_key" where
  "group_key e = HandleKey (entry_name e) (entry_location e)"

definition hashed_name :: "(string \<Rightarrow> string) \<Rightarrow> entry \<Rightarrow> string" where
  "hashed_name hx e = entry_name e @ ''#'' @ shortHashDef hx (e_def e)"

definition first_pass :: "(string \<Rightarrow> string) \<Rightarrow> entries \<Rightarrow> entries" where
  "first_pass hx m =
     map (\<lambda>(k, e). (k, e\<lparr>llm_name :=
       (if length (filter (\<lambda>(_, e'). group_key e' = group_key e) m) = 1
        then entry_name e else hashed_name hx e)\<rparr>)) m"

text \<open>The counters of the second pass are keyed by name, NUL and location in one string.\<close>

definition count_key :: "entry \<Rightarrow> string" where
  "count_key e = llm_name e @ [NUL] @ entry_location e"

definition second_pass :: "(string \<Rightarrow> string) \<Rightarrow> entries \<Rightarrow> entries" where
  "second_pass hx m =
     map (\<lambda>(k, e). (k,
       if 1 < length (filter (\<lambda>(_, e'). count_key e' = count_key e) m)
       then e\<lparr>llm_name := hashed_name hx e\<rparr> else e)) m"

definition entry_handle :: "entry \<Rightarrow> handle_key" where
  "entry_handle e = HandleKey (llm_name e) (entry_location e)"

definition rebuild_index :: "entries \<Rightarrow> handle_key \<rightharpoonup> provider_skill_key" where
  "rebuild_index m =
     fold (\<lambda>(k, e) idx. idx(entry_handle e \<mapsto> idx_key (e_idx e))) m Map.empty"

definition assign_names :: "(string \<Rightarrow> string) \<Rightarrow> entries \<Rightarrow> entries" where
  "assign_names hx m = second_pass hx (first_pass hx m)"

definition recomputeLLMNamesLocked :: "(string \<Rightarrow> string) \<Rightarrow> catalog \<Rightarrow> catalog" where
  "recomputeLLMNamesLocked hx c =
     (let m = assign_names hx (by_key c)
      in c\<lparr>by_key := m, handle_index := rebuild_index m\<rparr>)"

section \<open>Records\<close>

definition cloneSkillResourceInfo :: "skill_resource_info \<Rightarrow> skill_resource_info" where
  "cloneSkillResourceInfo r = r\<lparr>res_locations := [] @ res_locations r\<rparr>"

definition skillRecordFrom :: "skill_def \<Rightarrow> index_record \<Rightarrow> skill_record" where
  "skillRecordFrom d idx =
     \<lparr>rec_def = d,
      rec_name = (if idx_name idx = [] then key_name (idx_key idx) else idx_name idx),
      rec_description = idx_description idx,
      rec_display_name = idx_display_name idx,
      rec_insert = fst (NormalizeSkillInsert (idx_insert idx)),
      rec_arguments = [] @ idx_arguments idx,
      rec_tags = [] @ idx_tags idx,
      rec_resources = cloneSkillResourceInfo (idx_resources idx),
      rec_raw_frontmatter = idx_raw_frontmatter idx,
      rec_warnings = [] @ idx_warnings idx,
      rec_digest = idx_digest idx\<rparr>"

section \<open>Adding and removing\<close>

definition add_locked ::
  "(string \<Rightarrow> string) \<Rightarrow> catalog \<Rightarrow> skill_def \<Rightarrow> index_record \<Rightarrow> (go_error + skill_record) \<times> catalog" where
  "add_locked hx c d idx =
     (if map_of (by_key c) (idx_key idx) \<noteq> None then (Inl (Sentinel ErrSkillAlreadyExists), c)
      else if map_of (by_def c) d \<noteq> None then (Inl (Sentinel ErrSkillAlreadyExists), c)
      else
        let e = \<lparr>e_def = d, e_idx = idx, body_loaded = (idx_skill_body idx \<noteq> []), llm_name = [],
                 body_wait = None, body_err = None\<rparr>;
            c1 = c\<lparr>by_key := AList.update (idx_key idx) e (by_key c),
                   by_def := AList.update d (idx_key idx) (by_def c)\<rparr>
        in (Inr (skillRecordFrom d idx), recomputeLLMNamesLocked hx c1))"

text \<open>What \<open>Add\<close> checks before it takes the lock: the record to be stored.\<close>

definition add_index ::
  "resolver \<Rightarrow> ctx \<Rightarrow> skill_def \<Rightarrow> go_error + index_record" where
  "add_index res ctx d =
     and_then (ctx_check ctx) (\<lambda>_.
     and_then (guard_err (trim_space (def_type d) = [] \<or> trim_space (def_name d) = []
                          \<or> trim_space (def_location d) = [])
                (invalid_arg ''%w: def.type, def.name, and def.location are required'')) (\<lambda>_.
     case res (def_type d) of
       None \<Rightarrow> Inl (Wrapf ''join'' [Sentinel ErrProviderNotFound, Msg ''unknown provider type: %q''])
     | Some p \<Rightarrow>
         and_then (p_index p ctx d) (\<lambda>idx.
         and_then (guard_err (key_type (idx_key idx) \<noteq> def_type d)
                    (invalid_arg ''%w: provider changed type from %q to %q'')) (\<lambda>_.
         and_then (guard_err (key_name (idx_key idx) \<noteq> def_name d)
                    (invalid_arg ''%w: provider changed name from %q to %q'')) (\<lambda>_.
         and_then (guard_err (trim_space (key_type (idx_key idx)) = []
                              \<or> trim_space (key_name (idx_key idx)) = []
                              \<or> trim_space (key_location (idx_key idx)) = [])
                    (invalid_arg ''%w: provider returned invalid record key'')) (\<lambda>_.
         case NormalizeSkillInsert (idx_insert idx) of (ins, ok) \<Rightarrow>
           if \<not> ok then Inl (invalid_arg ''%w: provider returned invalid insert value: %q'')
           else Inr (idx\<lparr>idx_insert := ins\<rparr>)))))))"

definition Add ::
  "(string \<Rightarrow> string) \<Rightarrow> resolver \<Rightarrow> ctx \<Rightarrow> skill_def \<Rightarrow> catalog
   \<Rightarrow> (go_error + skill_record) \<times> catalog" where
  "Add hx res ctx d c =
     (case add_index res ctx d of
        Inl e \<Rightarrow> (Inl e, c)
      | Inr idx \<Rightarrow> add_locked hx c d idx)"

definition ResolveDef :: "skill_def \<Rightarrow> catalog \<Rightarrow> provider_skill_key option" where
  "ResolveDef d c = map_of (by_def c) d"

definition close_wait :: "entry \<Rightarrow> catalog \<Rightarrow> catalog" where
  "close_wait e c =
     (case body_wait e of None \<Rightarrow> c
      | Some ch \<Rightarrow> c\<lparr>closed_chans := insert ch (closed_chans c)\<rparr>)"

definition Remove ::
  "(string \<Rightarrow> string) \<Rightarrow> skill_def \<Rightarrow> catalog
   \<Rightarrow> (skill_record \<times> provider_skill_key) option \<times> catalog" where
  "Remove hx d c =
     (case map_of (by_def c) d of
        None \<Rightarrow> (None, c)
      | Some canon \<Rightarrow>
          (case map_of (by_key c) canon of
             None \<Rightarrow> (None, c\<lparr>by_def := AList.delete d (by_def c)\<rparr>)
           | Some e \<Rightarrow>
               let c1 = close_wait e c;
                   c2 = c1\<lparr>by_key := AList.delete canon (by_key c1),
                           by_def := AList.delete (e_def e) (by_def c1)\<rparr>
               in (Some (skillRecordFrom (e_def e) (e_idx e), canon),
                   recomputeLLMNamesLocked hx c2)))"

section \<open>Lookups\<close>

definition GetIndex :: "provider_skill_key \<Rightarrow> catalog \<Rightarrow> index_record option" where
  "GetIndex k c = map_option e_idx (map_of (by_key c) k)"

definition normHandle :: "skill_handle \<Rightarrow> handle_key" where
  "normHandle h = HandleKey (trim_space (handle_name h)) (trim_space (handle_location h))"

definition ResolveHandle :: "skill_handle \<Rightarrow> catalog \<Rightarrow> provider_skill_key option" where
  "ResolveHandle h c = handle_index c (normHandle h)"

definition HandleForKey :: "provider_skill_key \<Rightarrow> catalog \<Rightarrow> skill_handle option" where
  "HandleForKey k c =
     map_option (\<lambda>e. \<lparr>handle_name = llm_name e, handle_location = entry_location e\<rparr>)
       (map_of (by_key c) k)"

section \<open>Loading a body once\<close>

text \<open>
  The critical section at the head of the loop of \<open>EnsureBody\<close>: return, wait on a channel, or
  become the loader with a new channel.
\<close>

datatype enter =
    EnterReturn "go_error + string"
  | EnterWait nat
  | EnterLoad nat provider_skill_key

definition ensure_enter :: "provider_skill_key \<Rightarrow> catalog \<Rightarrow> enter \<times> catalog" where
  "ensure_enter key c =
     (case map_of (by_key c) key of
        None \<Rightarrow> (EnterReturn (Inl (Sentinel ErrSkillNotFound)), c)
      | Some e \<Rightarrow>
          if body_loaded e then (EnterReturn (Inr (idx_skill_body (e_idx e))), c)
          else (case body_err e of
              Some err \<Rightarrow> (EnterReturn (Inl err), c)
            | None \<Rightarrow>
                (case body_wait e of
                   Some ch \<Rightarrow> (EnterWait ch, c)
                 | None \<Rightarrow>
                     let ch = next_chan c
                     in (EnterLoad ch (idx_key (e_idx e)),
                         c\<lparr>by_key := AList.update key (e\<lparr>body_wait := Some ch\<rparr>) (by_key c),
                           next_chan := Suc ch\<rparr>))))"

definition context_error :: "go_error \<Rightarrow> bool" where
  "context_error e \<longleftrightarrow> errors_is e CtxCanceled \<or> errors_is e CtxDeadlineExceeded"

definition finish_entry :: "go_error + string \<Rightarrow> entry \<Rightarrow> entry" where
  "finish_entry r e =
     (case r of
        Inl err \<Rightarrow> if context_error err then e\<lparr>body_wait := None\<rparr>
                   else e\<lparr>body_wait := None, body_err := Some err\<rparr>
      | Inr body \<Rightarrow> e\<lparr>body_wait := None, e_idx := (e_idx e)\<lparr>idx_skill_body := body\<rparr>,
                      body_loaded := True, body_err := None\<rparr>)"

definition finishBodyLoad ::
  "provider_skill_key \<Rightarrow> nat \<Rightarrow> go_error + string \<Rightarrow> catalog \<Rightarrow> catalog" where
  "finishBodyLoad key ch r c =
     (case map_of (by_key c) key of
        None \<Rightarrow> c
      | Some e \<Rightarrow>
          if body_wait e \<noteq> Some ch then c
          else c\<lparr>by_key := AList.update key (finish_entry r e) (by_key c),
                 closed_chans := insert ch (closed_chans c)\<rparr>)"

text \<open>What the loader does without the lock.\<close>

definition load_body :: "resolver \<Rightarrow> ctx \<Rightarrow> provider_skill_key \<Rightarrow> go_error + string" where
  "load_body res ctx k =
     (case res (key_type k) of
        None \<Rightarrow> Inl (Sentinel ErrProviderNotFound)
      | Some p \<Rightarrow> p_load_body p ctx k)"

text \<open>
  The loop of \<open>EnsureBody\<close>, run without interference: a wait on an open channel ends with the
  context's error, or never.
\<close>

fun ensure_loop ::
  "nat \<Rightarrow> resolver \<Rightarrow> ctx \<Rightarrow> provider_skill_key \<Rightarrow> catalog \<Rightarrow> (go_error + string) \<times> catalog" where
  "ensure_loop 0 res ctx key c = (Inl (Msg ''could not ensure skill body''), c)"
| "ensure_loop (Suc n) res ctx key c =
     (case ctx of
        Some e \<Rightarrow> (Inl e, c)
      | None \<Rightarrow>
          (case ensure_enter key c of
             (EnterReturn r, c1) \<Rightarrow> (r, c1)
           | (EnterWait ch, c1) \<Rightarrow>
               if ch \<in> closed_chans c1 then ensure_loop n res ctx key c1 else (Inl Hang, c1)
           | (EnterLoad ch recKey, c1) \<Rightarrow>
               let r = load_body res ctx recKey in (r, finishBodyLoad key ch r c1)))"

definition EnsureBody ::
  "resolver \<Rightarrow> ctx \<Rightarrow> provider_skill_key \<Rightarrow> catalog \<Rightarrow> (go_error + string) \<times> catalog" where
  "EnsureBody res ctx key c =
     (case ctx of Some e \<Rightarrow> (Inl e, c) | None \<Rightarrow> ensure_loop 5 res ctx key c)"

section \<open>Listing\<close>

definition insertMatches :: "skill_insert list \<Rightarrow> skill_insert \<Rightarrow> bool" where
  "insertMatches allowed actual =
     (case NormalizeSkillInsert actual of (normActual, ok) \<Rightarrow>
        ok \<and> list_ex (\<lambda>candidate. NormalizeSkillInsert candidate = (normActual, True)) allowed)"

definition prefix_filter :: "string \<Rightarrow> string \<Rightarrow> bool" where
  "prefix_filter p s =
     (if p \<noteq> [] \<and> length p \<le> length s then take (length p) s = p
      else if p \<noteq> [] then False else True)"

record prompt_filter =
  pf_types :: "string list"
  pf_llm_name_prefix :: string
  pf_location_prefix :: string
  pf_inserts :: "skill_insert list"
  pf_allow_defs :: "skill_def list"

record user_filter =
  uf_types :: "string list"
  uf_name_prefix :: string
  uf_location_prefix :: string
  uf_allow_defs :: "skill_def list"
  uf_inserts :: "skill_insert list"

definition prompt_match :: "prompt_filter \<Rightarrow> entry \<Rightarrow> bool" where
  "prompt_match f e \<longleftrightarrow>
     (pf_allow_defs f = [] \<or> List.member (pf_allow_defs f) (e_def e))
     \<and> (pf_types f = [] \<or> List.member (pf_types f) (key_type (idx_key (e_idx e))))
     \<and> (pf_inserts f = [] \<or> insertMatches (pf_inserts f) (idx_insert (e_idx e)))
     \<and> prefix_filter (pf_llm_name_prefix f) (llm_name e)
     \<and> prefix_filter (pf_location_prefix f) (entry_location e)"

definition user_match :: "user_filter \<Rightarrow> entry \<Rightarrow> bool" where
  "user_match f e \<longleftrightarrow>
     (uf_allow_defs f = [] \<or> List.member (uf_allow_defs f) (e_def e))
     \<and> (uf_types f = [] \<or> List.member (uf_types f) (key_type (idx_key (e_idx e))))
     \<and> (uf_inserts f = [] \<or> insertMatches (uf_inserts f) (idx_insert (e_idx e)))
     \<and> prefix_filter (uf_name_prefix f) (def_name (e_def e))
     \<and> prefix_filter (uf_location_prefix f) (entry_location e)"

definition record_order :: "index_record \<Rightarrow> handle_key" where
  "record_order r = HandleKey (key_name (idx_key r)) (key_location (idx_key r))"

definition ListPromptIndexRecords :: "prompt_filter \<Rightarrow> catalog \<Rightarrow> index_record list" where
  "ListPromptIndexRecords f c =
     sort_key record_order (map e_idx (filter (prompt_match f) (map snd (by_key c))))"

record user_entry =
  ue_key :: provider_skill_key
  ue_record :: skill_record

definition user_order :: "user_entry \<Rightarrow> handle_key" where
  "user_order u = HandleKey (def_name (rec_def (ue_record u))) (def_location (rec_def (ue_record u)))"

definition ListUserEntries :: "user_filter \<Rightarrow> catalog \<Rightarrow> user_entry list" where
  "ListUserEntries f c =
     sort_key user_order
       (map (\<lambda>(k, e). \<lparr>ue_key = k, ue_record = skillRecordFrom (e_def e) (e_idx e)\<rparr>)
         (filter (\<lambda>(k, e). user_match f e) (by_key c)))"

end
