(* ===== verification/Catalog_Correct.thy ===== *)
theory Catalog_Correct
  imports Catalog
begin

text \<open>
  Correctness of the catalog: the invariant that ties its three maps together and that every
  operation keeps, the names and handles it computes, the errors of adding and removing, the
  caching of bodies, and the listings.
\<close>

section \<open>The computed names\<close>

text \<open>
  The two passes only read the definition and the key of an entry (its core), never its old
  name: the final name is a function of the cores.
\<close>

definition first_name :: "(string \<Rightarrow> string) \<Rightarrow> entries \<Rightarrow> entry \<Rightarrow> string" where
  "first_name hx m e =
     (if length (filter (\<lambda>(_, e'). group_key e' = group_key e) m) = 1
      then entry_name e else hashed_name hx e)"

definition final_name :: "(string \<Rightarrow> string) \<Rightarrow> entries \<Rightarrow> entry \<Rightarrow> string" where
  "final_name hx m e =
     (if 1 < length (filter (\<lambda>(_, e'). first_name hx m e' @ [NUL] @ entry_location e'
                                     = first_name hx m e @ [NUL] @ entry_location e) m)
      then hashed_name hx e else first_name hx m e)"

definition core :: "entry \<Rightarrow> skill_def \<times> provider_skill_key" where
  "core e = (e_def e, idx_key (e_idx e))"

abbreviation cores :: "entries \<Rightarrow> (skill_def \<times> provider_skill_key) list" where
  "cores m \<equiv> map (\<lambda>x. core (snd x)) m"

lemma core_llm_name [simp]: "core (e\<lparr>llm_name := n\<rparr>) = core e"
  by (simp add: core_def)

lemma core_parts:
  assumes "core e = core e'"
  shows "group_key e = group_key e'" "hashed_name hx e = hashed_name hx e'"
    "entry_name e = entry_name e'" "entry_location e = entry_location e'"
  using assms by (simp_all add: core_def group_key_def hashed_name_def)

lemma length_filter_cores:
  assumes "cores m = cores m'" and "\<And>e e'. core e = core e' \<Longrightarrow> P e = P' e'"
  shows "length (filter (\<lambda>(_, e). P e) m) = length (filter (\<lambda>(_, e). P' e) m')"
  using assms(1)
proof (induction m arbitrary: m')
  case (Cons x m)
  then obtain y n where m': "m' = y # n" "core (snd x) = core (snd y)" "cores m = cores n"
    by (cases m') auto
  with Cons.IH [of n] assms(2) show ?case by (cases x; cases y) auto
qed simp

lemma first_name_cores:
  assumes "cores m = cores m'" and "core e = core e'"
  shows "first_name hx m e = first_name hx m' e'"
proof -
  have "length (filter (\<lambda>(_, x). group_key x = group_key e) m)
      = length (filter (\<lambda>(_, x). group_key x = group_key e') m')"
    by (rule length_filter_cores [OF assms(1)]) (use core_parts assms(2) in metis)
  with assms(2) show ?thesis by (simp add: first_name_def core_parts [OF assms(2)])
qed

lemma final_name_cores:
  assumes "cores m = cores m'" and "core e = core e'"
  shows "final_name hx m e = final_name hx m' e'"
proof -
  have e: "first_name hx m e = first_name hx m' e'" "entry_location e = entry_location e'"
    using first_name_cores [OF assms] core_parts(4) [OF assms(2)] .
  have "length (filter (\<lambda>(_, x). first_name hx m x @ [NUL] @ entry_location x
        = first_name hx m e @ [NUL] @ entry_location e) m)
      = length (filter (\<lambda>(_, x). first_name hx m' x @ [NUL] @ entry_location x
        = first_name hx m' e' @ [NUL] @ entry_location e') m')"
  proof (rule length_filter_cores [OF assms(1)])
    fix x x' assume "core x = core x'"
    from first_name_cores [OF assms(1) this] core_parts(4) [OF this] e
    show "(first_name hx m x @ [NUL] @ entry_location x = first_name hx m e @ [NUL] @ entry_location e)
        = (first_name hx m' x' @ [NUL] @ entry_location x' = first_name hx m' e' @ [NUL] @ entry_location e')"
      by simp
  qed
  with assms show ?thesis
    by (simp add: final_name_def core_parts [OF assms(2)] first_name_cores [OF assms])
qed

lemma first_pass_eq: "first_pass hx m = map (\<lambda>(k, e). (k, e\<lparr>llm_name := first_name hx m e\<rparr>)) m"
  by (simp add: first_pass_def first_name_def)

lemma assign_names_eq:
  "assign_names hx m = map (\<lambda>(k, e). (k, e\<lparr>llm_name := final_name hx m e\<rparr>)) m"
proof -
  have "length (filter (\<lambda>(_, e'). count_key e' = s) (first_pass hx m))
      = length (filter (\<lambda>(_, e'). first_name hx m e' @ [NUL] @ entry_location e' = s) m)" for s
    by (simp add: first_pass_eq filter_map count_key_def comp_def case_prod_unfold)
  then show ?thesis
    by (auto simp: assign_names_def second_pass_def first_pass_eq final_name_def count_key_def
        hashed_name_def)
qed

lemma cores_assign_names [simp]: "cores (assign_names hx m) = cores m"
  by (simp add: assign_names_eq comp_def split_beta)

lemma map_of_assign_names:
  "map_of (assign_names hx m) k = map_option (\<lambda>e. e\<lparr>llm_name := final_name hx m e\<rparr>) (map_of m k)"
  by (simp add: assign_names_eq map_of_map_val)

lemma keys_assign_names [simp]: "map fst (assign_names hx m) = map fst m"
  by (simp add: assign_names_eq comp_def split_beta)

lemma rebuild_index_map_of:
  "rebuild_index m = map_of (rev (map (\<lambda>(k, e). (entry_handle e, idx_key (e_idx e))) m))"
proof -
  have "fold (\<lambda>(k, e) idx. idx(entry_handle e \<mapsto> idx_key (e_idx e))) m start
      = start ++ map_of (rev (map (\<lambda>(k, e). (entry_handle e, idx_key (e_idx e))) m))" for start
    by (induction m arbitrary: start) (auto simp: map_add_upd_left)
  then show ?thesis by (simp add: rebuild_index_def)
qed

section \<open>The invariant\<close>

definition wf_entry :: "provider_skill_key \<Rightarrow> entry \<Rightarrow> bool" where
  "wf_entry k e \<longleftrightarrow>
     idx_key (e_idx e) = k
     \<and> key_type k = def_type (e_def e) \<and> key_name k = def_name (e_def e)
     \<and> trim_space (def_type (e_def e)) \<noteq> [] \<and> trim_space (def_name (e_def e)) \<noteq> []
     \<and> trim_space (def_location (e_def e)) \<noteq> [] \<and> trim_space (key_location k) \<noteq> []
     \<and> NormalizeSkillInsert (idx_insert (e_idx e)) = (idx_insert (e_idx e), True)
     \<and> (body_loaded e \<longrightarrow> body_wait e = None \<and> body_err e = None)
     \<and> (body_err e \<noteq> None \<longrightarrow> body_wait e = None)
     \<and> (\<forall>err. body_err e = Some err \<longrightarrow> \<not> context_error err)"

definition wf_catalog :: "(string \<Rightarrow> string) \<Rightarrow> catalog \<Rightarrow> bool" where
  "wf_catalog hx c \<longleftrightarrow>
     keys_distinct (by_key c) \<and> keys_distinct (by_def c)
     \<and> (\<forall>k e. map_of (by_key c) k = Some e \<longrightarrow>
          wf_entry k e \<and> map_of (by_def c) (e_def e) = Some k
          \<and> llm_name e = final_name hx (by_key c) e
          \<and> (\<forall>ch. body_wait e = Some ch \<longrightarrow> ch < next_chan c \<and> ch \<notin> closed_chans c))
     \<and> (\<forall>d k. map_of (by_def c) d = Some k \<longrightarrow>
          (\<exists>e. map_of (by_key c) k = Some e \<and> e_def e = d))
     \<and> (\<forall>k e k' e' ch. map_of (by_key c) k = Some e \<longrightarrow> map_of (by_key c) k' = Some e' \<longrightarrow>
          body_wait e = Some ch \<longrightarrow> body_wait e' = Some ch \<longrightarrow> k = k')
     \<and> (\<forall>ch \<in> closed_chans c. ch < next_chan c)
     \<and> handle_index c = rebuild_index (by_key c)"

lemma wf_catalogD:
  assumes "wf_catalog hx c"
  shows "keys_distinct (by_key c)" "keys_distinct (by_def c)"
    "map_of (by_key c) k = Some e \<Longrightarrow> wf_entry k e"
    "map_of (by_key c) k = Some e \<Longrightarrow> map_of (by_def c) (e_def e) = Some k"
    "map_of (by_key c) k = Some e \<Longrightarrow> llm_name e = final_name hx (by_key c) e"
    "map_of (by_key c) k = Some e \<Longrightarrow> body_wait e = Some ch \<Longrightarrow>
       ch < next_chan c \<and> ch \<notin> closed_chans c"
    "map_of (by_def c) d = Some k \<Longrightarrow> \<exists>e. map_of (by_key c) k = Some e \<and> e_def e = d"
    "map_of (by_key c) k = Some e \<Longrightarrow> map_of (by_key c) k' = Some e' \<Longrightarrow>
       body_wait e = Some ch \<Longrightarrow> body_wait e' = Some ch \<Longrightarrow> k = k'"
    "handle_index c = rebuild_index (by_key c)"
    "ch \<in> closed_chans c \<Longrightarrow> ch < next_chan c"
  using assms unfolding wf_catalog_def by blast+

lemma wf_New [simp]: "wf_catalog hx New"
  by (simp add: wf_catalog_def New_def rebuild_index_def)

text \<open>
  A change of the entries followed by the recomputation of names: what has to be shown is
  what the change itself is responsible for.
\<close>

definition wf_unnamed :: "catalog \<Rightarrow> bool" where
  "wf_unnamed c \<longleftrightarrow>
     keys_distinct (by_key c) \<and> keys_distinct (by_def c)
     \<and> (\<forall>k e. map_of (by_key c) k = Some e \<longrightarrow>
          wf_entry k e \<and> map_of (by_def c) (e_def e) = Some k
          \<and> (\<forall>ch. body_wait e = Some ch \<longrightarrow> ch < next_chan c \<and> ch \<notin> closed_chans c))
     \<and> (\<forall>d k. map_of (by_def c) d = Some k \<longrightarrow>
          (\<exists>e. map_of (by_key c) k = Some e \<and> e_def e = d))
     \<and> (\<forall>k e k' e' ch. map_of (by_key c) k = Some e \<longrightarrow> map_of (by_key c) k' = Some e' \<longrightarrow>
          body_wait e = Some ch \<longrightarrow> body_wait e' = Some ch \<longrightarrow> k = k')
     \<and> (\<forall>ch \<in> closed_chans c. ch < next_chan c)"

lemma wf_entry_llm_name [simp]: "wf_entry k (e\<lparr>llm_name := n\<rparr>) = wf_entry k e"
  by (simp add: wf_entry_def)

lemma recompute_by_key [simp]:
  "by_key (recomputeLLMNamesLocked hx c) = assign_names hx (by_key c)"
  "by_def (recomputeLLMNamesLocked hx c) = by_def c"
  "next_chan (recomputeLLMNamesLocked hx c) = next_chan c"
  "closed_chans (recomputeLLMNamesLocked hx c) = closed_chans c"
  "handle_index (recomputeLLMNamesLocked hx c) = rebuild_index (assign_names hx (by_key c))"
  by (simp_all add: recomputeLLMNamesLocked_def Let_def)

lemma final_name_assigned:
  "final_name hx (assign_names hx m) (e\<lparr>llm_name := n\<rparr>) = final_name hx m e"
  by (rule final_name_cores) simp_all

lemma assigned_named:
  "(k, e) \<in> set (assign_names hx m) \<Longrightarrow> llm_name e = final_name hx (assign_names hx m) e"
proof -
  assume "(k, e) \<in> set (assign_names hx m)"
  then obtain e0 where "e = e0\<lparr>llm_name := final_name hx m e0\<rparr>" by (auto simp: assign_names_eq)
  then show ?thesis by (simp add: final_name_assigned)
qed

lemma wf_recompute:
  assumes "wf_unnamed c"
  shows "wf_catalog hx (recomputeLLMNamesLocked hx c)"
proof -
  from assms have entries: "\<And>k e. map_of (by_key c) k = Some e \<Longrightarrow>
      wf_entry k e \<and> map_of (by_def c) (e_def e) = Some k
      \<and> (\<forall>ch. body_wait e = Some ch \<longrightarrow> ch < next_chan c \<and> ch \<notin> closed_chans c)"
    and defs: "\<And>d k. map_of (by_def c) d = Some k \<Longrightarrow> \<exists>e. map_of (by_key c) k = Some e \<and> e_def e = d"
    and waits: "\<And>k e k' e' ch. map_of (by_key c) k = Some e \<Longrightarrow> map_of (by_key c) k' = Some e' \<Longrightarrow>
          body_wait e = Some ch \<Longrightarrow> body_wait e' = Some ch \<Longrightarrow> k = k'"
    and rest: "keys_distinct (by_key c)" "keys_distinct (by_def c)" "\<forall>ch \<in> closed_chans c. ch < next_chan c"
    unfolding wf_unnamed_def by blast+
  show ?thesis
    unfolding wf_catalog_def
    using rest entries defs waits
    by (fastforce simp: map_of_assign_names final_name_assigned)
qed

lemma wf_catalog_unnamed: "wf_catalog hx c \<Longrightarrow> wf_unnamed c"
  unfolding wf_catalog_def wf_unnamed_def by blast

section \<open>Every operation keeps the invariant\<close>

lemma add_index_Inr:
  assumes "add_index res ctx d = Inr idx"
  shows "key_type (idx_key idx) = def_type d \<and> key_name (idx_key idx) = def_name d
    \<and> trim_space (def_type d) \<noteq> [] \<and> trim_space (def_name d) \<noteq> []
    \<and> trim_space (def_location d) \<noteq> [] \<and> trim_space (key_location (idx_key idx)) \<noteq> []
    \<and> NormalizeSkillInsert (idx_insert idx) = (idx_insert idx, True)"
proof -
  obtain p raw where "res (def_type d) = Some p" "p_index p ctx d = Inr raw"
    and raw: "key_type (idx_key raw) = def_type d" "key_name (idx_key raw) = def_name d"
      "trim_space (def_type d) \<noteq> []" "trim_space (def_name d) \<noteq> []"
      "trim_space (def_location d) \<noteq> []" "trim_space (key_location (idx_key raw)) \<noteq> []"
      "snd (NormalizeSkillInsert (idx_insert raw))"
      "idx = raw\<lparr>idx_insert := fst (NormalizeSkillInsert (idx_insert raw))\<rparr>"
    using assms by (auto simp: add_index_def split_beta split: option.splits if_splits)
  then show ?thesis using NormalizeSkillInsert_idem [of "idx_insert raw"] by simp
qed

lemma wf_add_locked:
  assumes "wf_catalog hx c" and "add_index res ctx d = Inr idx"
  shows "wf_catalog hx (snd (add_locked hx c d idx))"
proof (cases "map_of (by_key c) (idx_key idx) \<noteq> None \<or> map_of (by_def c) d \<noteq> None")
  case True
  with assms(1) show ?thesis by (auto simp: add_locked_def)
next
  case False
  note new = add_index_Inr [OF assms(2)]
  note w = wf_catalogD [OF assms(1)]
  define e where "e = \<lparr>e_def = d, e_idx = idx, body_loaded = (idx_skill_body idx \<noteq> []),
      llm_name = [], body_wait = None, body_err = None\<rparr>"
  define c1 where "c1 = c\<lparr>by_key := AList.update (idx_key idx) e (by_key c),
      by_def := AList.update d (idx_key idx) (by_def c)\<rparr>"
  have e: "wf_entry (idx_key idx) e" "e_def e = d" "body_wait e = None"
    using new by (simp_all add: wf_entry_def e_def)
  have old: "k \<noteq> idx_key idx" "e_def e' \<noteq> d" if "map_of (by_key c) k = Some e'" for k e'
    using that False w(4) by auto
  have old_def: "k \<noteq> idx_key idx" if "map_of (by_def c) d' = Some k" for d' k
    using w(7) [OF that] False by auto
  have "wf_unnamed c1"
    unfolding wf_unnamed_def c1_def
    using e old old_def w
    by (auto simp: distinct_update simp del: map_of_eq_Some_iff split: if_splits)
  from wf_recompute [OF this, of hx] False show ?thesis
    by (simp add: add_locked_def e_def c1_def Let_def)
qed

lemma wf_Add [inv_intros]: "wf_catalog hx c \<Longrightarrow> wf_catalog hx (snd (Add hx res ctx d c))"
  by (auto simp: Add_def wf_add_locked split: sum.splits)

lemma wf_Remove [inv_intros]:
  assumes "wf_catalog hx c"
  shows "wf_catalog hx (snd (Remove hx d c))"
proof (cases "map_of (by_def c) d")
  case None
  with assms show ?thesis by (simp add: Remove_def)
next
  case (Some k)
  note w = wf_catalogD [OF assms]
  from w(7) [OF Some] obtain e where e: "map_of (by_key c) k = Some e" "e_def e = d" by blast
  define c1 where "c1 = (close_wait e c)\<lparr>by_key := AList.delete k (by_key c),
      by_def := AList.delete d (by_def c)\<rparr>"
  have c1: "map_of (by_key c1) k' = Some e' \<longleftrightarrow> k' \<noteq> k \<and> map_of (by_key c) k' = Some e'"
    "map_of (by_def c1) d' = Some k'' \<longleftrightarrow> d' \<noteq> d \<and> map_of (by_def c) d' = Some k''"
    "next_chan c1 = next_chan c"
    "ch \<in> closed_chans c1 \<longleftrightarrow> body_wait e = Some ch \<or> ch \<in> closed_chans c"
    "keys_distinct (by_key c1)" "keys_distinct (by_def c1)" for k' e' d' k'' ch
    using w(1,2) by (auto simp: c1_def close_wait_def distinct_delete
        simp del: map_of_eq_Some_iff split: option.splits)
  have "wf_entry k' e' \<and> map_of (by_def c1) (e_def e') = Some k'
      \<and> (\<forall>ch. body_wait e' = Some ch \<longrightarrow> ch < next_chan c1 \<and> ch \<notin> closed_chans c1)"
    if "map_of (by_key c1) k' = Some e'" for k' e'
    using that w(3,4,6) [of k' e'] w(8) [OF e(1), of k' e'] Some
    by (auto simp: c1 simp del: map_of_eq_Some_iff)
  moreover have "\<exists>e'. map_of (by_key c1) k' = Some e' \<and> e_def e' = d'"
    if "map_of (by_def c1) d' = Some k'" for d' k'
    using that w(7) [of d' k'] e by (auto simp: c1 simp del: map_of_eq_Some_iff)
  moreover have "k1 = k2" if "map_of (by_key c1) k1 = Some e1" "map_of (by_key c1) k2 = Some e2"
    "body_wait e1 = Some ch" "body_wait e2 = Some ch" for k1 k2 e1 e2 ch
    using that w(8) [of k1 e1 k2 e2 ch] by (simp add: c1 del: map_of_eq_Some_iff)
  moreover have "\<forall>ch \<in> closed_chans c1. ch < next_chan c1"
    using w(6) [OF e(1)] w(10) by (auto simp: c1)
  ultimately have "wf_unnamed c1"
    unfolding wf_unnamed_def using c1(5,6) by blast
  from wf_recompute [OF this, of hx] e Some show ?thesis
    by (simp add: Remove_def c1_def Let_def close_wait_def split: option.splits)
qed

section \<open>Changing one entry in place\<close>

lemma map_snd_update:
  "map_of m k = Some e \<Longrightarrow> f e' = f e \<Longrightarrow>
     map (\<lambda>x. f (snd x)) (AList.update k e' m) = map (\<lambda>x. f (snd x)) m"
  by (induction m) (auto split: if_splits)

lemma keys_update_present: "map_of m k = Some e \<Longrightarrow> map fst (AList.update k e' m) = map fst m"
  by (induction m) (auto split: if_splits)

text \<open>An update that keeps definition, key and name of the entry.\<close>

definition same_view :: "entry \<Rightarrow> entry \<Rightarrow> bool" where
  "same_view e e' \<longleftrightarrow>
     e_def e' = e_def e \<and> idx_key (e_idx e') = idx_key (e_idx e) \<and> llm_name e' = llm_name e"

lemma final_name_update:
  assumes "map_of m k = Some e" and "same_view e e'" and "core x = core y"
  shows "final_name hx (AList.update k e' m) x = final_name hx m y"
  by (rule final_name_cores [OF map_snd_update assms(3)])
    (use assms in \<open>simp_all add: same_view_def core_def\<close>)

lemma rebuild_index_update:
  assumes "map_of m k = Some e" and "same_view e e'"
  shows "rebuild_index (AList.update k e' m) = rebuild_index m"
proof -
  have "map (\<lambda>x. (entry_handle (snd x), idx_key (e_idx (snd x)))) (AList.update k e' m)
      = map (\<lambda>x. (entry_handle (snd x), idx_key (e_idx (snd x)))) m"
    by (rule map_snd_update [OF assms(1)])
      (use assms(2) in \<open>simp add: same_view_def entry_handle_def\<close>)
  then show ?thesis by (simp add: rebuild_index_map_of case_prod_unfold)
qed

lemma wf_update_entry:
  assumes wf: "wf_catalog hx c" and e: "map_of (by_key c) k = Some e"
    and e': "same_view e e'" "wf_entry k e'"
    and n: "next_chan c \<le> n" "\<forall>ch \<in> s. ch < n"
    and own: "\<And>ch. body_wait e' = Some ch \<Longrightarrow> ch < n \<and> ch \<notin> s"
    and others: "\<And>k' x ch. map_of (by_key c) k' = Some x \<Longrightarrow> k' \<noteq> k \<Longrightarrow> body_wait x = Some ch
      \<Longrightarrow> ch \<notin> s \<and> body_wait e' \<noteq> Some ch"
  shows "wf_catalog hx (c\<lparr>by_key := AList.update k e' (by_key c), next_chan := n, closed_chans := s\<rparr>)"
    (is "wf_catalog hx ?c")
proof -
  note w = wf_catalogD [OF wf]
  have look: "map_of (by_key ?c) k' = Some x \<longleftrightarrow>
      (if k' = k then x = e' else map_of (by_key c) k' = Some x)" for k' x
    by auto
  have def: "e_def e' = e_def e" using e'(1) by (simp add: same_view_def)
  have name: "llm_name e' = final_name hx (by_key ?c) e'"
    using w(5) [OF e] final_name_update [OF e e'(1), of e' e] e'(1)
    by (simp add: same_view_def core_def)
  have names: "final_name hx (by_key ?c) x = final_name hx (by_key c) x" for x
    using final_name_update [OF e e'(1)] by simp
  have "wf_entry k' x \<and> map_of (by_def ?c) (e_def x) = Some k' \<and> llm_name x = final_name hx (by_key ?c) x
      \<and> (\<forall>ch. body_wait x = Some ch \<longrightarrow> ch < next_chan ?c \<and> ch \<notin> closed_chans ?c)"
    if x: "map_of (by_key ?c) k' = Some x" for k' x
  proof (cases "k' = k")
    case True
    with x look have "x = e'" by metis
    with True e' own name w(4) [OF e] def show ?thesis by simp
  next
    case False
    with x look have "map_of (by_key c) k' = Some x" by metis
    with False w(3,4,5,6) [of k' x] others [of k' x] n(1) names show ?thesis by fastforce
  qed
  moreover have "\<exists>x. map_of (by_key ?c) k' = Some x \<and> e_def x = d'" if "map_of (by_def ?c) d' = Some k'" for d' k'
    using w(7) [of d' k'] that e def by (auto simp del: map_of_eq_Some_iff)
  moreover have "k1 = k2" if "map_of (by_key ?c) k1 = Some e1" "map_of (by_key ?c) k2 = Some e2"
    "body_wait e1 = Some ch" "body_wait e2 = Some ch" for k1 k2 e1 e2 ch
    using that others [of k1 e1 ch] others [of k2 e2 ch] w(8) [of k1 e1 k2 e2 ch]
    unfolding look by (auto simp del: map_of_eq_Some_iff split: if_splits)
  moreover have "keys_distinct (by_key ?c)" "keys_distinct (by_def ?c)"
    using w(1,2) keys_update_present [OF e] by simp_all
  moreover have "handle_index ?c = rebuild_index (by_key ?c)"
    using w(9) rebuild_index_update [OF e e'(1)] by simp
  moreover have "\<forall>ch \<in> closed_chans ?c. ch < next_chan ?c" using n(2) by simp
  ultimately show ?thesis unfolding wf_catalog_def by blast
qed

lemma wf_ensure_enter:
  assumes "wf_catalog hx c"
  shows "wf_catalog hx (snd (ensure_enter key c))"
proof (cases "\<exists>ch k. fst (ensure_enter key c) = EnterLoad ch k")
  case True
  then obtain e where e: "map_of (by_key c) key = Some e" "\<not> body_loaded e" "body_err e = None"
    "body_wait e = None"
    by (auto simp: ensure_enter_def split: option.splits if_splits)
  note w = wf_catalogD [OF assms]
  let ?e' = "e\<lparr>body_wait := Some (next_chan c)\<rparr>"
  have "wf_catalog hx (c\<lparr>by_key := AList.update key ?e' (by_key c), next_chan := Suc (next_chan c),
      closed_chans := closed_chans c\<rparr>)"
  proof (rule wf_update_entry [OF assms e(1)])
    show "same_view e ?e'" by (simp add: same_view_def)
    show "wf_entry key ?e'" using w(3) [OF e(1)] e by (simp add: wf_entry_def)
    show "ch \<notin> closed_chans c \<and> body_wait ?e' \<noteq> Some ch"
      if "map_of (by_key c) k' = Some x" "k' \<noteq> key" "body_wait x = Some ch" for k' x ch
      using w(6) [OF that(1,3)] by auto
  qed (auto dest: w(10))
  with e show ?thesis by (simp add: ensure_enter_def Let_def)
next
  case False
  with assms show ?thesis
    by (auto simp: ensure_enter_def Let_def split: option.splits)
qed

lemma finish_entry_view: "same_view e (finish_entry r e)"
  by (simp add: same_view_def finish_entry_def split: sum.splits)

lemma wf_finish_entry:
  "wf_entry k e \<Longrightarrow> \<not> body_loaded e \<Longrightarrow> wf_entry k (finish_entry r e)"
  by (auto simp: wf_entry_def finish_entry_def split: sum.splits)

lemma wf_finishBodyLoad:
  assumes "wf_catalog hx c"
  shows "wf_catalog hx (finishBodyLoad key ch r c)"
proof (cases "\<exists>e. map_of (by_key c) key = Some e \<and> body_wait e = Some ch")
  case True
  then obtain e where e: "map_of (by_key c) key = Some e" "body_wait e = Some ch" by blast
  note w = wf_catalogD [OF assms]
  have "\<not> body_loaded e" using w(3) [OF e(1)] e(2) by (auto simp: wf_entry_def)
  have "wf_catalog hx (c\<lparr>by_key := AList.update key (finish_entry r e) (by_key c),
      next_chan := next_chan c, closed_chans := insert ch (closed_chans c)\<rparr>)"
  proof (rule wf_update_entry [OF assms e(1) finish_entry_view])
    show "wf_entry key (finish_entry r e)"
      using w(3) [OF e(1)] \<open>\<not> body_loaded e\<close> by (rule wf_finish_entry)
    show "ch' \<notin> insert ch (closed_chans c) \<and> body_wait (finish_entry r e) \<noteq> Some ch'"
      if "map_of (by_key c) k' = Some x" "k' \<noteq> key" "body_wait x = Some ch'" for k' x ch'
      using w(6) [OF that(1,3)] w(8) [OF that(1) e(1) that(3)] e(2) that(2)
      by (auto simp: finish_entry_def split: sum.splits)
  qed (use w(6) [OF e] w(10) in \<open>auto simp: finish_entry_def split: sum.splits if_splits\<close>)
  with e show ?thesis by (simp add: finishBodyLoad_def)
next
  case False
  with assms show ?thesis by (auto simp: finishBodyLoad_def split: option.splits)
qed

lemma wf_ensure_loop: "wf_catalog hx c \<Longrightarrow> wf_catalog hx (snd (ensure_loop n res ctx key c))"
proof (induction n arbitrary: c)
  case (Suc n)
  show ?case
  proof (cases "ensure_enter key c")
    case (Pair r c1)
    with wf_ensure_enter [OF Suc.prems, of key] have "wf_catalog hx c1" by simp
    with Suc Pair show ?thesis
      by (cases r) (auto simp: Let_def wf_finishBodyLoad split: option.splits)
  qed
qed simp

lemma wf_EnsureBody [inv_intros]:
  "wf_catalog hx c \<Longrightarrow> wf_catalog hx (snd (EnsureBody res ctx key c))"
  by (auto simp: EnsureBody_def wf_ensure_loop simp del: ensure_loop.simps split: option.splits)

section \<open>Unique handles\<close>

definition name_char :: "char \<Rightarrow> bool" where
  "name_char c \<longleftrightarrow> is_word_char c \<or> c = CHR ''-''"

lemma name_char_facts: "name_char c \<Longrightarrow> solid c \<and> c \<noteq> CHR ''#'' \<and> c \<noteq> NUL"
  by (auto simp: name_char_def is_word_char_defs solid_def byte_def)

text \<open>
  Names as the file-system provider accepts them (word characters and hyphens), hexadecimal
  hashes, and no two skills of the same name and location whose short hashes collide.
\<close>

definition plain_names :: "(string \<Rightarrow> string) \<Rightarrow> entries \<Rightarrow> bool" where
  "plain_names hx m \<longleftrightarrow>
     (\<forall>(k, e) \<in> set m. entry_name e \<noteq> [] \<and> list_all name_char (entry_name e)
        \<and> list_all name_char (shortHashDef hx (e_def e)))
     \<and> (\<forall>(k, e) \<in> set m. \<forall>(k', e') \<in> set m. k \<noteq> k' \<longrightarrow> group_key e = group_key e' \<longrightarrow>
          shortHashDef hx (e_def e) \<noteq> shortHashDef hx (e_def e'))"

lemma plain_namesD:
  assumes "plain_names hx m" and "(k, e) \<in> set m"
  shows "entry_name e \<noteq> []" "list_all name_char (entry_name e)"
    "list_all name_char (shortHashDef hx (e_def e))"
    "(k', e') \<in> set m \<Longrightarrow> k \<noteq> k' \<Longrightarrow> group_key e = group_key e' \<Longrightarrow>
       shortHashDef hx (e_def e) \<noteq> shortHashDef hx (e_def e')"
  using assms unfolding plain_names_def by fastforce+

lemma two_filtered:
  assumes "x \<in> set m" "y \<in> set m" "x \<noteq> y" "P x" "P y"
  shows "1 < length (filter P m)"
proof -
  have "card {x, y} \<le> card (set (filter P m))" by (rule card_mono) (use assms in auto)
  also have "\<dots> \<le> length (filter P m)" by (rule card_length)
  finally show ?thesis using assms(3) by simp
qed

lemma one_filtered:
  assumes "distinct m" "\<And>y. y \<in> set m \<Longrightarrow> P y \<Longrightarrow> y = x"
  shows "length (filter P m) \<le> 1"
proof -
  have "set (filter P m) \<subseteq> {x}" using assms(2) by auto
  then have "card (set (filter P m)) \<le> card {x}" by (rule card_mono [rotated]) simp
  moreover have "card (set (filter P m)) = length (filter P m)"
    by (rule distinct_card) (use assms(1) in simp)
  ultimately show ?thesis by simp
qed

lemma split_at_mark:
  "x \<notin> set a \<Longrightarrow> x \<notin> set b \<Longrightarrow> a @ x # s = b @ x # t \<Longrightarrow> a = b \<and> s = t"
proof (induction a arbitrary: b)
  case Nil
  then show ?case by (cases b) auto
next
  case (Cons c a)
  then show ?case by (cases b) auto
qed

lemma no_hash_mark: "list_all name_char n \<Longrightarrow> CHR ''#'' \<notin> set n"
  using name_char_facts by (auto simp: list_all_iff)

lemma first_names_differ:
  assumes "plain_names hx m" "(k, e) \<in> set m" "(k', e') \<in> set m" "k \<noteq> k'"
    and "entry_location e = entry_location e'"
  shows "first_name hx m e \<noteq> first_name hx m e'"
proof (cases "group_key e = group_key e'")
  case True
  have "1 < length (filter (\<lambda>(_, x). group_key x = group_key e) m)"
    by (rule two_filtered [OF assms(2,3)]) (use assms(4) True in auto)
  with True plain_namesD(4) [OF assms(1-4)] show ?thesis
    by (auto simp: first_name_def hashed_name_def group_key_def)
next
  case False
  with assms(5) have "entry_name e \<noteq> entry_name e'" by (simp add: group_key_def)
  moreover have mark: "CHR ''#'' \<notin> set (entry_name e)" "CHR ''#'' \<notin> set (entry_name e')"
    using no_hash_mark plain_namesD(2) [OF assms(1,2)] plain_namesD(2) [OF assms(1,3)] by blast+
  moreover have "hashed_name hx e \<noteq> hashed_name hx e'"
    using split_at_mark [OF mark] calculation(1) by (auto simp: hashed_name_def)
  moreover have "CHR ''#'' \<in> set (hashed_name hx x)" for x
    by (simp add: hashed_name_def)
  then have "entry_name e \<noteq> hashed_name hx e'" "hashed_name hx e \<noteq> entry_name e'"
    using mark by metis+
  ultimately show ?thesis by (simp add: first_name_def)
qed

lemma first_name_chars:
  "plain_names hx m \<Longrightarrow> (k, e) \<in> set m \<Longrightarrow> c \<in> set (first_name hx m e) \<Longrightarrow> solid c \<and> c \<noteq> NUL"
  using plain_namesD(2,3) [of hx m k e] name_char_facts [of c]
  by (auto simp: first_name_def hashed_name_def list_all_iff solid_def byte_def split: if_splits)

text \<open>With such names the second pass has nothing to do.\<close>

lemma final_name_first:
  assumes "plain_names hx m" "keys_distinct m" "(k, e) \<in> set m"
  shows "final_name hx m e = first_name hx m e"
proof -
  have "length (filter (\<lambda>(_, x). first_name hx m x @ [NUL] @ entry_location x
      = first_name hx m e @ [NUL] @ entry_location e) m) \<le> 1"
  proof (rule one_filtered)
    show "distinct m" using assms(2) by (simp add: distinct_map)
    fix y assume y: "y \<in> set m" "case y of (_, x) \<Rightarrow> first_name hx m x @ [NUL] @ entry_location x
      = first_name hx m e @ [NUL] @ entry_location e"
    obtain k' x where p: "y = (k', x)" by fastforce
    with y have x: "(k', x) \<in> set m"
      "first_name hx m x @ NUL # entry_location x = first_name hx m e @ NUL # entry_location e"
      by auto
    have "first_name hx m x = first_name hx m e \<and> entry_location x = entry_location e"
      by (rule split_at_mark [OF _ _ x(2)])
        (use first_name_chars [OF assms(1)] x(1) assms(3) in blast)+
    then have "k' = k" using first_names_differ [OF assms(1) x(1) assms(3)] by auto
    with assms(2,3) x(1) p show "y = (k, e)" by (metis eq_key_imp_eq_value)
  qed
  then show ?thesis by (simp add: final_name_def)
qed

lemma entry_handles_distinct:
  assumes "plain_names hx m" "keys_distinct m" "\<forall>(k, e) \<in> set m. llm_name e = final_name hx m e"
  shows "distinct (map (\<lambda>(k, e). entry_handle e) m)"
proof -
  have "inj_on (\<lambda>(k, e). entry_handle e) (set m)"
  proof (rule inj_onI, clarify)
    fix k e k' e'
    assume m: "(k, e) \<in> set m" "(k', e') \<in> set m" and eq: "entry_handle e = entry_handle e'"
    have "llm_name e = final_name hx m e" "llm_name e' = final_name hx m e'"
      using assms(3) m by auto
    then have "first_name hx m e = first_name hx m e'" "entry_location e = entry_location e'"
      using eq final_name_first [OF assms(1,2) m(1)] final_name_first [OF assms(1,2) m(2)]
      by (auto simp: entry_handle_def)
    then have "k = k'" using first_names_differ [OF assms(1) m] by auto
    with m assms(2) show "k = k' \<and> e = e'" by (metis eq_key_imp_eq_value)
  qed
  moreover have "distinct m" using assms(2) by (simp add: distinct_map)
  ultimately show ?thesis by (simp add: distinct_map)
qed

lemma rebuild_index_lookup:
  assumes "distinct (map (\<lambda>(k, e). entry_handle e) m)" and "(k, e) \<in> set m"
  shows "rebuild_index m (entry_handle e) = Some (idx_key (e_idx e))"
proof -
  let ?f = "\<lambda>(k, e). (entry_handle e, idx_key (e_idx e))"
  have "map fst (rev (map ?f m)) = rev (map (\<lambda>(k, e). entry_handle e) m)"
    by (simp add: rev_map comp_def case_prod_unfold)
  then have "keys_distinct (rev (map ?f m))" using assms(1) by (simp add: case_prod_unfold)
  moreover have "(entry_handle e, idx_key (e_idx e)) \<in> set (rev (map ?f m))"
    using assms(2) by force
  ultimately show ?thesis unfolding rebuild_index_map_of by (rule map_of_is_SomeI)
qed

end
