(* ===== verification/Catalog_Theorems.thy ===== *)
theory Catalog_Theorems
  imports Catalog_Correct
begin

text \<open>
  The properties of the catalog: the invariant along every sequence of operations, the effect of
  adding and removing, handles, the caching of bodies, and the listings.
\<close>

section \<open>Sequences of operations\<close>

datatype catalog_op =
    OpAdd resolver ctx skill_def
  | OpRemove skill_def
  | OpEnsureBody resolver ctx provider_skill_key

fun run_catalog_op :: "(string \<Rightarrow> string) \<Rightarrow> catalog_op \<Rightarrow> catalog \<Rightarrow> catalog" where
  "run_catalog_op hx (OpAdd res ctx d) c = snd (Add hx res ctx d c)"
| "run_catalog_op hx (OpRemove d) c = snd (Remove hx d c)"
| "run_catalog_op hx (OpEnsureBody res ctx k) c = snd (EnsureBody res ctx k c)"

lemma wf_run_catalog_op: "wf_catalog hx c \<Longrightarrow> wf_catalog hx (run_catalog_op hx op c)"
  by (cases op) (simp_all add: wf_Add wf_Remove wf_EnsureBody)

interpretation catalog_ops: transition_system "\<lambda>c. c = New" "\<lambda>c c'. \<exists>op. c' = run_catalog_op hx op c"
  "wf_catalog hx" for hx
  by unfold_locales (auto simp: wf_run_catalog_op)

lemma fold_reachable:
  "(\<lambda>c c'. \<exists>op. c' = run_catalog_op hx op c)\<^sup>*\<^sup>* c (fold (run_catalog_op hx) ops c)"
proof (induction ops arbitrary: c)
  case (Cons op ops)
  have "(\<lambda>c c'. \<exists>op. c' = run_catalog_op hx op c) c (run_catalog_op hx op c)" by blast
  with Cons.IH [of "run_catalog_op hx op c"] show ?case
    by (simp add: converse_rtranclp_into_rtranclp)
qed simp

text \<open>
  C18. Whatever sequence of additions, removals and body loads runs on a new catalog, with
  whatever providers, the catalog stays well-formed: keys and definitions are in one-to-one
  correspondence, every entry is the provider's record for its definition, names and the handle
  index are the ones the naming rule gives, and cached bodies, cached errors and loads in
  flight exclude each other.
\<close>

theorem catalog_invariant: "wf_catalog hx (fold (run_catalog_op hx) ops New)"
  using catalog_ops.reachable_inv [OF refl fold_reachable] by simp

section \<open>Adding and removing\<close>

lemma Add_Inl: "fst (Add hx res ctx d c) = Inl e \<Longrightarrow> snd (Add hx res ctx d c) = c"
  by (auto simp: Add_def add_locked_def Let_def split: sum.splits if_splits)

lemma Add_Inr:
  assumes "Add hx res ctx d c = (Inr rec, c')"
  obtains idx where "add_index res ctx d = Inr idx"
    "map_of (by_key c) (idx_key idx) = None" "map_of (by_def c) d = None"
    "rec = skillRecordFrom d idx"
    "c' = recomputeLLMNamesLocked hx (c\<lparr>by_key := AList.update (idx_key idx)
        \<lparr>e_def = d, e_idx = idx, body_loaded = (idx_skill_body idx \<noteq> []), llm_name = [],
         body_wait = None, body_err = None\<rparr> (by_key c),
      by_def := AList.update d (idx_key idx) (by_def c)\<rparr>)"
  using assms
  by (auto simp: Add_def add_locked_def Let_def split: sum.splits if_splits)

lemma GetIndex_recompute [simp]:
  "GetIndex k (recomputeLLMNamesLocked hx c) = GetIndex k c"
  by (simp add: GetIndex_def map_of_assign_names option.map_comp comp_def)

lemma ResolveDef_recompute [simp]:
  "ResolveDef d (recomputeLLMNamesLocked hx c) = ResolveDef d c"
  by (simp add: ResolveDef_def)

text \<open>
  \<open>Add\<close> either fails and changes nothing, or registers exactly the new definition: it was
  not registered before, it now resolves to the provider's key, which was free and keeps the
  type and name of the definition, the record returned shows the definition as given, and
  everything else resolves as before.
\<close>

theorem Add_effect:
  "case Add hx res ctx d c of
     (Inl e, c') \<Rightarrow> c' = c
   | (Inr rec, c') \<Rightarrow>
       rec_def rec = d \<and> ResolveDef d c = None
       \<and> (\<exists>k idx. ResolveDef d c' = Some k \<and> key_type k = def_type d \<and> key_name k = def_name d
            \<and> GetIndex k c = None \<and> GetIndex k c' = Some idx \<and> rec = skillRecordFrom d idx
            \<and> (\<forall>k'. k' = k \<or> GetIndex k' c' = GetIndex k' c))
       \<and> (\<forall>d'. d' = d \<or> ResolveDef d' c' = ResolveDef d' c)"
proof (cases "Add hx res ctx d c")
  case (Pair r c')
  show ?thesis
  proof (cases r)
    case (Inl e)
    with Pair Add_Inl [of hx res ctx d c e] show ?thesis by simp
  next
    case (Inr rec)
    with Pair have "Add hx res ctx d c = (Inr rec, c')" by simp
    then obtain idx where idx: "add_index res ctx d = Inr idx"
      "map_of (by_key c) (idx_key idx) = None" "map_of (by_def c) d = None"
      "rec = skillRecordFrom d idx"
      "c' = recomputeLLMNamesLocked hx (c\<lparr>by_key := AList.update (idx_key idx)
        \<lparr>e_def = d, e_idx = idx, body_loaded = (idx_skill_body idx \<noteq> []), llm_name = [],
         body_wait = None, body_err = None\<rparr> (by_key c),
        by_def := AList.update d (idx_key idx) (by_def c)\<rparr>)"
      by (rule Add_Inr)
    have k: "ResolveDef d c' = Some (idx_key idx)" "GetIndex (idx_key idx) c = None"
      "GetIndex (idx_key idx) c' = Some idx"
      "\<And>k'. k' \<noteq> idx_key idx \<Longrightarrow> GetIndex k' c' = GetIndex k' c"
      "\<And>d'. d' \<noteq> d \<Longrightarrow> ResolveDef d' c' = ResolveDef d' c"
      using idx(2,3) by (auto simp: idx(5) ResolveDef_def GetIndex_def map_of_assign_names option.map_comp comp_def)
    with idx add_index_Inr [OF idx(1)] Pair Inr show ?thesis
      by (auto simp: skillRecordFrom_def ResolveDef_def simp del: map_of_eq_Some_iff)
  qed
qed

lemma assign_names_named:
  "\<forall>k e. map_of m k = Some e \<longrightarrow> llm_name e = final_name hx m e \<Longrightarrow> keys_distinct m \<Longrightarrow>
     assign_names hx m = m"
  by (auto simp: assign_names_eq intro!: map_idI)

lemma wf_catalog_named: "wf_catalog hx c \<Longrightarrow> assign_names hx (by_key c) = by_key c"
  by (rule assign_names_named) (auto dest: wf_catalogD(5) wf_catalogD(1) simp del: map_of_eq_Some_iff)

lemma update_fresh: "map_of m k = None \<Longrightarrow> AList.update k v m = m @ [(k, v)]"
  by (induction m) (auto split: if_splits)

lemma delete_fresh: "map_of m k = None \<Longrightarrow> AList.delete k (m @ [(k, v)]) = m"
  by (induction m) (auto simp: AList.delete_eq split: if_splits)

lemma map_of_last: "map_of m k = None \<Longrightarrow> map_of (m @ [(k, v)]) k = Some v"
  by (simp add: map_add_def)

text \<open>Renaming entries back and forth: only the cores count.\<close>

lemma assign_names_renamed:
  assumes "m' = map (\<lambda>(k, e). (k, e\<lparr>llm_name := f k e\<rparr>)) m"
  shows "assign_names hx m' = assign_names hx m"
proof -
  have "cores m' = cores m" by (simp add: assms comp_def split_beta)
  then have "final_name hx m' (e\<lparr>llm_name := n\<rparr>) = final_name hx m e" for e n
    by (rule final_name_cores) simp
  then show ?thesis by (simp add: assign_names_eq assms comp_def split_beta)
qed

text \<open>
  C23. Removing a skill that was just added gives its record and key back and restores the
  catalog exactly, the names and handles of all other skills included.
\<close>

theorem Remove_Add:
  assumes "wf_catalog hx c" and "Add hx res ctx d c = (Inr rec, c')"
  shows "\<exists>k. Remove hx d c' = (Some (rec, k), c) \<and> ResolveDef d c' = Some k"
  using assms(2)
proof (rule Add_Inr)
  fix idx :: index_record
  let ?k = "idx_key idx"
  let ?e = "\<lparr>e_def = d, e_idx = idx, body_loaded = (idx_skill_body idx \<noteq> []), llm_name = [],
         body_wait = None, body_err = None\<rparr>"
  assume new: "map_of (by_key c) ?k = None" "map_of (by_def c) d = None"
    and rec: "rec = skillRecordFrom d idx"
    and c': "c' = recomputeLLMNamesLocked hx (c\<lparr>by_key := AList.update ?k ?e (by_key c),
        by_def := AList.update d ?k (by_def c)\<rparr>)"
  let ?m = "by_key c @ [(?k, ?e)]"
  have key: "by_key c' = assign_names hx ?m" and def: "by_def c' = by_def c @ [(d, ?k)]"
    using new by (simp_all add: c' update_fresh)
  let ?n = "final_name hx ?m"
  have split: "assign_names hx ?m
      = map (\<lambda>(k, e). (k, e\<lparr>llm_name := ?n e\<rparr>)) (by_key c) @ [(?k, ?e\<lparr>llm_name := ?n ?e\<rparr>)]"
    by (simp add: assign_names_eq)
  have look: "map_of (by_key c') ?k = Some (?e\<lparr>llm_name := ?n ?e\<rparr>)"
    using map_of_last [OF new(1)] by (simp only: key map_of_assign_names option.map)
  have lookd: "map_of (by_def c') d = Some ?k" using map_of_last [OF new(2)] by (simp only: def)
  have "map_of (map (\<lambda>(k, e). (k, e\<lparr>llm_name := ?n e\<rparr>)) (by_key c)) ?k = None"
    using new(1) by (simp add: map_of_map_val)
  then have del: "AList.delete ?k (by_key c') = map (\<lambda>(k, e). (k, e\<lparr>llm_name := ?n e\<rparr>)) (by_key c)"
    unfolding key split by (rule delete_fresh)
  have names: "assign_names hx (AList.delete ?k (by_key c')) = by_key c"
    using assign_names_renamed [OF del] wf_catalog_named [OF assms(1)] by simp
  have defs: "AList.delete d (by_def c') = by_def c"
    using new(2) by (simp only: def delete_fresh)
  have "handle_index c = rebuild_index (by_key c)" by (rule wf_catalogD(9) [OF assms(1)])
  then have "Remove hx d c' = (Some (rec, ?k), c)"
    by (simp add: Remove_def look lookd rec close_wait_def Let_def recomputeLLMNamesLocked_def
        names defs del: map_of_eq_Some_iff) (simp add: c')
  with lookd show ?thesis by (auto simp: ResolveDef_def simp del: map_of_eq_Some_iff)
qed

section \<open>Handles\<close>

lemma entry_in: "map_of m k = Some e \<Longrightarrow> (k, e) \<in> set m"
  by (rule map_of_SomeD)

lemma trim_all_solid: "n \<noteq> [] \<Longrightarrow> \<forall>c \<in> set n. solid c \<Longrightarrow> trim_space n = n"
  by (rule trim_space_solid) auto

lemma wf_entry_handles:
  assumes "wf_catalog hx c" and "plain_names hx (by_key c)"
  shows "distinct (map (\<lambda>(k, e). entry_handle e) (by_key c))"
  by (rule entry_handles_distinct [OF assms(2) wf_catalogD(1) [OF assms(1)]])
    (use wf_catalogD(1,5) [OF assms(1)] in auto)

lemma plain_llm_name:
  assumes "wf_catalog hx c" "plain_names hx (by_key c)" "map_of (by_key c) k = Some e"
  shows "llm_name e = first_name hx (by_key c) e" "trim_space (llm_name e) = llm_name e"
proof -
  have m: "(k, e) \<in> set (by_key c)" using assms(3) by (rule entry_in)
  show f: "llm_name e = first_name hx (by_key c) e"
    using wf_catalogD(5) [OF assms(1) assms(3)] final_name_first [OF assms(2) wf_catalogD(1) [OF assms(1)] m]
    by simp
  have "first_name hx (by_key c) e \<noteq> []"
    using plain_namesD(1) [OF assms(2) m] by (simp add: first_name_def hashed_name_def)
  then show "trim_space (llm_name e) = llm_name e"
    using first_name_chars [OF assms(2) m] by (auto simp: f intro: trim_all_solid)
qed

text \<open>
  C24. The handle shown for a skill leads back to that skill, and no other skill has the same
  handle: provided names are plain, the short hashes of skills of the same name and location
  differ, and the location carries no surrounding white space.
\<close>

theorem HandleForKey_resolves:
  assumes "wf_catalog hx c" and "plain_names hx (by_key c)"
    and "HandleForKey k c = Some h" and "trim_space (handle_location h) = handle_location h"
  shows "ResolveHandle h c = Some k \<and> (\<forall>k'. HandleForKey k' c = Some h \<longrightarrow> k' = k)"
proof -
  have "ResolveHandle h c = Some k'" if "HandleForKey k' c = Some h" for k'
  proof -
    from that obtain e where e: "map_of (by_key c) k' = Some e"
      "h = \<lparr>handle_name = llm_name e, handle_location = entry_location e\<rparr>"
      by (auto simp: HandleForKey_def)
    have "rebuild_index (by_key c) (entry_handle e) = Some (idx_key (e_idx e))"
      by (rule rebuild_index_lookup [OF wf_entry_handles [OF assms(1,2)] entry_in [OF e(1)]])
    moreover have "idx_key (e_idx e) = k'"
      using wf_catalogD(3) [OF assms(1) e(1)] by (simp add: wf_entry_def)
    moreover have "normHandle h = entry_handle e"
      using plain_llm_name(2) [OF assms(1,2) e(1)] assms(4) e(2)
      by (simp add: normHandle_def entry_handle_def)
    ultimately show ?thesis by (simp add: ResolveHandle_def wf_catalogD(9) [OF assms(1)])
  qed
  with assms(3) show ?thesis by (metis option.inject)
qed

text \<open>A provider for examples: it indexes every definition under the location as given.\<close>

definition demo_index :: "skill_def \<Rightarrow> index_record" where
  "demo_index d =
     \<lparr>idx_key = \<lparr>key_type = def_type d, key_name = def_name d, key_location = def_location d\<rparr>,
      idx_name = def_name d, idx_description = ''d'', idx_display_name = [], idx_insert = [],
      idx_arguments = [], idx_tags = [], idx_resources = empty_resources, idx_raw_frontmatter = [],
      idx_warnings = [], idx_digest = [], idx_skill_body = []\<rparr>"

definition demo_provider :: "string \<Rightarrow> provider" where
  "demo_provider t =
     \<lparr>p_type = t, p_index = (\<lambda>c d. Inr (demo_index d)), p_load_body = (\<lambda>c k. Inr ''body''),
      p_read_resource = (\<lambda>c k l e. Inr []), p_run_script = (\<lambda>c k l a e w. Inl (Sentinel ErrRunScriptUnsupported))\<rparr>"

definition demo_resolver :: resolver where
  "demo_resolver t = Some (demo_provider t)"

definition demo_def :: "string \<Rightarrow> string \<Rightarrow> string \<Rightarrow> skill_def" where
  "demo_def t n l = \<lparr>def_type = t, def_name = n, def_location = l\<rparr>"

definition demo_key :: "string \<Rightarrow> string \<Rightarrow> string \<Rightarrow> provider_skill_key" where
  "demo_key t n l = \<lparr>key_type = t, key_name = n, key_location = l\<rparr>"

text \<open>A digest that repeats the first letter.\<close>

definition demo_digest :: "string \<Rightarrow> string" where
  "demo_digest s = replicate 8 (hd s)"

definition demo_catalog :: "skill_def list \<Rightarrow> catalog" where
  "demo_catalog ds = fold (\<lambda>d. run_catalog_op demo_digest (OpAdd demo_resolver None d)) ds New"

lemma wf_demo_catalog: "wf_catalog demo_digest (demo_catalog ds)"
proof -
  have "demo_catalog ds = fold (run_catalog_op demo_digest) (map (OpAdd demo_resolver None) ds) New"
    by (simp add: demo_catalog_def fold_map comp_def)
  moreover have "wf_catalog demo_digest (fold (run_catalog_op demo_digest) ops New)" for ops
    using catalog_ops.reachable_inv [OF refl fold_reachable] by simp
  ultimately show ?thesis by simp
qed

definition twins :: catalog where
  "twins = demo_catalog [demo_def ''a'' ''x'' ''/s'', demo_def ''b'' ''x'' ''/s'']"

theorem Remove_Add_witness:
  "\<exists>rec. Remove demo_digest (demo_def ''b'' ''x'' ''/s'') twins
     = (Some (rec, demo_key ''b'' ''x'' ''/s''), demo_catalog [demo_def ''a'' ''x'' ''/s''])"
proof -
  let ?c = "demo_catalog [demo_def ''a'' ''x'' ''/s'']"
  have twins: "twins = snd (Add demo_digest demo_resolver None (demo_def ''b'' ''x'' ''/s'') ?c)"
    by (simp add: twins_def demo_catalog_def)
  have "\<not> isl (fst (Add demo_digest demo_resolver None (demo_def ''b'' ''x'' ''/s'') ?c))"
    by code_simp
  then obtain rec where
    "Add demo_digest demo_resolver None (demo_def ''b'' ''x'' ''/s'') ?c = (Inr rec, twins)"
    unfolding twins by (metis prod.collapse sum.collapse(2))
  from Remove_Add [OF wf_demo_catalog this] obtain k where
    "Remove demo_digest (demo_def ''b'' ''x'' ''/s'') twins = (Some (rec, k), ?c)"
    "ResolveDef (demo_def ''b'' ''x'' ''/s'') twins = Some k" by blast
  moreover have "ResolveDef (demo_def ''b'' ''x'' ''/s'') twins = Some (demo_key ''b'' ''x'' ''/s'')"
    by code_simp
  ultimately show ?thesis by auto
qed

theorem HandleForKey_resolves_witness:
  "ResolveHandle \<lparr>handle_name = ''x#aaaaaaaa'', handle_location = ''/s''\<rparr> twins
     = Some (demo_key ''a'' ''x'' ''/s'')"
proof -
  have "wf_catalog demo_digest twins" unfolding twins_def by (rule wf_demo_catalog)
  moreover have "plain_names demo_digest (by_key twins)" unfolding plain_names_def by code_simp
  moreover have "HandleForKey (demo_key ''a'' ''x'' ''/s'') twins
      = Some \<lparr>handle_name = ''x#aaaaaaaa'', handle_location = ''/s''\<rparr>"
    by code_simp
  moreover have "trim_space (handle_location \<lparr>handle_name = ''x#aaaaaaaa'', handle_location = ''/s''\<rparr>)
      = handle_location \<lparr>handle_name = ''x#aaaaaaaa'', handle_location = ''/s''\<rparr>"
    by code_simp
  ultimately show ?thesis
    using HandleForKey_resolves [of demo_digest twins "demo_key ''a'' ''x'' ''/s''"] by blast
qed

text \<open>
  Without the proviso on the location, a skill cannot be reached: \<open>Add\<close> accepts a location
  with a leading space and shows it in the handle, but \<open>ResolveHandle\<close> trims the handle it is
  given and finds nothing.
\<close>

theorem ResolveHandle_untrimmed_location:
  "HandleForKey (demo_key ''a'' ''x'' '' /s'') (demo_catalog [demo_def ''a'' ''x'' '' /s''])
     = Some \<lparr>handle_name = ''x'', handle_location = '' /s''\<rparr>
   \<and> ResolveHandle \<lparr>handle_name = ''x'', handle_location = '' /s''\<rparr>
       (demo_catalog [demo_def ''a'' ''x'' '' /s'']) = None"
  by code_simp

text \<open>
  The second pass does not ensure unique handles, because it counts the names before it
  changes them: four skills of one location, two of them named like the hashed names of
  others, end with two skills under one handle.
\<close>

theorem second_pass_not_unique:
  "let c = demo_catalog [demo_def ''a'' ''x'' ''/s'', demo_def ''b'' ''x'' ''/s'',
             demo_def ''c'' ''x#aaaaaaaa'' ''/s'', demo_def ''d'' ''x#aaaaaaaa#cccccccc'' ''/s'']
   in HandleForKey (demo_key ''c'' ''x#aaaaaaaa'' ''/s'') c
        = Some \<lparr>handle_name = ''x#aaaaaaaa#cccccccc'', handle_location = ''/s''\<rparr>
      \<and> HandleForKey (demo_key ''d'' ''x#aaaaaaaa#cccccccc'' ''/s'') c
        = Some \<lparr>handle_name = ''x#aaaaaaaa#cccccccc'', handle_location = ''/s''\<rparr>"
  by code_simp

lemma rebuild_index_eq:
  assumes "distinct (map (\<lambda>(k, e). entry_handle e) m)" "distinct (map (\<lambda>(k, e). entry_handle e) m')"
    and "set m = set m'"
  shows "rebuild_index m = rebuild_index m'"
proof -
  have "keys_distinct (rev (map (\<lambda>(k, e). (entry_handle e, idx_key (e_idx e))) n))"
    if "distinct (map (\<lambda>(k, e). entry_handle e) n)" for n
    using that by (simp add: rev_map [symmetric] comp_def case_prod_unfold)
  with assms show ?thesis
    unfolding rebuild_index_map_of by (subst map_of_inject_set) simp_all
qed

text \<open>
  C32. The order in which Go iterates the map does not show: names and, where they are plain,
  the handle index come out the same for every order of the entries.
\<close>

theorem recompute_order_independent:
  assumes "mset (by_key c) = mset (by_key c')" and "keys_distinct (by_key c)"
    and "plain_names hx (by_key c)"
  shows "map_of (by_key (recomputeLLMNamesLocked hx c)) = map_of (by_key (recomputeLLMNamesLocked hx c'))
    \<and> handle_index (recomputeLLMNamesLocked hx c) = handle_index (recomputeLLMNamesLocked hx c')"
proof -
  let ?m = "by_key c" and ?m' = "by_key c'"
  have count: "length (filter P ?m) = length (filter P ?m')" for P
    using assms(1) by (metis mset_filter size_mset)
  have "first_name hx ?m e = first_name hx ?m' e" for e by (simp add: first_name_def count)
  then have final: "final_name hx ?m e = final_name hx ?m' e" for e
    by (simp add: final_name_def count)
  have set: "set ?m' = set ?m" using assms(1) by (metis mset_eq_setD)
  have "mset (map fst ?m) = mset (map fst ?m')" using assms(1) by simp
  then have dist': "keys_distinct ?m'" using assms(2) mset_eq_imp_distinct_iff by blast
  have eq: "set (assign_names hx ?m) = set (assign_names hx ?m')"
    by (simp add: assign_names_eq final set)
  then have maps: "map_of (assign_names hx ?m) = map_of (assign_names hx ?m')"
    using assms(2) dist' by (simp add: map_of_inject_set)
  have plain: "plain_names hx (assign_names hx ?m)" "plain_names hx (assign_names hx ?m')"
    using assms(3) by (simp_all add: plain_names_def assign_names_eq set group_key_def case_prod_unfold)
  have handles: "distinct (map (\<lambda>(k, e). entry_handle e) (assign_names hx m))"
    if "plain_names hx (assign_names hx m)" "keys_distinct m" for m
    by (rule entry_handles_distinct [OF that(1)])
      (use that(2) assigned_named in auto)
  have "rebuild_index (assign_names hx ?m) = rebuild_index (assign_names hx ?m')"
    by (rule rebuild_index_eq [OF handles [OF plain(1) assms(2)] handles [OF plain(2) dist'] eq])
  with maps show ?thesis by simp
qed

theorem recompute_order_independent_witness:
  "handle_index (recomputeLLMNamesLocked demo_digest twins)
     = handle_index (recomputeLLMNamesLocked demo_digest (twins\<lparr>by_key := rev (by_key twins)\<rparr>))"
proof -
  have "plain_names demo_digest (by_key twins)" unfolding plain_names_def by code_simp
  moreover have "keys_distinct (by_key twins)"
    using wf_catalogD(1) [OF wf_demo_catalog] by (simp add: twins_def)
  moreover have "mset (by_key twins) = mset (by_key (twins\<lparr>by_key := rev (by_key twins)\<rparr>))" by simp
  ultimately show ?thesis
    using recompute_order_independent [of twins "twins\<lparr>by_key := rev (by_key twins)\<rparr>" demo_digest] by blast
qed

section \<open>Bodies\<close>

definition no_loads :: "catalog \<Rightarrow> bool" where
  "no_loads c \<longleftrightarrow> (\<forall>k e. map_of (by_key c) k = Some e \<longrightarrow> body_wait e = None)"

text \<open>The state after a load that ran from start to end.\<close>

definition loaded_state :: "provider_skill_key \<Rightarrow> entry \<Rightarrow> go_error + string \<Rightarrow> catalog \<Rightarrow> catalog" where
  "loaded_state key e r c =
     c\<lparr>by_key := AList.update key (finish_entry r e) (by_key c), next_chan := Suc (next_chan c),
       closed_chans := insert (next_chan c) (closed_chans c)\<rparr>"

lemma update_update: "AList.update k v (AList.update k w m) = AList.update k v m"
  by (induction m) auto

lemma finish_entry_wait [simp]:
  "finish_entry r (e\<lparr>body_wait := w\<rparr>) = finish_entry r e"
  by (simp add: finish_entry_def split: sum.splits)

lemma update_same_entry: "map_of m k = Some v \<Longrightarrow> AList.update k v m = m"
  by (induction m) (auto split: if_splits)

lemma ensure_loop_5:
  "ensure_loop 5 res None key c =
     (case ensure_enter key c of
        (EnterReturn r, c1) \<Rightarrow> (r, c1)
      | (EnterWait ch, c1) \<Rightarrow>
          if ch \<in> closed_chans c1 then ensure_loop 4 res None key c1 else (Inl Hang, c1)
      | (EnterLoad ch recKey, c1) \<Rightarrow>
          let r = load_body res None recKey in (r, finishBodyLoad key ch r c1))"
proof -
  have "(5::nat) = Suc 4" by simp
  then show ?thesis by (simp only: ensure_loop.simps option.case)
qed

lemma EnsureBody_eq:
  assumes "no_loads c"
  shows "EnsureBody res None key c =
    (case map_of (by_key c) key of
       None \<Rightarrow> (Inl (Sentinel ErrSkillNotFound), c)
     | Some e \<Rightarrow>
         if body_loaded e then (Inr (idx_skill_body (e_idx e)), c)
         else (case body_err e of
             Some err \<Rightarrow> (Inl err, c)
           | None \<Rightarrow> let r = load_body res None (idx_key (e_idx e)) in (r, loaded_state key e r c)))"
proof -
  have quiet: "body_wait e = None" if "map_of (by_key c) key = Some e" for e
    using assms that unfolding no_loads_def by blast
  have "e\<lparr>body_wait := None\<rparr> = e" if "body_wait e = None" for e :: entry using that by simp
  then show ?thesis
    using quiet
    by (auto simp: EnsureBody_def ensure_loop_5 ensure_enter_def finishBodyLoad_def loaded_state_def Let_def update_update
        simp del: map_of_eq_Some_iff split: option.splits)
qed

lemma no_loads_loaded_state: "no_loads c \<Longrightarrow> no_loads (loaded_state key e r c)"
  by (auto simp: no_loads_def loaded_state_def finish_entry_def split: sum.splits if_splits)

lemma no_loads_EnsureBody: "no_loads c \<Longrightarrow> no_loads (snd (EnsureBody res None key c))"
  by (auto simp: EnsureBody_eq Let_def no_loads_loaded_state split: option.splits)

lemma finish_loaded: "body_loaded (finish_entry r e) \<longleftrightarrow> body_loaded e \<or> (\<exists>b. r = Inr b)"
  by (auto simp: finish_entry_def split: sum.splits)

text \<open>
  C25. A body is loaded at most once: after a successful \<open>EnsureBody\<close> every later call returns
  the same body without asking the provider, a failure is remembered in the same way, and only
  a context error is forgotten, so that the next call loads again.
\<close>

theorem EnsureBody_cached:
  assumes "wf_catalog hx c" and "no_loads c"
    and "EnsureBody res None key c = (r, c1)" and "GetIndex key c \<noteq> None"
  shows "case r of
      Inr body \<Rightarrow> \<forall>res'. EnsureBody res' None key c1 = (Inr body, c1)
    | Inl err \<Rightarrow>
        if context_error err then by_key c1 = by_key c
        else \<forall>res'. EnsureBody res' None key c1 = (Inl err, c1)"
proof -
  from assms(4) obtain e where e: "map_of (by_key c) key = Some e" by (auto simp: GetIndex_def)
  note wf = wf_catalogD(3) [OF assms(1) e]
  have q1: "no_loads c1" using no_loads_EnsureBody [OF assms(2), of res key] assms(3) by simp
  have quiet: "body_wait e = None" using assms(2) e unfolding no_loads_def by blast
  show ?thesis
  proof (cases "body_loaded e \<or> body_err e \<noteq> None")
    case True
    with assms(2,3) e wf show ?thesis
      by (auto simp: EnsureBody_eq wf_entry_def simp del: map_of_eq_Some_iff split: if_splits)
  next
    case False
    with assms(2,3) e have r: "r = load_body res None (idx_key (e_idx e))"
      and c1: "c1 = loaded_state key e r c"
      by (auto simp: EnsureBody_eq Let_def simp del: map_of_eq_Some_iff)
    have k1: "map_of (by_key c1) key = Some (finish_entry r e)" by (simp add: c1 loaded_state_def)
    show ?thesis
    proof (cases r)
      case (Inr body)
      with k1 show ?thesis
        by (simp add: EnsureBody_eq [OF q1] finish_entry_def del: map_of_eq_Some_iff)
    next
      case (Inl err)
      show ?thesis
      proof (cases "context_error err")
        case True
        have "e\<lparr>body_wait := None\<rparr> = e" using quiet by simp
        moreover have "AList.update key e (by_key c) = by_key c" using e by (rule update_same_entry)
        ultimately show ?thesis using True Inl by (simp add: c1 loaded_state_def finish_entry_def)
      next
        case False
        with Inl k1 \<open>\<not> (body_loaded e \<or> body_err e \<noteq> None)\<close> show ?thesis
          by (simp add: EnsureBody_eq [OF q1] finish_entry_def del: map_of_eq_Some_iff)
      qed
    qed
  qed
qed

theorem EnsureBody_cached_witness:
  "EnsureBody (\<lambda>t. None) None (demo_key ''a'' ''x'' ''/s'')
     (snd (EnsureBody demo_resolver None (demo_key ''a'' ''x'' ''/s'') twins))
   = (Inr ''body'', snd (EnsureBody demo_resolver None (demo_key ''a'' ''x'' ''/s'') twins))"
proof -
  have wf: "wf_catalog demo_digest twins" unfolding twins_def by (rule wf_demo_catalog)
  have "list_all (\<lambda>(k, e). body_wait e = None) (by_key twins)" by code_simp
  then have q: "no_loads twins"
    using wf_catalogD(1) [OF wf] by (auto simp: no_loads_def list_all_iff)
  have "fst (EnsureBody demo_resolver None (demo_key ''a'' ''x'' ''/s'') twins) = Inr ''body''"
    by code_simp
  then have r: "EnsureBody demo_resolver None (demo_key ''a'' ''x'' ''/s'') twins
      = (Inr ''body'', snd (EnsureBody demo_resolver None (demo_key ''a'' ''x'' ''/s'') twins))"
    by (metis prod.collapse)
  have "GetIndex (demo_key ''a'' ''x'' ''/s'') twins \<noteq> None" by code_simp
  from EnsureBody_cached [OF wf q r this] show ?thesis by simp
qed

section \<open>Listings\<close>

lemma prefix_filter_iff [simp]: "prefix_filter p s \<longleftrightarrow> prefix p s"
  by (auto simp: prefix_filter_def prefix_def) (metis append_take_drop_id)

lemma insertMatches_iff:
  "insertMatches allowed actual \<longleftrightarrow>
     snd (NormalizeSkillInsert actual)
     \<and> (\<exists>a \<in> set allowed. NormalizeSkillInsert a = NormalizeSkillInsert actual)"
  by (cases "NormalizeSkillInsert actual") (auto simp: insertMatches_def list_ex_iff)

text \<open>
  The listing for prompts holds exactly the records of the skills that pass the filter
  (each condition only where the filter sets it), sorted by name and location, and it does not
  depend on the iteration order of the map where names and locations differ.
\<close>

theorem ListPromptIndexRecords_spec:
  assumes "keys_distinct (by_key c)"
  shows "set (ListPromptIndexRecords f c) =
      {e_idx e | k e. map_of (by_key c) k = Some e
         \<and> (pf_allow_defs f = [] \<or> e_def e \<in> set (pf_allow_defs f))
         \<and> (pf_types f = [] \<or> key_type (idx_key (e_idx e)) \<in> set (pf_types f))
         \<and> (pf_inserts f = [] \<or> insertMatches (pf_inserts f) (idx_insert (e_idx e)))
         \<and> prefix (pf_llm_name_prefix f) (llm_name e)
         \<and> prefix (pf_location_prefix f) (def_location (e_def e))}
    \<and> sorted (map record_order (ListPromptIndexRecords f c))
    \<and> (\<forall>c'. mset (by_key c') = mset (by_key c) \<longrightarrow> distinct (map record_order (ListPromptIndexRecords f c))
         \<longrightarrow> ListPromptIndexRecords f c' = ListPromptIndexRecords f c)"
proof (intro conjI allI impI)
  show "sorted (map record_order (ListPromptIndexRecords f c))"
    by (simp add: ListPromptIndexRecords_def)
next
  fix c' :: catalog assume m: "mset (by_key c') = mset (by_key c)"
    and d: "distinct (map record_order (ListPromptIndexRecords f c))"
  let ?l = "\<lambda>c. map e_idx (filter (prompt_match f) (map snd (by_key c)))"
  have "mset (?l c') = mset (?l c)" using m by (metis mset_filter mset_map)
  moreover have "inj_on record_order (set (?l c'))"
  proof -
    have "set (?l c') = set (ListPromptIndexRecords f c)"
      using calculation by (simp add: ListPromptIndexRecords_def flip: set_mset_mset)
    with map_inj_on_distinct [OF d] show ?thesis by simp
  qed
  ultimately show "ListPromptIndexRecords f c' = ListPromptIndexRecords f c"
    unfolding ListPromptIndexRecords_def by (rule sort_key_perm_eq)
next
  have pm: "((pf_allow_defs f = [] \<or> e_def e \<in> set (pf_allow_defs f))
         \<and> (pf_types f = [] \<or> key_type (idx_key (e_idx e)) \<in> set (pf_types f))
         \<and> (pf_inserts f = [] \<or> insertMatches (pf_inserts f) (idx_insert (e_idx e)))
         \<and> prefix (pf_llm_name_prefix f) (llm_name e)
         \<and> prefix (pf_location_prefix f) (def_location (e_def e))) = prompt_match f e" for e
    by (simp add: prompt_match_def)
  show "set (ListPromptIndexRecords f c) =
      {e_idx e | k e. map_of (by_key c) k = Some e
         \<and> (pf_allow_defs f = [] \<or> e_def e \<in> set (pf_allow_defs f))
         \<and> (pf_types f = [] \<or> key_type (idx_key (e_idx e)) \<in> set (pf_types f))
         \<and> (pf_inserts f = [] \<or> insertMatches (pf_inserts f) (idx_insert (e_idx e)))
         \<and> prefix (pf_llm_name_prefix f) (llm_name e)
         \<and> prefix (pf_location_prefix f) (def_location (e_def e))}"
    unfolding pm using assms by (force simp: ListPromptIndexRecords_def)
qed

definition b_filter :: prompt_filter where
  "b_filter = \<lparr>pf_types = [''b''], pf_llm_name_prefix = ''x#'', pf_location_prefix = [],
     pf_inserts = [], pf_allow_defs = []\<rparr>"

theorem ListPromptIndexRecords_spec_witness:
  "map idx_key (ListPromptIndexRecords b_filter twins) = [demo_key ''b'' ''x'' ''/s'']
   \<and> sorted (map record_order (ListPromptIndexRecords b_filter twins))"
proof -
  have "keys_distinct (by_key twins)"
    using wf_catalogD(1) [OF wf_demo_catalog] by (simp add: twins_def)
  moreover have "map idx_key (ListPromptIndexRecords b_filter twins) = [demo_key ''b'' ''x'' ''/s'']"
    by code_simp
  ultimately show ?thesis using ListPromptIndexRecords_spec by blast
qed

text \<open>
  The listing for the host is not determined by the contents of the catalog: two skills of
  different types with the same name and location are listed in the order of iteration.
\<close>

theorem ListUserEntries_order_open:
  "let f = \<lparr>uf_types = [], uf_name_prefix = [], uf_location_prefix = [], uf_allow_defs = [], uf_inserts = []\<rparr>
   in map ue_key (ListUserEntries f twins)
        = [demo_key ''a'' ''x'' ''/s'', demo_key ''b'' ''x'' ''/s'']
      \<and> map ue_key (ListUserEntries f (twins\<lparr>by_key := rev (by_key twins)\<rparr>))
        = [demo_key ''b'' ''x'' ''/s'', demo_key ''a'' ''x'' ''/s'']"
  by code_simp

end
