(* ===== verification/Session.thy ===== *)
theory Session
  imports Catalog_Theorems "HOL-Library.Word"
begin

text \<open>
  \<open>internal/session/session.go\<close> and \<open>tools_impl.go\<close>: a session is an ordered set of active skill
  keys with a version counter. It sees the catalog only through the four methods of the Go
  interface \<open>Catalog\<close>, a record of functions on a catalog state that is threaded through.
  The methods that first touch the store are given here from the point after the touch; the
  store applies the touch (theory \<open>Store\<close>).
\<close>

section \<open>The catalog as a session sees it\<close>

record 'c catalog_ops =
  co_resolve_handle :: "skill_handle \<Rightarrow> 'c \<Rightarrow> provider_skill_key option"
  co_handle_for_key :: "provider_skill_key \<Rightarrow> 'c \<Rightarrow> skill_handle option"
  co_ensure_body :: "ctx \<Rightarrow> provider_skill_key \<Rightarrow> 'c \<Rightarrow> (go_error + string) \<times> 'c"
  co_get_index :: "provider_skill_key \<Rightarrow> 'c \<Rightarrow> index_record option"

definition catalog_interface :: "resolver \<Rightarrow> catalog catalog_ops" where
  "catalog_interface res =
     \<lparr>co_resolve_handle = ResolveHandle, co_handle_for_key = HandleForKey,
      co_ensure_body = EnsureBody res, co_get_index = GetIndex\<rparr>"

section \<open>State\<close>

record session =
  s_id :: string
  max_active :: int
  active_order :: "provider_skill_key list"
  active_set :: "provider_skill_key set"
  state_version :: "64 word"
  closed :: bool

definition newSession :: "string \<Rightarrow> int \<Rightarrow> session" where
  "newSession sid maxActive =
     \<lparr>s_id = sid, max_active = maxActive, active_order = [], active_set = {}, state_version = 0,
      closed = False\<rparr>"

definition isActiveLocked :: "provider_skill_key \<Rightarrow> session \<Rightarrow> bool" where
  "isActiveLocked k s \<longleftrightarrow> k \<in> active_set s"

section \<open>Pruning and handles\<close>

definition pruneKeys :: "provider_skill_key list \<Rightarrow> session \<Rightarrow> session" where
  "pruneKeys keys s =
     (if keys = [] then s
      else if closed s then s
      else if set keys \<inter> active_set s = {} then s
      else s\<lparr>active_set := active_set s - set keys,
             active_order := filter (\<lambda>k. k \<notin> set keys) (active_order s),
             state_version := state_version s + 1\<rparr>)"

definition pruneKey :: "provider_skill_key \<Rightarrow> session \<Rightarrow> session" where
  "pruneKey k s =
     (if closed s then s
      else if k \<notin> active_set s then s
      else s\<lparr>active_set := active_set s - {k}, state_version := state_version s + 1,
             active_order := filter (\<lambda>v. v \<noteq> k) (active_order s)\<rparr>)"

definition ActiveKeys ::
  "'c catalog_ops \<Rightarrow> ctx \<Rightarrow> 'c \<Rightarrow> session \<Rightarrow> (go_error + provider_skill_key list) \<times> session" where
  "ActiveKeys ops ctx c s =
     (case ctx of Some e \<Rightarrow> (Inl e, s)
      | None \<Rightarrow>
          if closed s then (Inl (Sentinel ErrSessionNotFound), s)
          else
            let order = active_order s;
                out = filter (\<lambda>k. co_handle_for_key ops k c \<noteq> None) order;
                missing = filter (\<lambda>k. co_handle_for_key ops k c = None) order
            in (Inr out, if missing \<noteq> [] then pruneKeys missing s else s))"

definition activeHandlesLocked ::
  "'c catalog_ops \<Rightarrow> 'c \<Rightarrow> session \<Rightarrow> skill_handle list \<times> session" where
  "activeHandlesLocked ops c s =
     (let out = List.map_filter (\<lambda>k. co_handle_for_key ops k c) (active_order s);
          missing = filter (\<lambda>k. co_handle_for_key ops k c = None) (active_order s)
      in (out,
          if missing \<noteq> [] then
            s\<lparr>active_set := active_set s - set missing,
              active_order := filter (\<lambda>k. k \<notin> set missing) (active_order s),
              state_version := state_version s + 1\<rparr>
          else s))"

section \<open>Activating\<close>

text \<open>The validation loop: unknown keys and skills that are no instructions are refused.\<close>

fun validate_keys ::
  "'c catalog_ops \<Rightarrow> 'c \<Rightarrow> provider_skill_key list \<Rightarrow> provider_skill_key set
   \<Rightarrow> go_error + provider_skill_key list" where
  "validate_keys ops c [] seen = Inr []"
| "validate_keys ops c (k # ks) seen =
     (if k \<in> seen then validate_keys ops c ks seen
      else (case co_get_index ops k c of
          None \<Rightarrow> Inl (Wrapf ''%w: unknown skill key: %+v'' [Sentinel ErrSkillNotFound])
        | Some idx \<Rightarrow>
            if fst (NormalizeSkillInsert (idx_insert idx)) \<noteq> SkillInsertInstructions then
              Inl (invalid_arg ''%w: only insert=instructions skills can be activated in a session'')
            else and_then (validate_keys ops c ks (insert k seen)) (\<lambda>req. Inr (k # req))))"

text \<open>The next active list: the requested keys, after the kept ones in mode add.\<close>

definition next_order ::
  "string \<Rightarrow> provider_skill_key list \<Rightarrow> session \<Rightarrow> provider_skill_key list" where
  "next_order m req s =
     (if m = LoadModeReplace then req
      else filter (\<lambda>k. k \<notin> set req \<and> k \<in> active_set s) (active_order s) @ req)"

fun ensure_all ::
  "'c catalog_ops \<Rightarrow> ctx \<Rightarrow> provider_skill_key list \<Rightarrow> 'c \<Rightarrow> (go_error + unit) \<times> 'c" where
  "ensure_all ops ctx [] c = (Inr (), c)"
| "ensure_all ops ctx (k # ks) c =
     (case co_ensure_body ops ctx k c of
        (Inl e, c1) \<Rightarrow> (Inl e, c1)
      | (Inr body, c1) \<Rightarrow> ensure_all ops ctx ks c1)"

text \<open>
  The retry loop. \<open>others n\<close> is what other goroutines do to the session and the catalog
  between the snapshot and the commit of a round; without interference it is the identity.
\<close>

fun activate_loop ::
  "nat \<Rightarrow> 'c catalog_ops \<Rightarrow> (nat \<Rightarrow> session \<times> 'c \<Rightarrow> session \<times> 'c) \<Rightarrow> ctx
   \<Rightarrow> provider_skill_key list \<Rightarrow> string \<Rightarrow> session \<Rightarrow> 'c
   \<Rightarrow> (go_error + skill_handle list) \<times> session \<times> 'c" where
  "activate_loop 0 ops others ctx req m s c =
     (Inl (invalid_arg ''%w: concurrent session modification; please retry''), s, c)"
| "activate_loop (Suc n) ops others ctx req m s c =
     (if closed s then (Inl (Sentinel ErrSessionNotFound), s, c)
      else
        let nextOrder = next_order m req s in
        if 0 < max_active s \<and> max_active s < int (length nextOrder) then
          (Inl (invalid_arg ''%w: too many active skills (%d > %d)''), s, c)
        else (case ensure_all ops ctx nextOrder c of
            (Inl e, c1) \<Rightarrow> (Inl e, s, c1)
          | (Inr _, c1) \<Rightarrow>
              if list_ex (\<lambda>k. co_get_index ops k c1 = None) nextOrder then
                (Inl (Sentinel ErrSkillNotFound), s, c1)
              else (case others n (s, c1) of (s1, c2) \<Rightarrow>
                if closed s1 then (Inl (Sentinel ErrSessionNotFound), s1, c2)
                else if state_version s1 \<noteq> state_version s then
                  activate_loop n ops others ctx req m s1 c2
                else
                  (case activeHandlesLocked ops c2
                      (s1\<lparr>active_set := set nextOrder, active_order := nextOrder,
                          state_version := state_version s1 + 1\<rparr>) of
                     (handles, s2) \<Rightarrow> (Inr handles, s2, c2)))))"

definition load_mode :: "string \<Rightarrow> string" where
  "load_mode mode = (if trim_space mode = [] then LoadModeReplace else mode)"

definition ActivateKeys ::
  "'c catalog_ops \<Rightarrow> (nat \<Rightarrow> session \<times> 'c \<Rightarrow> session \<times> 'c) \<Rightarrow> ctx
   \<Rightarrow> provider_skill_key list \<Rightarrow> string \<Rightarrow> session \<Rightarrow> 'c
   \<Rightarrow> (go_error + skill_handle list) \<times> session \<times> 'c" where
  "ActivateKeys ops others ctx keys mode s c =
     (case ctx of Some e \<Rightarrow> (Inl e, s, c)
      | None \<Rightarrow>
          if closed s then (Inl (Sentinel ErrSessionNotFound), s, c)
          else
            let m = load_mode mode in
            if m \<noteq> LoadModeReplace \<and> m \<noteq> LoadModeAdd then
              (Inl (invalid_arg ''%w: mode must be replace or add''), s, c)
            else if keys = [] then (Inl (invalid_arg ''%w: keys is required''), s, c)
            else (case validate_keys ops c keys {} of
                Inl e \<Rightarrow> (Inl e, s, c)
              | Inr req \<Rightarrow> activate_loop 5 ops others ctx req m s c))"

text \<open>Calls that run alone.\<close>

definition alone :: "nat \<Rightarrow> session \<times> 'c \<Rightarrow> session \<times> 'c" where
  "alone n x = x"

section \<open>The tools\<close>

text \<open>The loop over the handles of a call: each needs a name and a location, and must resolve.\<close>

fun resolve_handles ::
  "'c catalog_ops \<Rightarrow> 'c \<Rightarrow> skill_handle list \<Rightarrow> go_error + provider_skill_key list" where
  "resolve_handles ops c [] = Inr []"
| "resolve_handles ops c (h # hs) =
     (if trim_space (handle_name h) = [] \<or> trim_space (handle_location h) = [] then
        Inl (invalid_arg ''%w: each skill requires name and location'')
      else (case co_resolve_handle ops h c of
          None \<Rightarrow> Inl (Wrapf ''%w: unknown skill handle: %+v'' [Sentinel ErrSkillNotFound])
        | Some k \<Rightarrow> and_then (resolve_handles ops c hs) (\<lambda>ks. Inr (k # ks))))"

definition toolLoad ::
  "'c catalog_ops \<Rightarrow> (nat \<Rightarrow> session \<times> 'c \<Rightarrow> session \<times> 'c) \<Rightarrow> ctx \<Rightarrow> load_args \<Rightarrow> session \<Rightarrow> 'c
   \<Rightarrow> (go_error + skill_handle list) \<times> session \<times> 'c" where
  "toolLoad ops others ctx args s c =
     (case ctx of Some e \<Rightarrow> (Inl e, s, c)
      | None \<Rightarrow>
          if closed s then (Inl (Sentinel ErrSessionNotFound), s, c)
          else
            let mode = load_mode (la_mode args) in
            if mode \<noteq> LoadModeReplace \<and> mode \<noteq> LoadModeAdd then
              (Inl (invalid_arg ''%w: mode must be replace or add''), s, c)
            else if la_skills args = [] then (Inl (invalid_arg ''%w: skills is required''), s, c)
            else (case resolve_handles ops c (la_skills args) of
                Inl e \<Rightarrow> (Inl e, s, c)
              | Inr ks \<Rightarrow> ActivateKeys ops others ctx (dedup ks) mode s c))"

definition toolUnload ::
  "'c catalog_ops \<Rightarrow> ctx \<Rightarrow> unload_args \<Rightarrow> 'c \<Rightarrow> session
   \<Rightarrow> (go_error + skill_handle list) \<times> session" where
  "toolUnload ops ctx args c s =
     (case ctx of Some e \<Rightarrow> (Inl e, s)
      | None \<Rightarrow>
          if closed s then (Inl (Sentinel ErrSessionNotFound), s)
          else if \<not> ua_all args \<and> ua_skills args = [] then
            (Inl (invalid_arg ''%w: skills is required unless all=true''), s)
          else if ua_all args then
            (case activeHandlesLocked ops c
                (s\<lparr>active_set := {}, active_order := [], state_version := state_version s + 1\<rparr>) of
               (handles, s1) \<Rightarrow> (Inr handles, s1))
          else (case resolve_handles ops c (ua_skills args) of
              Inl e \<Rightarrow> (Inl e, s)
            | Inr rm \<Rightarrow>
                let newSet = active_set s - set rm in
                (case activeHandlesLocked ops c
                    (s\<lparr>active_set := newSet,
                       active_order := filter (\<lambda>k. k \<notin> set rm \<and> k \<in> newSet) (active_order s),
                       state_version := state_version s + 1\<rparr>) of
                   (handles, s1) \<Rightarrow> (Inr handles, s1))))"

text \<open>The guards that \<open>toolRead\<close> and \<open>toolRunScript\<close> share: the active key and its provider.\<close>

definition active_target ::
  "'c catalog_ops \<Rightarrow> resolver \<Rightarrow> ctx \<Rightarrow> string \<Rightarrow> string \<Rightarrow> string \<Rightarrow> 'c \<Rightarrow> session
   \<Rightarrow> go_error + (provider_skill_key \<times> provider)" where
  "active_target ops res ctx name loc target c s =
     and_then (ctx_check ctx) (\<lambda>_.
     and_then (guard_err (closed s) (Sentinel ErrSessionNotFound)) (\<lambda>_.
     and_then (guard_err (trim_space name = [] \<or> trim_space loc = [])
                (invalid_arg ''%w: skill name and location are required'')) (\<lambda>_.
     and_then (guard_err (trim_space target = []) (invalid_arg ''%w: location is required'')) (\<lambda>_.
     case co_resolve_handle ops \<lparr>handle_name = name, handle_location = loc\<rparr> c of
       None \<Rightarrow> Inl (Wrapf ''%w: unknown skill handle: %+v'' [Sentinel ErrSkillNotFound])
     | Some k \<Rightarrow>
         and_then (guard_err (\<not> isActiveLocked k s) (Sentinel ErrSkillNotActive)) (\<lambda>_.
         case res (key_type k) of
           None \<Rightarrow> Inl (Sentinel ErrProviderNotFound)
         | Some p \<Rightarrow> Inr (k, p))))))"

definition toolRead ::
  "'c catalog_ops \<Rightarrow> resolver \<Rightarrow> ctx \<Rightarrow> read_args \<Rightarrow> 'c \<Rightarrow> session \<Rightarrow> go_error + tool_output list" where
  "toolRead ops res ctx args c s =
     and_then (active_target ops res ctx (ra_skill_name args) (ra_skill_location args)
                 (ra_resource_location args) c s) (\<lambda>(k, p).
       let enc = (if trim_space (ra_encoding args) = [] then ReadResourceEncodingText
                  else ra_encoding args)
       in p_read_resource p ctx k (ra_resource_location args) enc)"

definition toolRunScript ::
  "'c catalog_ops \<Rightarrow> resolver \<Rightarrow> ctx \<Rightarrow> script_args \<Rightarrow> 'c \<Rightarrow> session \<Rightarrow> go_error + run_script_out" where
  "toolRunScript ops res ctx args c s =
     and_then (active_target ops res ctx (sa_skill_name args) (sa_skill_location args)
                 (sa_script_location args) c s) (\<lambda>(k, p).
       p_run_script p ctx k (sa_script_location args) (sa_args args) (sa_env args) (sa_work_dir args))"

end
