(* ===== verification/Session_Correct.thy ===== *)
theory Session_Correct
  imports Session
begin

text \<open>
  Correctness of sessions: the shape of the active list, what each call does to it, and the
  optimistic commit under interference. The contract a session needs from the catalog is the
  locale \<open>session_catalog\<close>; its interpretation on the model of the catalog is at the end.
\<close>

section \<open>The session invariant\<close>

definition wf_session :: "session \<Rightarrow> bool" where
  "wf_session s \<longleftrightarrow>
     distinct (active_order s) \<and> set (active_order s) = active_set s
     \<and> (0 < max_active s \<longrightarrow> int (length (active_order s)) \<le> max_active s)"

lemma wf_newSession [simp]: "wf_session (newSession sid n)"
  by (simp add: wf_session_def newSession_def)

lemma length_filter_int: "int (length xs) \<le> n \<Longrightarrow> int (length (filter P xs)) \<le> n"
  by (meson length_filter_le of_nat_mono order_trans)

lemma wf_session_filter:
  "wf_session s \<Longrightarrow> wf_session (s\<lparr>active_set := active_set s - X,
     active_order := filter (\<lambda>k. k \<notin> X) (active_order s), state_version := v\<rparr>)"
  by (auto simp: wf_session_def length_filter_int)

lemma filter_drop_key: "filter (\<lambda>v. v \<noteq> k) xs = filter (\<lambda>v. v \<notin> {k}) xs"
  by simp

lemma wf_pruneKeys [inv_intros]: "wf_session s \<Longrightarrow> wf_session (pruneKeys ks s)"
  using wf_session_filter [where s = s and X = "set ks"] by (simp add: pruneKeys_def)

lemma wf_pruneKey [inv_intros]: "wf_session s \<Longrightarrow> wf_session (pruneKey k s)"
  by (auto simp: pruneKey_def wf_session_def length_filter_int)

lemma wf_ActiveKeys [inv_intros]: "wf_session s \<Longrightarrow> wf_session (snd (ActiveKeys ops ctx c s))"
  by (auto simp: ActiveKeys_def Let_def wf_pruneKeys split: option.splits)

lemma wf_activeHandlesLocked [inv_intros]:
  "wf_session s \<Longrightarrow> wf_session (snd (activeHandlesLocked ops c s))"
  using wf_session_filter [where s = s and X = "set (filter (\<lambda>k. co_handle_for_key ops k c = None) (active_order s))"]
  by (simp add: activeHandlesLocked_def Let_def)

lemma activeHandlesLocked_keeps:
  "max_active (snd (activeHandlesLocked ops c s)) = max_active s"
  "closed (snd (activeHandlesLocked ops c s)) = closed s"
  "s_id (snd (activeHandlesLocked ops c s)) = s_id s"
  by (simp_all add: activeHandlesLocked_def Let_def)

lemma validate_keys_Inr:
  "validate_keys ops c ks seen = Inr req \<Longrightarrow>
     distinct req \<and> set req \<inter> seen = {} \<and> set req \<subseteq> set ks \<and> (\<forall>k \<in> set ks. k \<in> set req \<union> seen)
     \<and> (\<forall>k \<in> set req. \<exists>idx. co_get_index ops k c = Some idx
          \<and> fst (NormalizeSkillInsert (idx_insert idx)) = SkillInsertInstructions)"
proof (induction ks arbitrary: seen req)
  case (Cons k ks)
  show ?case
  proof (cases "k \<in> seen")
    case True
    with Cons.prems Cons.IH [of seen req] show ?thesis by auto
  next
    case False
    with Cons.prems obtain idx r where r: "co_get_index ops k c = Some idx"
      "fst (NormalizeSkillInsert (idx_insert idx)) = SkillInsertInstructions"
      "validate_keys ops c ks (insert k seen) = Inr r" "req = k # r"
      by (auto split: option.splits if_splits)
    with Cons.IH [OF r(3)] False show ?thesis by auto
  qed
qed simp

lemma validate_keys_dedup:
  "validate_keys ops c ks (set seen) = Inr req \<Longrightarrow> req = dedup_from seen ks"
proof (induction ks arbitrary: seen req)
  case (Cons k ks)
  show ?case
  proof (cases "k \<in> set seen")
    case True
    with Cons show ?thesis by simp
  next
    case False
    with Cons.prems obtain r where r: "validate_keys ops c ks (set (k # seen)) = Inr r" "req = k # r"
      by (auto split: option.splits if_splits)
    with Cons.IH [OF r(1)] False show ?thesis by simp
  qed
qed simp

lemma next_order_distinct:
  "wf_session s \<Longrightarrow> distinct req \<Longrightarrow> distinct (next_order m req s)"
  by (auto simp: next_order_def wf_session_def)

section \<open>The commit\<close>

text \<open>
  What interference may do: keep the session well-formed and its limit fixed, and change the
  version whenever it changes the active list.
\<close>

definition fair_interference :: "(nat \<Rightarrow> session \<times> 'c \<Rightarrow> session \<times> 'c) \<Rightarrow> bool" where
  "fair_interference others \<longleftrightarrow>
     (\<forall>n s c. let s' = fst (others n (s, c)) in
        (wf_session s \<longrightarrow> wf_session s') \<and> max_active s' = max_active s
        \<and> (state_version s' = state_version s \<longrightarrow> active_order s' = active_order s))"

lemma fair_alone [simp]: "fair_interference alone"
  by (simp add: fair_interference_def alone_def)

lemma fair_interferenceD:
  assumes "fair_interference others" and "others n (s, c) = (s', c')"
  shows "wf_session s \<Longrightarrow> wf_session s'" "max_active s' = max_active s"
    "state_version s' = state_version s \<Longrightarrow> active_order s' = active_order s"
  using assms unfolding fair_interference_def by (metis fst_conv)+

text \<open>
  A successful call committed in one step: there is a moment, with the session in state \<open>s1\<close>,
  at which the list computed from \<open>s1\<close> itself became the active list.
\<close>

definition committed ::
  "'c catalog_ops \<Rightarrow> string \<Rightarrow> provider_skill_key list \<Rightarrow> session \<Rightarrow> 'c \<Rightarrow> skill_handle list \<Rightarrow> session \<Rightarrow> bool"
where
  "committed ops m req s1 c hs s' \<longleftrightarrow>
     \<not> closed s1 \<and> wf_session s1
     \<and> (0 < max_active s1 \<longrightarrow> int (length (next_order m req s1)) \<le> max_active s1)
     \<and> (hs, s') = activeHandlesLocked ops c
         (s1\<lparr>active_set := set (next_order m req s1), active_order := next_order m req s1,
             state_version := state_version s1 + 1\<rparr>)"

lemma next_order_cong:
  "wf_session s \<Longrightarrow> wf_session s' \<Longrightarrow> active_order s' = active_order s \<Longrightarrow>
     next_order m req s' = next_order m req s"
  by (auto simp: next_order_def wf_session_def)

lemma activate_loop_commit:
  assumes "activate_loop n ops others ctx req m s c = (Inr hs, s', c')"
    and "fair_interference others" and "wf_session s"
  shows "\<exists>s1. committed ops m req s1 c' hs s'"
  using assms(1,3)
proof (induction n arbitrary: s c)
  case (Suc n)
  let ?o = "next_order m req s"
  from Suc.prems(1) obtain c1 where open_: "\<not> closed s"
    "\<not> (0 < max_active s \<and> max_active s < int (length ?o))"
    "ensure_all ops ctx ?o c = (Inr (), c1)" "\<not> list_ex (\<lambda>k. co_get_index ops k c1 = None) ?o"
    by (auto simp: Let_def split: if_splits prod.splits sum.splits)
  obtain s1 c2 where o: "others n (s, c1) = (s1, c2)" by fastforce
  note f = fair_interferenceD [OF assms(2) o]
  have rest: "(if closed s1 then (Inl (Sentinel ErrSessionNotFound), s1, c2)
      else if state_version s1 \<noteq> state_version s then activate_loop n ops others ctx req m s1 c2
      else (case activeHandlesLocked ops c2 (s1\<lparr>active_set := set ?o, active_order := ?o,
          state_version := state_version s1 + 1\<rparr>) of (handles, s2) \<Rightarrow> (Inr handles, s2, c2)))
      = (Inr hs, s', c')"
    using Suc.prems(1) open_ o by (auto simp: Let_def)
  show ?case
  proof (cases "state_version s1 = state_version s")
    case False
    with rest have "activate_loop n ops others ctx req m s1 c2 = (Inr hs, s', c')"
      by (auto split: if_splits)
    then show ?thesis by (rule Suc.IH) (rule f(1) [OF Suc.prems(2)])
  next
    case True
    have "next_order m req s1 = ?o"
      by (rule next_order_cong [OF Suc.prems(2) f(1) [OF Suc.prems(2)] f(3) [OF True]])
    with rest True open_ f(1) [OF Suc.prems(2)] f(2)
    have "committed ops m req s1 c' hs s'"
      by (auto simp: committed_def split: if_splits prod.splits)
    then show ?thesis by blast
  qed
qed simp

text \<open>Without interference the first round decides.\<close>

lemma activate_loop_alone_eq:
  assumes "ensure_all ops ctx (next_order m req s) c = (r, c1)"
  shows "activate_loop (Suc n) ops alone ctx req m s c =
    (if closed s then (Inl (Sentinel ErrSessionNotFound), s, c)
     else if 0 < max_active s \<and> max_active s < int (length (next_order m req s)) then
       (Inl (invalid_arg ''%w: too many active skills (%d > %d)''), s, c)
     else (case r of
         Inl e \<Rightarrow> (Inl e, s, c1)
       | Inr _ \<Rightarrow>
           if list_ex (\<lambda>k. co_get_index ops k c1 = None) (next_order m req s) then
             (Inl (Sentinel ErrSkillNotFound), s, c1)
           else (case activeHandlesLocked ops c1
               (s\<lparr>active_set := set (next_order m req s), active_order := next_order m req s,
                   state_version := state_version s + 1\<rparr>) of (hs, s2) \<Rightarrow> (Inr hs, s2, c1))))"
  using assms by (simp add: Let_def alone_def split: sum.splits)

lemma activate_loop_alone:
  assumes "activate_loop n ops alone ctx req m s c = (Inl e, s', c')"
  shows "s' = s"
proof (cases n)
  case (Suc k)
  obtain r c1 where e: "ensure_all ops ctx (next_order m req s) c = (r, c1)" by fastforce
  from assms Suc show ?thesis
    by (simp only: activate_loop_alone_eq [OF e]) (auto split: if_splits sum.splits prod.splits)
qed (use assms in simp)

lemma activate_loop_alone_Inr:
  assumes "activate_loop n ops alone ctx req m s c = (Inr hs, s', c')"
  obtains c1 where "ensure_all ops ctx (next_order m req s) c = (Inr (), c1)"
    "\<not> list_ex (\<lambda>k. co_get_index ops k c1 = None) (next_order m req s)"
    "activeHandlesLocked ops c1 (s\<lparr>active_set := set (next_order m req s),
        active_order := next_order m req s, state_version := state_version s + 1\<rparr>) = (hs, s')"
    "c' = c1"
proof (cases n)
  case (Suc k)
  obtain r c1 where e: "ensure_all ops ctx (next_order m req s) c = (r, c1)" by fastforce
  from assms Suc e that show thesis
    by (simp only: activate_loop_alone_eq [OF e]) (auto split: if_splits sum.splits prod.splits)
qed (use assms in simp)

lemma committed_wf:
  assumes "committed ops m req s1 c hs s'" and "distinct req"
  shows "wf_session s'"
proof -
  let ?s = "s1\<lparr>active_set := set (next_order m req s1), active_order := next_order m req s1,
             state_version := state_version s1 + 1\<rparr>"
  have "wf_session ?s"
    using assms next_order_distinct [of s1 req m] by (auto simp: committed_def wf_session_def)
  from wf_activeHandlesLocked [OF this, of ops c] assms(1) show ?thesis
    unfolding committed_def by (metis snd_conv)
qed

lemma ActivateKeys_Inr:
  assumes "ActivateKeys ops others ctx keys mode s c = (Inr hs, s', c')"
  obtains req where "ctx = None" "\<not> closed s" "load_mode mode \<in> {LoadModeReplace, LoadModeAdd}"
    "keys \<noteq> []" "validate_keys ops c keys {} = Inr req"
    "activate_loop 5 ops others None req (load_mode mode) s c = (Inr hs, s', c')"
  using assms
  by (auto simp: ActivateKeys_def Let_def simp del: activate_loop.simps
      split: option.splits if_splits sum.splits)

lemma ActivateKeys_Inl:
  assumes "ActivateKeys ops alone ctx keys mode s c = (Inl e, s', c')"
  shows "s' = s"
  using assms activate_loop_alone
  by (auto simp: ActivateKeys_def Let_def simp del: activate_loop.simps
      split: option.splits if_splits sum.splits)

lemma ActivateKeys_wf:
  assumes "ActivateKeys ops others ctx keys mode s c = (Inr hs, s', c')"
    and "fair_interference others" and "wf_session s"
  shows "wf_session s'"
proof -
  from assms(1) obtain req where req: "validate_keys ops c keys {} = Inr req"
    "activate_loop 5 ops others None req (load_mode mode) s c = (Inr hs, s', c')"
    by (rule ActivateKeys_Inr)
  obtain s1 where "committed ops (load_mode mode) req s1 c' hs s'"
    using activate_loop_commit [OF req(2) assms(2,3)] by blast
  moreover have "distinct req" using validate_keys_Inr [OF req(1)] by simp
  ultimately show ?thesis by (rule committed_wf)
qed


section \<open>What a session needs from the catalog\<close>

text \<open>
  The laws: a key is known exactly when it has a handle, handles resolve to known keys, and
  loading a body keeps the invariant, the known keys with their insert hints and handles, and
  every body already loaded. \<open>body_of\<close> is the body the catalog holds for a key.
\<close>

locale session_catalog =
  fixes ops :: "'c catalog_ops"
    and cinv :: "'c \<Rightarrow> bool"
    and body_of :: "'c \<Rightarrow> provider_skill_key \<Rightarrow> string option"
  assumes handle_known: "cinv c \<Longrightarrow> co_handle_for_key ops k c = None \<longleftrightarrow> co_get_index ops k c = None"
    and resolve_known: "cinv c \<Longrightarrow> co_resolve_handle ops h c = Some k \<Longrightarrow> co_get_index ops k c \<noteq> None"
    and ensure_inv: "cinv c \<Longrightarrow> cinv (snd (co_ensure_body ops ctx k c))"
    and ensure_index: "cinv c \<Longrightarrow>
      map_option idx_insert (co_get_index ops k' (snd (co_ensure_body ops ctx k c)))
        = map_option idx_insert (co_get_index ops k' c)"
    and ensure_handle: "cinv c \<Longrightarrow>
      co_handle_for_key ops k' (snd (co_ensure_body ops ctx k c)) = co_handle_for_key ops k' c"
    and ensure_body: "cinv c \<Longrightarrow> fst (co_ensure_body ops ctx k c) = Inr b \<Longrightarrow>
      body_of (snd (co_ensure_body ops ctx k c)) k = Some b"
    and ensure_keeps: "cinv c \<Longrightarrow> body_of c k' = Some b \<Longrightarrow>
      body_of (snd (co_ensure_body ops ctx k c)) k' = Some b"
begin

lemma ensure_all_inv: "cinv c \<Longrightarrow> cinv (snd (ensure_all ops ctx ks c))"
proof (induction ks arbitrary: c)
  case (Cons k ks)
  then show ?case
    using ensure_inv [OF Cons.prems, of ctx k] Cons.IH by (auto split: prod.splits sum.splits)
qed simp

lemma ensure_all_index:
  "cinv c \<Longrightarrow> map_option idx_insert (co_get_index ops k' (snd (ensure_all ops ctx ks c)))
     = map_option idx_insert (co_get_index ops k' c)"
proof (induction ks arbitrary: c)
  case (Cons k ks)
  then show ?case
    using ensure_inv [OF Cons.prems, of ctx k] ensure_index [OF Cons.prems, of k' ctx k] Cons.IH
    by (auto split: prod.splits sum.splits)
qed simp

lemma ensure_all_handle:
  "cinv c \<Longrightarrow> co_handle_for_key ops k' (snd (ensure_all ops ctx ks c)) = co_handle_for_key ops k' c"
proof (induction ks arbitrary: c)
  case (Cons k ks)
  then show ?case
    using ensure_inv [OF Cons.prems, of ctx k] ensure_handle [OF Cons.prems, of k' ctx k] Cons.IH
    by (auto split: prod.splits sum.splits)
qed simp

lemma ensure_all_keeps:
  "cinv c \<Longrightarrow> body_of c k' = Some b \<Longrightarrow> body_of (snd (ensure_all ops ctx ks c)) k' = Some b"
proof (induction ks arbitrary: c)
  case (Cons k ks)
  then show ?case
    using ensure_inv [OF Cons.prems(1), of ctx k] ensure_keeps [OF Cons.prems, of ctx k] Cons.IH
    by (auto split: prod.splits sum.splits)
qed simp

lemma ensure_all_bodies:
  "cinv c \<Longrightarrow> fst (ensure_all ops ctx ks c) = Inr () \<Longrightarrow> k \<in> set ks \<Longrightarrow>
     body_of (snd (ensure_all ops ctx ks c)) k \<noteq> None"
proof (induction ks arbitrary: c)
  case (Cons k0 ks)
  obtain r c1 where e: "co_ensure_body ops ctx k0 c = (r, c1)" by fastforce
  with Cons.prems(2) obtain b where b: "r = Inr b" by (cases r) auto
  have inv: "cinv c1" using ensure_inv [OF Cons.prems(1), of ctx k0] e by simp
  have "body_of c1 k0 = Some b" using ensure_body [OF Cons.prems(1), of ctx k0 b] e b by simp
  from ensure_all_keeps [OF inv this] Cons.IH [OF inv] Cons.prems e b show ?case by auto
qed simp

lemma known_handles:
  assumes "cinv c" "\<forall>k \<in> set (active_order s). co_get_index ops k c \<noteq> None"
  shows "activeHandlesLocked ops c s = (map (\<lambda>k. the (co_handle_for_key ops k c)) (active_order s), s)"
proof -
  have "filter (\<lambda>k. co_handle_for_key ops k c = None) (active_order s) = []"
    using assms handle_known [OF assms(1)] by (simp add: filter_empty_conv)
  moreover have "List.map_filter (\<lambda>k. co_handle_for_key ops k c) ks
      = map (\<lambda>k. the (co_handle_for_key ops k c)) ks" if "set ks \<subseteq> set (active_order s)" for ks
    using that assms handle_known [OF assms(1)]
    by (induction ks) (force simp: List.map_filter_simps split: option.splits)+
  ultimately show ?thesis by (simp add: activeHandlesLocked_def)
qed

text \<open>A call that runs alone: it fails and leaves the session as it was, or commits at once.\<close>

lemma activate_alone:
  assumes "cinv c" "ActivateKeys ops alone ctx keys mode s c = (Inr hs, s', c')"
  shows "cinv c' \<and> s' = s\<lparr>active_order := next_order (load_mode mode) (dedup keys) s,
        active_set := set (next_order (load_mode mode) (dedup keys) s),
        state_version := state_version s + 1\<rparr>
    \<and> hs = map (\<lambda>k. the (co_handle_for_key ops k c)) (active_order s')
    \<and> (\<forall>k \<in> set (active_order s'). body_of c' k \<noteq> None \<and> co_get_index ops k c' \<noteq> None)
    \<and> (\<forall>k \<in> set keys. \<exists>idx. co_get_index ops k c' = Some idx
         \<and> fst (NormalizeSkillInsert (idx_insert idx)) = SkillInsertInstructions)"
proof -
  from assms(2) obtain req where req: "validate_keys ops c keys {} = Inr req"
    "activate_loop 5 ops alone None req (load_mode mode) s c = (Inr hs, s', c')"
    by (rule ActivateKeys_Inr)
  have d: "req = dedup keys" using validate_keys_dedup [of ops c keys "[]"] req(1) by simp
  let ?o = "next_order (load_mode mode) req s"
  from req(2) obtain c1 where c1: "ensure_all ops None ?o c = (Inr (), c1)"
    "\<not> list_ex (\<lambda>k. co_get_index ops k c1 = None) ?o"
    "activeHandlesLocked ops c1 (s\<lparr>active_set := set ?o, active_order := ?o,
        state_version := state_version s + 1\<rparr>) = (hs, s')" "c' = c1"
    by (rule activate_loop_alone_Inr)
  have inv: "cinv c1" using ensure_all_inv [OF assms(1), of None ?o] c1(1) by simp
  have known: "\<forall>k \<in> set ?o. co_get_index ops k c1 \<noteq> None" using c1(2) by (auto simp: list_ex_iff)
  have s': "hs = map (\<lambda>k. the (co_handle_for_key ops k c1)) ?o"
    "s' = s\<lparr>active_set := set ?o, active_order := ?o, state_version := state_version s + 1\<rparr>"
    using c1(3) known_handles [OF inv, of "s\<lparr>active_set := set ?o, active_order := ?o,
        state_version := state_version s + 1\<rparr>"] known by simp_all
  have "co_handle_for_key ops k c1 = co_handle_for_key ops k c" for k
    using ensure_all_handle [OF assms(1), of k None ?o] c1(1) by simp
  moreover have "\<forall>k \<in> set ?o. body_of c1 k \<noteq> None"
    using ensure_all_bodies [OF assms(1), of None ?o] c1(1) by simp
  moreover have "\<exists>idx. co_get_index ops k c1 = Some idx
      \<and> fst (NormalizeSkillInsert (idx_insert idx)) = SkillInsertInstructions" if "k \<in> set keys" for k
    using validate_keys_Inr [OF req(1)] that ensure_all_index [OF assms(1), of k None ?o] c1(1)
    by (fastforce simp: map_option_case split: option.splits)
  ultimately show ?thesis using inv known s' c1(4) d by simp
qed

lemma activate_catalog:
  "\<exists>ks. snd (snd (ActivateKeys ops alone ctx keys mode s c)) \<in> {c, snd (ensure_all ops None ks c)}"
proof -
  have "snd (snd (activate_loop n ops alone None req m s c))
      \<in> {c, snd (ensure_all ops None (next_order m req s) c)}" for n req m
  proof (cases n)
    case (Suc k)
    obtain r c1 where e: "ensure_all ops None (next_order m req s) c = (r, c1)" by fastforce
    with Suc show ?thesis
      by (simp only: activate_loop_alone_eq [OF e]) (auto split: sum.splits prod.splits)
  qed simp
  then show ?thesis
    by (auto simp: ActivateKeys_def Let_def simp del: activate_loop.simps
        split: option.splits sum.splits)
qed

lemma activate_inv: "cinv c \<Longrightarrow> cinv (snd (snd (ActivateKeys ops alone ctx keys mode s c)))"
  using activate_catalog [of ctx keys mode s c] ensure_all_inv by fastforce

lemma activate_handles:
  "cinv c \<Longrightarrow> co_handle_for_key ops k (snd (snd (ActivateKeys ops alone ctx keys mode s c)))
     = co_handle_for_key ops k c"
  using activate_catalog [of ctx keys mode s c] ensure_all_handle by fastforce

lemma activate_index:
  "cinv c \<Longrightarrow> map_option idx_insert (co_get_index ops k (snd (snd (ActivateKeys ops alone ctx keys mode s c))))
     = map_option idx_insert (co_get_index ops k c)"
  using activate_catalog [of ctx keys mode s c] ensure_all_index by fastforce

end

text \<open>The handles of an active list, and the list with unknown keys dropped.\<close>

lemma map_filter_handles:
  "map Some (List.map_filter f ks) = map f (filter (\<lambda>k. f k \<noteq> None) ks)"
  by (induction ks) (auto simp: List.map_filter_simps split: option.splits)

lemma activeHandlesLocked_effect:
  assumes "activeHandlesLocked ops c s = (hs, s')" and "set (active_order s) = active_set s"
  shows "map Some hs = map (\<lambda>k. co_handle_for_key ops k c) (active_order s')
    \<and> active_order s' = filter (\<lambda>k. co_handle_for_key ops k c \<noteq> None) (active_order s)"
proof -
  let ?o = "active_order s"
  have "filter (\<lambda>k. k \<notin> set (filter (\<lambda>k. co_handle_for_key ops k c = None) ?o)) ?o
      = filter (\<lambda>k. co_handle_for_key ops k c \<noteq> None) ?o"
    by (rule filter_cong) auto
  moreover have "filter (\<lambda>k. co_handle_for_key ops k c = None) ?o = [] \<Longrightarrow>
      filter (\<lambda>k. co_handle_for_key ops k c \<noteq> None) ?o = ?o"
    by (simp add: filter_empty_conv filter_id_conv)
  ultimately show ?thesis
    using assms by (auto simp: activeHandlesLocked_def Let_def map_filter_handles split: if_splits)
qed

text \<open>The operations that only take skills out of the active set.\<close>

lemma activeHandlesLocked_subset: "active_set (snd (activeHandlesLocked ops c s)) \<subseteq> active_set s"
  by (auto simp: activeHandlesLocked_def Let_def)

lemma ActiveKeys_subset: "active_set (snd (ActiveKeys ops ctx c s)) \<subseteq> active_set s"
  by (auto simp: ActiveKeys_def pruneKeys_def Let_def split: option.splits)

lemma activeHandlesLocked_shrinks:
  assumes "activeHandlesLocked ops c s1 = (hs, s2)" "wf_session s1" "active_set s1 \<subseteq> A"
  shows "wf_session s2 \<and> active_set s2 \<subseteq> A"
  using wf_activeHandlesLocked [OF assms(2), of ops c] activeHandlesLocked_subset [of ops c s1] assms
  by auto

lemma unload_rest:
  "wf_session s \<Longrightarrow> filter (\<lambda>k. k \<notin> X \<and> k \<in> active_set s - X) (active_order s)
     = filter (\<lambda>k. k \<notin> X) (active_order s)"
  by (rule filter_cong) (auto simp: wf_session_def)

lemma toolUnload_shrinks:
  assumes "wf_session s"
  shows "wf_session (snd (toolUnload ops ctx args c s))
    \<and> active_set (snd (toolUnload ops ctx args c s)) \<subseteq> active_set s"
proof -
  have none: "wf_session (s\<lparr>active_set := {}, active_order := [], state_version := v\<rparr>)" for v
    by (simp add: wf_session_def)
  have some: "wf_session (s\<lparr>active_set := active_set s - X,
      active_order := filter (\<lambda>k. k \<notin> X \<and> k \<in> active_set s \<and> k \<notin> X) (active_order s),
      state_version := v\<rparr>)" for X v
    using wf_session_filter [OF assms, where X = X and v = v] unload_rest [OF assms, of X] by simp
  show ?thesis
    using assms
    by (auto simp: toolUnload_def Let_def split: option.splits sum.splits prod.splits
        dest!: activeHandlesLocked_shrinks [OF _ none, where A = "active_set s"]
          activeHandlesLocked_shrinks [OF _ some, where A = "active_set s"])
qed

lemma resolve_handles_Inr:
  "resolve_handles ops c hs = Inr ks \<Longrightarrow> map Some ks = map (\<lambda>h. co_resolve_handle ops h c) hs"
  by (induction hs arbitrary: ks) (auto split: option.splits if_splits)

lemma resolve_handles_set:
  "resolve_handles ops c hs = Inr ks \<Longrightarrow> k \<in> set ks \<longleftrightarrow> (\<exists>h \<in> set hs. co_resolve_handle ops h c = Some k)"
proof -
  assume "resolve_handles ops c hs = Inr ks"
  then have "set (map Some ks) = set (map (\<lambda>h. co_resolve_handle ops h c) hs)"
    using resolve_handles_Inr by metis
  moreover have "k \<in> set ks \<longleftrightarrow> Some k \<in> set (map Some ks)" by auto
  moreover have "Some k \<in> set (map (\<lambda>h. co_resolve_handle ops h c) hs)
      \<longleftrightarrow> (\<exists>h \<in> set hs. co_resolve_handle ops h c = Some k)" by force
  ultimately show ?thesis by metis
qed

end
