(* ===== verification/Session_Theorems.thy ===== *)
theory Session_Theorems
  imports Session_Correct
begin

text \<open>
  The catalog model fulfils the contract of the sessions, and the properties of sessions and
  tools that rest on it.
\<close>

section \<open>The catalog fulfils the contract\<close>

text \<open>What loading a body keeps of an entry.\<close>

definition entry_kept :: "entry \<Rightarrow> entry \<Rightarrow> bool" where
  "entry_kept e e' \<longleftrightarrow> same_view e e' \<and> idx_insert (e_idx e') = idx_insert (e_idx e)
     \<and> (body_loaded e \<longrightarrow> body_loaded e' \<and> idx_skill_body (e_idx e') = idx_skill_body (e_idx e))"

definition catalog_kept :: "catalog \<Rightarrow> catalog \<Rightarrow> bool" where
  "catalog_kept c c' \<longleftrightarrow> handle_index c' = handle_index c
     \<and> (\<forall>k. rel_option entry_kept (map_of (by_key c) k) (map_of (by_key c') k))"

lemma entry_kept_refl [simp]: "entry_kept e e"
  by (simp add: entry_kept_def same_view_def)

lemma entry_kept_trans: "entry_kept a b \<Longrightarrow> entry_kept b c \<Longrightarrow> entry_kept a c"
  by (auto simp: entry_kept_def same_view_def)

lemma rel_option_entry_kept_refl [simp]: "rel_option entry_kept x x"
  by (cases x) simp_all

lemma catalog_kept_refl [simp]: "catalog_kept c c"
  by (simp add: catalog_kept_def)

lemma catalog_kept_trans: "catalog_kept a b \<Longrightarrow> catalog_kept b c \<Longrightarrow> catalog_kept a c"
  unfolding catalog_kept_def
  by (metis (no_types, lifting) entry_kept_trans option.rel_cases option.rel_sel)

lemma catalog_kept_update:
  "map_of (by_key c) k = Some e \<Longrightarrow> entry_kept e e' \<Longrightarrow>
     catalog_kept c (c\<lparr>by_key := AList.update k e' (by_key c), next_chan := n, closed_chans := x\<rparr>)"
  by (simp add: catalog_kept_def)

lemma ensure_enter_kept: "catalog_kept c (snd (ensure_enter key c))"
proof (cases "\<exists>ch k. fst (ensure_enter key c) = EnterLoad ch k")
  case True
  then obtain e where "map_of (by_key c) key = Some e"
    "snd (ensure_enter key c) = c\<lparr>by_key := AList.update key (e\<lparr>body_wait := Some (next_chan c)\<rparr>) (by_key c),
       next_chan := Suc (next_chan c), closed_chans := closed_chans c\<rparr>"
    by (auto simp: ensure_enter_def Let_def split: option.splits if_splits)
  then show ?thesis
    using catalog_kept_update [where c = c and k = key and e = e
        and e' = "e\<lparr>body_wait := Some (next_chan c)\<rparr>" and n = "Suc (next_chan c)" and x = "closed_chans c"]
    by (simp add: entry_kept_def same_view_def)
next
  case False
  then have "snd (ensure_enter key c) = c"
    by (auto simp: ensure_enter_def Let_def split: option.splits)
  then show ?thesis by simp
qed

lemma finish_entry_kept: "\<not> body_loaded e \<Longrightarrow> entry_kept e (finish_entry r e)"
  using finish_entry_view [of e r] by (auto simp: entry_kept_def finish_entry_def split: sum.splits)

lemma finishBodyLoad_kept:
  assumes "wf_catalog hx c"
  shows "catalog_kept c (finishBodyLoad key ch r c)"
proof (cases "\<exists>e. map_of (by_key c) key = Some e \<and> body_wait e = Some ch")
  case True
  then obtain e where e: "map_of (by_key c) key = Some e" "body_wait e = Some ch" by blast
  have "\<not> body_loaded e" using wf_catalogD(3) [OF assms e(1)] e(2) by (auto simp: wf_entry_def)
  from catalog_kept_update [OF e(1) finish_entry_kept [OF this, of r],
      where n = "next_chan c" and x = "insert ch (closed_chans c)"]
  show ?thesis using e by (simp add: finishBodyLoad_def)
next
  case False
  then have "finishBodyLoad key ch r c = c" by (auto simp: finishBodyLoad_def split: option.splits)
  then show ?thesis by simp
qed

lemma ensure_loop_kept:
  "wf_catalog hx c \<Longrightarrow> catalog_kept c (snd (ensure_loop n res ctx key c))"
proof (induction n arbitrary: c)
  case (Suc n)
  obtain r c1 where e: "ensure_enter key c = (r, c1)" by fastforce
  have c1: "wf_catalog hx c1" "catalog_kept c c1"
    using wf_ensure_enter [OF Suc.prems, of key] ensure_enter_kept [of c key] e by simp_all
  have fin: "catalog_kept c (finishBodyLoad key ch x c1)" for ch x
    using catalog_kept_trans [OF c1(2) finishBodyLoad_kept [OF c1(1)]] .
  have rec: "catalog_kept c (snd (ensure_loop n res ctx key c1))"
    using catalog_kept_trans [OF c1(2) Suc.IH [OF c1(1)]] .
  show ?case
    using e c1(2) fin rec by (cases r) (auto simp: Let_def split: option.splits)
qed simp

lemma EnsureBody_kept: "wf_catalog hx c \<Longrightarrow> catalog_kept c (snd (EnsureBody res ctx key c))"
  using ensure_loop_kept
  by (auto simp: EnsureBody_def simp del: ensure_loop.simps split: option.splits)

text \<open>The body the catalog holds for a key.\<close>

definition body_of :: "catalog \<Rightarrow> provider_skill_key \<Rightarrow> string option" where
  "body_of c k =
     (case map_of (by_key c) k of
        None \<Rightarrow> None
      | Some e \<Rightarrow> if body_loaded e then Some (idx_skill_body (e_idx e)) else None)"

lemma body_of_kept: "catalog_kept c c' \<Longrightarrow> body_of c k = Some b \<Longrightarrow> body_of c' k = Some b"
proof -
  assume k: "catalog_kept c c'" and b: "body_of c k = Some b"
  from b obtain e where e: "map_of (by_key c) k = Some e" "body_loaded e" "idx_skill_body (e_idx e) = b"
    by (auto simp: body_of_def split: option.splits if_splits)
  from k have "rel_option entry_kept (map_of (by_key c) k) (map_of (by_key c') k)"
    by (simp add: catalog_kept_def)
  with e show ?thesis
    by (cases "map_of (by_key c') k") (auto simp: body_of_def entry_kept_def)
qed

lemma ensure_enter_load:
  "fst (ensure_enter key c) = EnterLoad ch k \<Longrightarrow>
     \<exists>e. map_of (by_key (snd (ensure_enter key c))) key = Some e \<and> body_wait e = Some ch"
  by (auto simp: ensure_enter_def Let_def split: option.splits if_splits)

lemma ensure_loop_body:
  "wf_catalog hx c \<Longrightarrow> fst (ensure_loop n res ctx key c) = Inr b \<Longrightarrow>
     body_of (snd (ensure_loop n res ctx key c)) key = Some b"
proof (induction n arbitrary: c)
  case (Suc n)
  obtain r c1 where e: "ensure_enter key c = (r, c1)" by fastforce
  have c1: "wf_catalog hx c1" using wf_ensure_enter [OF Suc.prems(1), of key] e by simp
  have ctx: "ctx = None" using Suc.prems(2) by (cases ctx) auto
  show ?case
  proof (cases r)
    case (EnterReturn x)
    with e Suc.prems(2) ctx have "x = Inr b" by simp
    with e EnterReturn have "body_of c1 key = Some b"
      by (auto simp: ensure_enter_def body_of_def Let_def split: option.splits if_splits)
    with e EnterReturn ctx show ?thesis by simp
  next
    case (EnterWait ch)
    with e Suc.prems(2) ctx Suc.IH [OF c1] show ?thesis by (auto split: if_splits)
  next
    case (EnterLoad ch k)
    from ensure_enter_load [of key c ch k] e EnterLoad obtain x
      where x: "map_of (by_key c1) key = Some x" "body_wait x = Some ch" by auto
    from e EnterLoad ctx Suc.prems(2) have l: "load_body res None k = Inr b" by (simp add: Let_def)
    with e EnterLoad ctx x show ?thesis
      by (simp add: Let_def finishBodyLoad_def body_of_def finish_entry_def del: map_of_eq_Some_iff)
  qed
qed simp

lemma EnsureBody_body:
  "wf_catalog hx c \<Longrightarrow> fst (EnsureBody res ctx key c) = Inr b \<Longrightarrow>
     body_of (snd (EnsureBody res ctx key c)) key = Some b"
  using ensure_loop_body
  by (auto simp: EnsureBody_def simp del: ensure_loop.simps split: option.splits)

lemma kept_lookups:
  assumes "catalog_kept c c'"
  shows "HandleForKey k c' = HandleForKey k c"
    and "map_option idx_insert (GetIndex k c') = map_option idx_insert (GetIndex k c)"
proof -
  from assms have "rel_option entry_kept (map_of (by_key c) k) (map_of (by_key c') k)"
    by (simp add: catalog_kept_def)
  then show "HandleForKey k c' = HandleForKey k c"
    and "map_option idx_insert (GetIndex k c') = map_option idx_insert (GetIndex k c)"
    by (cases "map_of (by_key c) k"; cases "map_of (by_key c') k";
        simp add: HandleForKey_def GetIndex_def entry_kept_def same_view_def)+
qed

lemma rebuild_index_in:
  "rebuild_index m h = Some k \<Longrightarrow> \<exists>k' e. (k', e) \<in> set m \<and> idx_key (e_idx e) = k"
  unfolding rebuild_index_map_of by (drule map_of_SomeD) force

lemma ResolveHandle_known:
  assumes "wf_catalog hx c" "ResolveHandle h c = Some k"
  shows "GetIndex k c \<noteq> None"
proof -
  from assms have "rebuild_index (by_key c) (normHandle h) = Some k"
    using wf_catalogD(9) [OF assms(1)] by (simp add: ResolveHandle_def)
  then obtain k' e where e: "(k', e) \<in> set (by_key c)" "idx_key (e_idx e) = k"
    using rebuild_index_in by blast
  then have "map_of (by_key c) k' = Some e" using wf_catalogD(1) [OF assms(1)] by simp
  with wf_catalogD(3) [OF assms(1) this] e(2) show ?thesis
    by (auto simp: GetIndex_def wf_entry_def)
qed

interpretation cat: session_catalog "catalog_interface res" "wf_catalog hx" body_of for res hx
proof unfold_locales
  fix c k k' h ctx b
  assume wf: "wf_catalog hx c"
  note kept = EnsureBody_kept [OF wf, of res ctx k]
  show "co_handle_for_key (catalog_interface res) k c = None
      \<longleftrightarrow> co_get_index (catalog_interface res) k c = None"
    by (simp add: catalog_interface_def HandleForKey_def GetIndex_def)
  show "co_resolve_handle (catalog_interface res) h c = Some k \<Longrightarrow>
      co_get_index (catalog_interface res) k c \<noteq> None"
    using ResolveHandle_known [OF wf] by (simp add: catalog_interface_def)
  show "wf_catalog hx (snd (co_ensure_body (catalog_interface res) ctx k c))"
    using wf_EnsureBody [OF wf] by (simp add: catalog_interface_def)
  show "map_option idx_insert (co_get_index (catalog_interface res) k'
        (snd (co_ensure_body (catalog_interface res) ctx k c)))
      = map_option idx_insert (co_get_index (catalog_interface res) k' c)"
    using kept_lookups(2) [OF kept] by (simp add: catalog_interface_def)
  show "co_handle_for_key (catalog_interface res) k' (snd (co_ensure_body (catalog_interface res) ctx k c))
      = co_handle_for_key (catalog_interface res) k' c"
    using kept_lookups(1) [OF kept] by (simp add: catalog_interface_def)
  show "fst (co_ensure_body (catalog_interface res) ctx k c) = Inr b \<Longrightarrow>
      body_of (snd (co_ensure_body (catalog_interface res) ctx k c)) k = Some b"
    using EnsureBody_body [OF wf] by (simp add: catalog_interface_def)
  show "body_of c k' = Some b \<Longrightarrow>
      body_of (snd (co_ensure_body (catalog_interface res) ctx k c)) k' = Some b"
    using body_of_kept [OF kept] by (simp add: catalog_interface_def)
qed

section \<open>Activation\<close>

text \<open>An interfering call that activates another skill during the first round.\<close>

definition demo_a :: provider_skill_key where "demo_a = demo_key ''a'' ''x'' ''/s''"
definition demo_b :: provider_skill_key where "demo_b = demo_key ''b'' ''x'' ''/s''"





text \<open>
  C19. A call of \<open>ActivateKeys\<close> that runs alone either fails and leaves the session as it was,
  or makes the requested list the active one: every requested key is a known instructions
  skill, every active skill is known and has its body loaded in the catalog, and the handles
  returned are those of the active list in its order.
\<close>

theorem ActivateKeys_alone:
  assumes "wf_catalog hx c"
  shows "case ActivateKeys (catalog_interface res) alone ctx keys mode s c of
     (Inl e, s', c') \<Rightarrow> s' = s \<and> wf_catalog hx c'
   | (Inr hs, s', c') \<Rightarrow> wf_catalog hx c'
       \<and> s' = s\<lparr>active_order := next_order (load_mode mode) (dedup keys) s,
              active_set := set (next_order (load_mode mode) (dedup keys) s),
              state_version := state_version s + 1\<rparr>
       \<and> map Some hs = map (\<lambda>k. HandleForKey k c) (active_order s')
       \<and> (\<forall>k \<in> set (active_order s'). body_of c' k \<noteq> None)
       \<and> (\<forall>k \<in> set keys. \<exists>idx. GetIndex k c' = Some idx \<and> idx_insert idx = SkillInsertInstructions)"
proof -
  obtain r s' c' where call: "ActivateKeys (catalog_interface res) alone ctx keys mode s c = (r, s', c')"
    by (metis prod.collapse)
  have inv: "wf_catalog hx c'"
    using cat.activate_inv [OF assms, of res ctx keys mode s] call by simp
  show ?thesis
  proof (cases r)
    case (Inl e)
    with call ActivateKeys_Inl [of "catalog_interface res" ctx keys mode s c e s' c'] inv
    show ?thesis by simp
  next
    case (Inr hs)
    note a = cat.activate_alone [OF assms call [unfolded Inr]]
    have known: "HandleForKey k c \<noteq> None" if "k \<in> set (active_order s')" for k
    proof -
      have "GetIndex k c' \<noteq> None" using a that by (simp add: catalog_interface_def)
      then have "HandleForKey k c' \<noteq> None" by (auto simp: GetIndex_def HandleForKey_def)
      moreover have "HandleForKey k c' = HandleForKey k c"
        using cat.activate_handles [OF assms, of res k ctx keys mode s] call
        by (simp add: catalog_interface_def)
      ultimately show ?thesis by simp
    qed
    have ins: "\<exists>idx. GetIndex k c' = Some idx \<and> idx_insert idx = SkillInsertInstructions"
      if "k \<in> set keys" for k
    proof -
      from a that obtain idx where idx: "GetIndex k c' = Some idx"
        "fst (NormalizeSkillInsert (idx_insert idx)) = SkillInsertInstructions"
        by (auto simp: catalog_interface_def)
      then obtain e where "map_of (by_key c') k = Some e" "idx = e_idx e" by (auto simp: GetIndex_def)
      with wf_catalogD(3) [OF inv this(1)] idx show ?thesis by (auto simp: wf_entry_def)
    qed
    show ?thesis
      using a call Inr inv known ins by (simp add: catalog_interface_def)
  qed
qed

theorem ActivateKeys_alone_witness:
  "\<exists>s' c'. ActivateKeys (catalog_interface demo_resolver) alone None [demo_b, demo_a, demo_b] []
       (newSession ''s'' 2) twins
     = (Inr [\<lparr>handle_name = ''x#bbbbbbbb'', handle_location = ''/s''\<rparr>,
          \<lparr>handle_name = ''x#aaaaaaaa'', handle_location = ''/s''\<rparr>], s', c')
     \<and> wf_catalog demo_digest c' \<and> body_of c' demo_a \<noteq> None"
proof -
  define call where "call = ActivateKeys (catalog_interface demo_resolver) alone None
    [demo_b, demo_a, demo_b] [] (newSession ''s'' 2) twins"
  have r: "fst call = Inr [\<lparr>handle_name = ''x#bbbbbbbb'', handle_location = ''/s''\<rparr>,
          \<lparr>handle_name = ''x#aaaaaaaa'', handle_location = ''/s''\<rparr>]"
    unfolding call_def by code_simp
  have o: "active_order (fst (snd call)) = [demo_b, demo_a]" unfolding call_def by code_simp
  have "wf_catalog demo_digest twins" unfolding twins_def by (rule wf_demo_catalog)
  from ActivateKeys_alone [OF this, where res = demo_resolver and ctx = None and mode = "[]"
      and keys = "[demo_b, demo_a, demo_b]" and s = "newSession ''s'' 2"]
  have "wf_catalog demo_digest (snd (snd call)) \<and> body_of (snd (snd call)) demo_a \<noteq> None"
    using r o unfolding call_def [symmetric] by (auto split: prod.splits sum.splits)
  with r show ?thesis unfolding call_def by (metis prod.collapse)
qed

section \<open>The tools\<close>

text \<open>
  C27. \<open>toolUnload\<close> either fails and changes nothing, or leaves exactly the active skills that
  are not named by one of the handles (none for \<open>all\<close>) and are still known, in their order, and
  returns their handles.
\<close>

theorem toolUnload_effect:
  assumes "wf_session s"
  shows "case toolUnload (catalog_interface res) ctx args c s of
     (Inl e, s') \<Rightarrow> s' = s
   | (Inr hs, s') \<Rightarrow>
       active_order s' = (if ua_all args then []
         else filter (\<lambda>k. HandleForKey k c \<noteq> None \<and> (\<forall>h \<in> set (ua_skills args). ResolveHandle h c \<noteq> Some k))
                (active_order s))
       \<and> map Some hs = map (\<lambda>k. HandleForKey k c) (active_order s') \<and> wf_session s'"
proof -
  let ?ops = "catalog_interface res"
  obtain r s' where call: "toolUnload ?ops ctx args c s = (r, s')" by fastforce
  show ?thesis
  proof (cases r)
    case (Inl e)
    with call show ?thesis
      by (auto simp: toolUnload_def Let_def split: option.splits sum.splits prod.splits if_splits)
  next
    case (Inr hs)
    have all: "wf_session (s\<lparr>active_set := {}, active_order := [], state_version := state_version s + 1\<rparr>)"
      by (simp add: wf_session_def)
    show ?thesis
    proof (cases "ua_all args")
      case True
      with call Inr have "activeHandlesLocked ?ops c
          (s\<lparr>active_set := {}, active_order := [], state_version := state_version s + 1\<rparr>) = (hs, s')"
        by (auto simp: toolUnload_def split: option.splits prod.splits if_splits)
      with activeHandlesLocked_effect [OF this] wf_activeHandlesLocked [OF all, of ?ops c] True Inr call
      show ?thesis by (simp add: catalog_interface_def)
    next
      case False
      with call Inr obtain rm where rm: "resolve_handles ?ops c (ua_skills args) = Inr rm"
        and h: "activeHandlesLocked ?ops c (s\<lparr>active_set := active_set s - set rm,
          active_order := filter (\<lambda>k. k \<notin> set rm \<and> k \<in> active_set s - set rm) (active_order s),
          state_version := state_version s + 1\<rparr>) = (hs, s')"
        by (auto simp: toolUnload_def Let_def split: option.splits sum.splits prod.splits if_splits)
      have keep: "filter (\<lambda>k. k \<notin> set rm \<and> k \<in> active_set s - set rm) (active_order s)
          = filter (\<lambda>k. k \<notin> set rm) (active_order s)"
        by (rule filter_cong) (use assms in \<open>auto simp: wf_session_def\<close>)
      have mid: "wf_session (s\<lparr>active_set := active_set s - set rm,
          active_order := filter (\<lambda>k. k \<notin> set rm) (active_order s), state_version := state_version s + 1\<rparr>)"
        by (rule wf_session_filter [OF assms])
      note out = activeHandlesLocked_effect [OF h [unfolded keep]]
      have "k \<in> set rm \<longleftrightarrow> (\<exists>h \<in> set (ua_skills args). ResolveHandle h c = Some k)" for k
        using resolve_handles_set [OF rm] by (simp add: catalog_interface_def)
      with out mid wf_activeHandlesLocked [OF mid, of ?ops c] h [unfolded keep] False Inr call
      show ?thesis
        by (auto simp: catalog_interface_def wf_session_def conj_commute intro!: filter_cong)
    qed
  qed
qed

definition demo_session :: session where
  "demo_session = (newSession ''s'' 0)\<lparr>active_order := [demo_b, demo_a], active_set := {demo_a, demo_b}\<rparr>"

lemma wf_demo_session: "wf_session demo_session"
  by (simp add: demo_session_def wf_session_def newSession_def demo_a_def demo_b_def demo_key_def
      insert_commute)

theorem toolUnload_effect_witness:
  "active_order (snd (toolUnload (catalog_interface demo_resolver) None
     \<lparr>ua_skills = [\<lparr>handle_name = ''x#bbbbbbbb'', handle_location = ''/s''\<rparr>], ua_all = False\<rparr>
     twins demo_session)) = [demo_a]
   \<and> wf_session (snd (toolUnload (catalog_interface demo_resolver) None
     \<lparr>ua_skills = [\<lparr>handle_name = ''x#bbbbbbbb'', handle_location = ''/s''\<rparr>], ua_all = False\<rparr>
     twins demo_session))"
proof -
  define call where "call = toolUnload (catalog_interface demo_resolver) None
     \<lparr>ua_skills = [\<lparr>handle_name = ''x#bbbbbbbb'', handle_location = ''/s''\<rparr>], ua_all = False\<rparr>
     twins demo_session"
  have "fst call = Inr [\<lparr>handle_name = ''x#aaaaaaaa'', handle_location = ''/s''\<rparr>]"
    unfolding call_def by code_simp
  moreover have "active_order (snd call) = [demo_a]" unfolding call_def by code_simp
  ultimately show ?thesis
    using toolUnload_effect [OF wf_demo_session, where res = demo_resolver and ctx = None and c = twins
        and args = "\<lparr>ua_skills = [\<lparr>handle_name = ''x#bbbbbbbb'', handle_location = ''/s''\<rparr>], ua_all = False\<rparr>"]
    unfolding call_def [symmetric] by (auto split: prod.splits sum.splits)
qed

lemma active_target_inactive:
  "(\<exists>k \<in> active_set s. co_resolve_handle ops \<lparr>handle_name = n, handle_location = l\<rparr> c = Some k)
   \<or> (\<exists>e. \<forall>res. active_target ops res ctx n l t c s = Inl e)"
  by (cases ctx; cases "co_resolve_handle ops \<lparr>handle_name = n, handle_location = l\<rparr> c";
      simp add: active_target_def isActiveLocked_def guard_err_def)

text \<open>
  C29. A tool reaches a provider only through an active skill: unless the handle of the call
  resolves to a key in the active set, reading a resource and running a script fail with one
  and the same error whatever the providers would do.
\<close>

theorem tools_need_active_skill:
  "((\<exists>k \<in> active_set s. co_resolve_handle ops
        \<lparr>handle_name = ra_skill_name args, handle_location = ra_skill_location args\<rparr> c = Some k)
      \<or> (\<exists>e. \<forall>res. toolRead ops res ctx args c s = Inl e))
   \<and> ((\<exists>k \<in> active_set s. co_resolve_handle ops
        \<lparr>handle_name = sa_skill_name sargs, handle_location = sa_skill_location sargs\<rparr> c = Some k)
      \<or> (\<exists>e. \<forall>res. toolRunScript ops res ctx sargs c s = Inl e))"
  using active_target_inactive [of s ops "ra_skill_name args" "ra_skill_location args" c ctx
      "ra_resource_location args"]
    active_target_inactive [of s ops "sa_skill_name sargs" "sa_skill_location sargs" c ctx
      "sa_script_location sargs"]
  by (fastforce simp: toolRead_def toolRunScript_def)

end
