(* ===== verification/Store.thy ===== *)
theory Store
  imports Session_Theorems
begin

text \<open>
  \<open>internal/session/store.go\<close>: the sessions of a runtime, bounded in number and in idle time.
  A session is an object of its own (a pointer into \<open>sessions\<close>), because callers keep it after
  the store dropped it; \<open>lru\<close> is the list of pointers with their last use, front = most recent;
  \<open>ids\<close> is the Go map from identifiers. Every element of the list holds a session, so the nil
  checks of the source have no case here. Times are nanoseconds; an operation reads the clock
  once.
\<close>

section \<open>State\<close>

record store =
  ttl :: int
  max_sessions :: int
  cfg_max_active :: int
  lru :: "(nat \<times> int) list"
  ids :: "string \<rightharpoonup> nat"
  sessions :: "nat \<rightharpoonup> session"
  next_ptr :: nat

definition NewStore :: "int \<Rightarrow> int \<Rightarrow> int \<Rightarrow> store" where
  "NewStore cfg_ttl cfg_max cfg_active =
     \<lparr>ttl = (if cfg_ttl \<le> 0 then 24 * 60 * 60 * 1000000000 else cfg_ttl),
      max_sessions = (if cfg_max \<le> 0 then 4096 else cfg_max),
      cfg_max_active = cfg_active, lru = [], ids = Map.empty, sessions = Map.empty, next_ptr = 0\<rparr>"

text \<open>\<open>now.Sub(t)\<close>: a 64-bit duration that saturates.\<close>

definition time_sub :: "int \<Rightarrow> int \<Rightarrow> int" where
  "time_sub now t = max (- (2 ^ 63)) (min (2 ^ 63 - 1) (now - t))"

section \<open>Eviction\<close>

definition deleteElemLocked :: "nat \<Rightarrow> store \<Rightarrow> store" where
  "deleteElemLocked p st =
     (case sessions st p of
        None \<Rightarrow> st\<lparr>lru := filter (\<lambda>(q, t). q \<noteq> p) (lru st)\<rparr>
      | Some s \<Rightarrow> st\<lparr>ids := (ids st)(s_id s := None),
                     sessions := (sessions st)(p \<mapsto> s\<lparr>closed := True\<rparr>),
                     lru := filter (\<lambda>(q, t). q \<noteq> p) (lru st)\<rparr>)"

lemma lru_deleteElem [simp]:
  "lru (deleteElemLocked p st) = filter (\<lambda>(q, t). q \<noteq> p) (lru st)"
  "ttl (deleteElemLocked p st) = ttl st" "max_sessions (deleteElemLocked p st) = max_sessions st"
  "next_ptr (deleteElemLocked p st) = next_ptr st"
  "cfg_max_active (deleteElemLocked p st) = cfg_max_active st"
  by (simp_all add: deleteElemLocked_def split: option.splits)

function evictOverLimitLocked :: "store \<Rightarrow> store" where
  "evictOverLimitLocked st =
     (if max_sessions st \<le> 0 then st
      else if int (length (lru st)) \<le> max_sessions st then st
      else evictOverLimitLocked (deleteElemLocked (fst (last (lru st))) st))"
  by pat_completeness auto
termination
proof (relation "measure (\<lambda>st. length (lru st))")
  fix st :: store
  assume "\<not> max_sessions st \<le> 0" "\<not> int (length (lru st)) \<le> max_sessions st"
  then have "lru st \<noteq> []" by auto
  then have "last (lru st) \<in> set (lru st)" by simp
  then show "(deleteElemLocked (fst (last (lru st))) st, st) \<in> measure (\<lambda>st. length (lru st))"
    by (auto simp: split_beta intro!: length_filter_less)
qed simp

declare evictOverLimitLocked.simps [simp del]

text \<open>The walk from the back of the list: it stops at the first session that is not expired.\<close>

fun expire_from_back :: "int \<Rightarrow> (nat \<times> int) list \<Rightarrow> store \<Rightarrow> store" where
  "expire_from_back now [] st = st"
| "expire_from_back now ((p, lastUsed) # rest) st =
     (if time_sub now lastUsed \<le> ttl st then st
      else expire_from_back now rest (deleteElemLocked p st))"

definition evictExpiredLocked :: "int \<Rightarrow> store \<Rightarrow> store" where
  "evictExpiredLocked now st =
     (if ttl st \<le> 0 then st else expire_from_back now (rev (lru st)) st)"

section \<open>Lookup and touch\<close>

definition move_to_front :: "int \<Rightarrow> nat \<Rightarrow> store \<Rightarrow> store" where
  "move_to_front now p st = st\<lparr>lru := (p, now) # filter (\<lambda>(q, t). q \<noteq> p) (lru st)\<rparr>"

definition session_closed :: "nat \<Rightarrow> store \<Rightarrow> bool" where
  "session_closed p st = (case sessions st p of None \<Rightarrow> True | Some s \<Rightarrow> closed s)"

definition Get :: "int \<Rightarrow> string \<Rightarrow> store \<Rightarrow> nat option \<times> store" where
  "Get now sid st0 =
     (let st = evictExpiredLocked now st0 in
      case ids st sid of
        None \<Rightarrow> (None, st)
      | Some p \<Rightarrow>
          if session_closed p st then (None, deleteElemLocked p st)
          else (Some p, move_to_front now p st))"

definition touch :: "int \<Rightarrow> string \<Rightarrow> store \<Rightarrow> store" where
  "touch now sid st0 =
     (let st = evictExpiredLocked now st0 in
      case ids st sid of
        None \<Rightarrow> st
      | Some p \<Rightarrow>
          if session_closed p st then deleteElemLocked p st
          else move_to_front now p st)"

definition Delete :: "string \<Rightarrow> store \<Rightarrow> store" where
  "Delete sid st = (case ids st sid of None \<Rightarrow> st | Some p \<Rightarrow> deleteElemLocked p st)"

definition prune_session :: "provider_skill_key \<Rightarrow> nat \<Rightarrow> store \<Rightarrow> store" where
  "prune_session key p st =
     (case sessions st p of
        None \<Rightarrow> st
      | Some s \<Rightarrow> if closed s then st
                   else st\<lparr>sessions := (sessions st)(p \<mapsto> pruneKey key s)\<rparr>)"

definition PruneSkill :: "provider_skill_key \<Rightarrow> store \<Rightarrow> store" where
  "PruneSkill key st =
     fold (prune_session key) (filter (\<lambda>p. \<not> session_closed p st) (map fst (lru st))) st"

section \<open>Calls on a session\<close>

text \<open>
  A method of a session that passed its context check touches the store before it goes on; the
  rest of the method runs on the session as the touch left it.
\<close>

definition call_session ::
  "int \<Rightarrow> ctx \<Rightarrow> nat \<Rightarrow> (session \<Rightarrow> 'c \<Rightarrow> 'r \<times> session \<times> 'c) \<Rightarrow> store \<Rightarrow> 'c
   \<Rightarrow> 'r \<times> store \<times> 'c" where
  "call_session now ctx p f st c =
     (let st1 = (case ctx of
                   Some e \<Rightarrow> st
                 | None \<Rightarrow> touch now (s_id (the (sessions st p))) st)
      in (case f (the (sessions st1 p)) c of
            (r, s, c1) \<Rightarrow> (r, st1\<lparr>sessions := (sessions st1)(p \<mapsto> s)\<rparr>, c1)))"

definition store_ActivateKeys ::
  "'c catalog_ops \<Rightarrow> int \<Rightarrow> ctx \<Rightarrow> nat \<Rightarrow> provider_skill_key list \<Rightarrow> string \<Rightarrow> store \<Rightarrow> 'c
   \<Rightarrow> (go_error + skill_handle list) \<times> store \<times> 'c" where
  "store_ActivateKeys ops now ctx p keys mode =
     call_session now ctx p (ActivateKeys ops alone ctx keys mode)"

definition store_toolLoad ::
  "'c catalog_ops \<Rightarrow> int \<Rightarrow> ctx \<Rightarrow> nat \<Rightarrow> load_args \<Rightarrow> store \<Rightarrow> 'c
   \<Rightarrow> (go_error + skill_handle list) \<times> store \<times> 'c" where
  "store_toolLoad ops now ctx p args = call_session now ctx p (toolLoad ops alone ctx args)"

definition store_toolUnload ::
  "'c catalog_ops \<Rightarrow> int \<Rightarrow> ctx \<Rightarrow> nat \<Rightarrow> unload_args \<Rightarrow> store \<Rightarrow> 'c
   \<Rightarrow> (go_error + skill_handle list) \<times> store \<times> 'c" where
  "store_toolUnload ops now ctx p args =
     call_session now ctx p (\<lambda>s c. case toolUnload ops ctx args c s of (r, s1) \<Rightarrow> (r, s1, c))"

definition store_ActiveKeys ::
  "'c catalog_ops \<Rightarrow> int \<Rightarrow> ctx \<Rightarrow> nat \<Rightarrow> store \<Rightarrow> 'c
   \<Rightarrow> (go_error + provider_skill_key list) \<times> store \<times> 'c" where
  "store_ActiveKeys ops now ctx p =
     call_session now ctx p (\<lambda>s c. case ActiveKeys ops ctx c s of (r, s1) \<Rightarrow> (r, s1, c))"

section \<open>New sessions\<close>

text \<open>Under the lock: make room, create the session, put it in front, make room again.\<close>

definition push_session :: "int \<Rightarrow> string \<Rightarrow> int \<Rightarrow> store \<Rightarrow> nat \<times> store" where
  "push_session now sid maxActive st =
     (let p = next_ptr st
      in (p, evictOverLimitLocked (st\<lparr>lru := (p, now) # lru st, ids := (ids st)(sid \<mapsto> p),
            sessions := (sessions st)(p \<mapsto> newSession sid maxActive), next_ptr := Suc p\<rparr>)))"

text \<open>
  \<open>NewSession\<close>; \<open>uuid\<close> is the outcome of \<open>uuid.NewV7\<close>, the outer option of the context is nil.
\<close>

definition NewSession ::
  "'c catalog_ops \<Rightarrow> int \<Rightarrow> ctx option \<Rightarrow> (go_error + string) \<Rightarrow> int \<Rightarrow> provider_skill_key list
   \<Rightarrow> store \<Rightarrow> 'c \<Rightarrow> (go_error + (string \<times> skill_handle list)) \<times> store \<times> 'c" where
  "NewSession ops now octx uuid p_max_active p_active_keys st0 c =
     (case octx of
        None \<Rightarrow> (Inl (invalid_arg ''%w: nil context''), st0, c)
      | Some (Some e) \<Rightarrow> (Inl e, st0, c)
      | Some None \<Rightarrow>
          let st = evictOverLimitLocked (evictExpiredLocked now st0) in
          (case uuid of
             Inl e \<Rightarrow> (Inl (Wrapf ''new session id: %w'' [e]), st, c)
           | Inr sid \<Rightarrow>
               let maxActive = (if 0 < p_max_active then p_max_active else cfg_max_active st) in
               (case push_session now sid maxActive st of (p, st1) \<Rightarrow>
                  if p_active_keys = [] then (Inr (sid, []), st1, c)
                  else (case store_ActivateKeys ops now None p p_active_keys LoadModeReplace st1 c of
                      (Inl e, st2, c1) \<Rightarrow> (Inl e, Delete sid st2, c1)
                    | (Inr handles, st2, c1) \<Rightarrow> (Inr (sid, handles), st2, c1)))))"

end
