(* ===== verification/Store_Correct.thy ===== *)
theory Store_Correct
  imports Store
begin

text \<open>
  Correctness of the session store: the table invariant that every operation keeps, the bound on
  the number of sessions, expiry and least-recently-used eviction under a monotone clock, and
  pruning.
\<close>

section \<open>The invariant\<close>

definition in_lru :: "store \<Rightarrow> nat \<Rightarrow> bool" where
  "in_lru st p \<longleftrightarrow> p \<in> fst ` set (lru st)"

text \<open>
  List, identifier map and session objects agree; a session is open exactly while it is in the
  list.
\<close>

definition wf_table :: "store \<Rightarrow> bool" where
  "wf_table st \<longleftrightarrow>
     0 < ttl st \<and> 0 < max_sessions st \<and> keys_distinct (lru st)
     \<and> (\<forall>p. in_lru st p \<longrightarrow> (\<exists>s. sessions st p = Some s \<and> \<not> closed s \<and> ids st (s_id s) = Some p))
     \<and> (\<forall>sid p. ids st sid = Some p \<longrightarrow> in_lru st p \<and> (\<exists>s. sessions st p = Some s \<and> s_id s = sid))
     \<and> (\<forall>p s. sessions st p = Some s \<longrightarrow>
          p < next_ptr st \<and> wf_session s \<and> (\<not> in_lru st p \<longrightarrow> closed s))"

definition wf_store :: "store \<Rightarrow> bool" where
  "wf_store st \<longleftrightarrow> wf_table st \<and> int (length (lru st)) \<le> max_sessions st"

lemma wf_tableD:
  assumes "wf_table st"
  shows "0 < ttl st" "0 < max_sessions st" "keys_distinct (lru st)"
    "in_lru st p \<Longrightarrow> \<exists>s. sessions st p = Some s \<and> \<not> closed s \<and> ids st (s_id s) = Some p"
    "ids st sid = Some p \<Longrightarrow> in_lru st p \<and> (\<exists>s. sessions st p = Some s \<and> s_id s = sid)"
    "sessions st p = Some s \<Longrightarrow> p < next_ptr st \<and> wf_session s \<and> (\<not> in_lru st p \<longrightarrow> closed s)"
  using assms unfolding wf_table_def by blast+

lemma wf_NewStore [simp]: "wf_store (NewStore t m a)"
  by (auto simp: wf_store_def wf_table_def NewStore_def in_lru_def)

lemma keys_distinct_filter: "keys_distinct m \<Longrightarrow> keys_distinct (filter P m)"
  by (induction m) auto

lemma in_lru_delete [simp]: "in_lru (deleteElemLocked p st) q \<longleftrightarrow> q \<noteq> p \<and> in_lru st q"
  by (force simp: in_lru_def)

lemma wf_table_delete:
  assumes "wf_table st" and "in_lru st p"
  shows "wf_table (deleteElemLocked p st)"
proof -
  note w = wf_tableD [OF assms(1)]
  obtain s where s: "sessions st p = Some s" "\<not> closed s" "ids st (s_id s) = Some p"
    using w(4) [OF assms(2)] by blast
  let ?st = "deleteElemLocked p st"
  have d: "ids ?st = (ids st)(s_id s := None)" "sessions ?st = (sessions st)(p \<mapsto> s\<lparr>closed := True\<rparr>)"
    using s(1) by (simp_all add: deleteElemLocked_def)
  have "\<exists>x. sessions ?st q = Some x \<and> \<not> closed x \<and> ids ?st (s_id x) = Some q" if "in_lru ?st q" for q
  proof -
    from that have q: "q \<noteq> p" "in_lru st q" by simp_all
    from w(4) [OF q(2)] obtain x where x: "sessions st q = Some x" "\<not> closed x" "ids st (s_id x) = Some q"
      by blast
    with s(3) q(1) have "s_id x \<noteq> s_id s" by auto
    with x q(1) show ?thesis by (simp add: d)
  qed
  moreover have "in_lru ?st q \<and> (\<exists>x. sessions ?st q = Some x \<and> s_id x = sid)" if "ids ?st sid = Some q" for sid q
    using that w(5) [of sid q] s(1) by (auto simp: d split: if_splits)
  moreover have "q < next_ptr ?st \<and> wf_session x \<and> (\<not> in_lru ?st q \<longrightarrow> closed x)"
    if "sessions ?st q = Some x" for q x
    using that w(6) [of p s] w(6) [of q x] s(1)
    by (auto simp: d wf_session_def split: if_splits)
  moreover have "keys_distinct (lru ?st)" using w(3) by (simp add: keys_distinct_filter)
  ultimately show ?thesis using w(1,2) unfolding wf_table_def by simp
qed

lemma wf_store_delete: "wf_store st \<Longrightarrow> in_lru st p \<Longrightarrow> wf_store (deleteElemLocked p st)"
  by (auto simp: wf_store_def wf_table_delete length_filter_int)

section \<open>Eviction over the limit\<close>

lemma filter_key_id: "p \<notin> fst ` set m \<Longrightarrow> filter (\<lambda>(q, t). q \<noteq> p) m = m"
  by (induction m) auto

lemma filter_last_key:
  assumes "keys_distinct m" and "m \<noteq> []"
  shows "filter (\<lambda>(q, t). q \<noteq> fst (last m)) m = butlast m"
proof (cases m rule: rev_cases)
  case (snoc n x)
  then have "fst x \<notin> fst ` set n" using assms(1) by auto
  then have "filter (\<lambda>(q, t). q \<noteq> fst x) n = n" by (rule filter_key_id)
  with snoc show ?thesis by (simp add: split_beta)
qed (use assms in simp)

text \<open>Eviction keeps the most recently used sessions, as many as are allowed.\<close>

lemma evictOverLimit_lru:
  "wf_table st \<Longrightarrow> lru (evictOverLimitLocked st) = take (nat (max_sessions st)) (lru st)
     \<and> wf_store (evictOverLimitLocked st)
     \<and> ttl (evictOverLimitLocked st) = ttl st \<and> max_sessions (evictOverLimitLocked st) = max_sessions st
     \<and> next_ptr (evictOverLimitLocked st) = next_ptr st
     \<and> cfg_max_active (evictOverLimitLocked st) = cfg_max_active st"
proof (induction st rule: evictOverLimitLocked.induct)
  case (1 st)
  note w = wf_tableD [OF 1(2)]
  show ?case
  proof (cases "int (length (lru st)) \<le> max_sessions st")
    case True
    with 1(2) w(2) show ?thesis
      by (simp add: evictOverLimitLocked.simps [of st] wf_store_def)
  next
    case False
    let ?p = "fst (last (lru st))" and ?st = "deleteElemLocked (fst (last (lru st))) st"
    from False w(2) have ne: "lru st \<noteq> []" by auto
    then have "in_lru st ?p" by (simp add: in_lru_def)
    with 1(2) have "wf_table ?st" by (rule wf_table_delete)
    from 1(1) [OF _ False this] w(2)
    have IH: "lru (evictOverLimitLocked ?st) = take (nat (max_sessions st)) (lru ?st)"
      "wf_store (evictOverLimitLocked ?st)" "ttl (evictOverLimitLocked ?st) = ttl st"
      "max_sessions (evictOverLimitLocked ?st) = max_sessions st"
      "next_ptr (evictOverLimitLocked ?st) = next_ptr st"
      "cfg_max_active (evictOverLimitLocked ?st) = cfg_max_active st" by simp_all
    have "lru ?st = butlast (lru st)" using filter_last_key [OF w(3) ne] by simp
    moreover have "take (nat (max_sessions st)) (butlast (lru st)) = take (nat (max_sessions st)) (lru st)"
      using False w(2) by (simp add: take_butlast)
    moreover have "evictOverLimitLocked st = evictOverLimitLocked ?st"
      using False w(2) by (subst evictOverLimitLocked.simps) simp
    ultimately show ?thesis using IH by simp
  qed
qed

lemma evictOverLimit_id: "wf_store st \<Longrightarrow> evictOverLimitLocked st = st"
  by (simp add: evictOverLimitLocked.simps [of st] wf_store_def)

section \<open>Expiry\<close>

lemma expire_from_back_wf:
  "wf_store st \<Longrightarrow> fst ` set pend \<subseteq> fst ` set (lru st) \<Longrightarrow> keys_distinct pend \<Longrightarrow>
     wf_store (expire_from_back now pend st)"
proof (induction pend arbitrary: st)
  case (Cons x pend)
  obtain p t where x: "x = (p, t)" by fastforce
  have "in_lru st p" using Cons.prems(2) x by (auto simp: in_lru_def)
  then have "wf_store (deleteElemLocked p st)" using Cons.prems(1) by (rule wf_store_delete [rotated])
  moreover have "fst ` set pend \<subseteq> fst ` set (lru (deleteElemLocked p st))"
    using Cons.prems(2,3) x by force
  ultimately show ?case using Cons x by simp
qed simp

lemma wf_evictExpired [inv_intros]: "wf_store st \<Longrightarrow> wf_store (evictExpiredLocked now st)"
proof -
  assume wf: "wf_store st"
  then have "keys_distinct (lru st)" by (simp add: wf_store_def wf_tableD)
  then have "wf_store (expire_from_back now (rev (lru st)) st)"
    by (intro expire_from_back_wf [OF wf]) (simp_all add: rev_map [symmetric])
  with wf show ?thesis by (simp add: evictExpiredLocked_def)
qed

text \<open>
  The clock: last uses are sorted, most recent first, and none is in the future.
\<close>

definition clocked :: "int \<Rightarrow> store \<Rightarrow> bool" where
  "clocked now st \<longleftrightarrow> sorted_wrt (\<lambda>a b. snd b \<le> snd a) (lru st) \<and> (\<forall>(p, t) \<in> set (lru st). t \<le> now)"

lemma time_sub_antimono: "t \<le> t' \<Longrightarrow> time_sub now t' \<le> time_sub now t"
  by (simp add: time_sub_def)

abbreviation fresh_entry :: "int \<Rightarrow> store \<Rightarrow> nat \<times> int \<Rightarrow> bool" where
  "fresh_entry now st x \<equiv> time_sub now (snd x) \<le> ttl st"

lemma expire_from_back_lru:
  "lru st = rev pend \<Longrightarrow> keys_distinct (lru st) \<Longrightarrow> sorted_wrt (\<lambda>a b. snd b \<le> snd a) (lru st) \<Longrightarrow>
     lru (expire_from_back now pend st) = filter (fresh_entry now st) (lru st)"
proof (induction pend arbitrary: st)
  case (Cons x pend)
  obtain p t where x: "x = (p, t)" by fastforce
  have lru: "lru st = rev pend @ [(p, t)]" using Cons.prems(1) x by simp
  show ?case
  proof (cases "time_sub now t \<le> ttl st")
    case True
    have "time_sub now (snd y) \<le> ttl st" if "y \<in> set (lru st)" for y
    proof -
      have "t \<le> snd y" using that Cons.prems(3) lru by (auto simp: sorted_wrt_append)
      with True time_sub_antimono [of t "snd y" now] show ?thesis by simp
    qed
    with True x show ?thesis by (simp add: filter_id_conv)
  next
    case False
    have del: "lru (deleteElemLocked p st) = rev pend"
      using Cons.prems(2) lru filter_key_id [of p "rev pend"] by simp
    have "lru (expire_from_back now pend (deleteElemLocked p st))
        = filter (fresh_entry now (deleteElemLocked p st)) (lru (deleteElemLocked p st))"
      by (rule Cons.IH) (use del Cons.prems(2,3) lru in \<open>simp_all add: sorted_wrt_append\<close>)
    with False x del lru show ?thesis by simp
  qed
qed simp

lemma evictExpired_lru:
  assumes "wf_store st" and "clocked now st"
  shows "lru (evictExpiredLocked now st) = filter (fresh_entry now st) (lru st)"
proof -
  have "0 < ttl st" "keys_distinct (lru st)" using assms(1) by (simp_all add: wf_store_def wf_tableD)
  with assms(2) show ?thesis
    using expire_from_back_lru [of st "rev (lru st)" now]
    by (simp add: evictExpiredLocked_def clocked_def)
qed

section \<open>Session objects survive\<close>

text \<open>
  Eviction only closes sessions: every object keeps its identifier and its active list.
\<close>

definition objects_kept :: "store \<Rightarrow> store \<Rightarrow> bool" where
  "objects_kept st st' \<longleftrightarrow>
     (\<forall>p s. sessions st p = Some s \<longrightarrow>
        (\<exists>b. sessions st' p = Some (s\<lparr>closed := b\<rparr>) \<and> (closed s \<longrightarrow> b)))
     \<and> (\<forall>p. sessions st p = None \<longrightarrow> sessions st' p = None)"

lemma objects_kept_refl [simp]: "objects_kept st st"
proof -
  have "s = s\<lparr>closed := closed s\<rparr>" for s :: session by simp
  then show ?thesis unfolding objects_kept_def by metis
qed

lemma objects_kept_trans:
  assumes "objects_kept a b" and "objects_kept b c"
  shows "objects_kept a c"
proof -
  have "\<exists>x. sessions c p = Some (s\<lparr>closed := x\<rparr>) \<and> (closed s \<longrightarrow> x)" if s: "sessions a p = Some s" for p s
  proof -
    from assms(1) s obtain x where x: "sessions b p = Some (s\<lparr>closed := x\<rparr>)" "closed s \<longrightarrow> x"
      unfolding objects_kept_def by blast
    from assms(2) x(1) obtain y where
      "sessions c p = Some ((s\<lparr>closed := x\<rparr>)\<lparr>closed := y\<rparr>)" "closed (s\<lparr>closed := x\<rparr>) \<longrightarrow> y"
      unfolding objects_kept_def by blast
    with x(2) show ?thesis by auto
  qed
  with assms show ?thesis unfolding objects_kept_def by blast
qed

lemma objects_kept_delete [simp]: "objects_kept st (deleteElemLocked p st)"
proof -
  have id: "s = s\<lparr>closed := closed s\<rparr>" for s :: session by simp
  show ?thesis
    unfolding objects_kept_def deleteElemLocked_def
    by (auto split: option.splits) (use id in metis)+
qed

lemma objects_kept_same: "sessions st' = sessions st \<Longrightarrow> objects_kept st st'"
  using objects_kept_refl [of st] by (simp only: objects_kept_def)

lemma objects_kept_move [simp]: "objects_kept st (move_to_front now p st)"
  by (rule objects_kept_same) (simp add: move_to_front_def)

lemma objects_kept_expire: "objects_kept st (expire_from_back now ps st)"
  by (induction now ps st rule: expire_from_back.induct)
    (auto intro: objects_kept_trans [OF objects_kept_delete])

lemma objects_kept_evictExpired [simp]: "objects_kept st (evictExpiredLocked now st)"
  by (simp add: evictExpiredLocked_def objects_kept_expire)

lemma objects_kept_touch: "objects_kept st (touch now sid st)"
  using objects_kept_trans [OF objects_kept_evictExpired objects_kept_delete]
    objects_kept_trans [OF objects_kept_evictExpired objects_kept_move]
  by (auto simp: touch_def Let_def split: option.splits)

lemma objects_kept_evictOverLimit: "objects_kept st (evictOverLimitLocked st)"
proof (induction st rule: evictOverLimitLocked.induct)
  case (1 st)
  show ?case
  proof (cases "max_sessions st \<le> 0 \<or> int (length (lru st)) \<le> max_sessions st")
    case True
    then show ?thesis by (subst evictOverLimitLocked.simps) auto
  next
    case False
    with 1 have "objects_kept (deleteElemLocked (fst (last (lru st))) st)
        (evictOverLimitLocked (deleteElemLocked (fst (last (lru st))) st))" by simp
    with False show ?thesis
      by (subst evictOverLimitLocked.simps) (auto intro: objects_kept_trans [OF objects_kept_delete])
  qed
qed

section \<open>Every operation keeps the invariant\<close>

lemma in_lru_move [simp]: "in_lru (move_to_front now p st) q \<longleftrightarrow> q = p \<or> in_lru st q"
  by (force simp: in_lru_def move_to_front_def)

lemma length_without_key:
  "keys_distinct m \<Longrightarrow> p \<in> fst ` set m \<Longrightarrow> Suc (length (filter (\<lambda>(q, t). q \<noteq> p) m)) = length m"
proof (induction m)
  case (Cons x m)
  show ?case
  proof (cases "fst x = p")
    case True
    with Cons.prems(1) filter_key_id [of p m] show ?thesis by (cases x) simp
  next
    case False
    with Cons show ?thesis by (auto simp: split_beta)
  qed
qed simp

lemma wf_move_to_front [inv_intros]:
  assumes "wf_store st" and "in_lru st p"
  shows "wf_store (move_to_front now p st)"
proof -
  let ?st = "move_to_front now p st"
  have w: "wf_table st" using assms(1) by (simp add: wf_store_def)
  have same: "sessions ?st = sessions st" "ids ?st = ids st" "next_ptr ?st = next_ptr st"
    "ttl ?st = ttl st" "max_sessions ?st = max_sessions st"
    by (simp_all add: move_to_front_def)
  have lru: "in_lru ?st q \<longleftrightarrow> in_lru st q" for q using assms(2) by auto
  have "length (lru ?st) = length (lru st)"
    using length_without_key [of "lru st" p] wf_tableD(3) [OF w] assms(2)
    by (simp add: move_to_front_def in_lru_def)
  moreover have "keys_distinct (lru ?st)"
    using keys_distinct_filter [OF wf_tableD(3) [OF w]] by (auto simp: move_to_front_def)
  ultimately show ?thesis
    using assms(1) unfolding wf_store_def wf_table_def same lru by simp
qed

lemma ids_in_lru: "wf_store st \<Longrightarrow> ids st sid = Some p \<Longrightarrow> in_lru st p"
  by (simp add: wf_store_def wf_tableD(5))

lemma not_closed_in_table:
  "wf_store st \<Longrightarrow> ids st sid = Some p \<Longrightarrow> \<not> session_closed p st"
  using wf_tableD(4,5) by (fastforce simp: session_closed_def wf_store_def)

lemma wf_touch [inv_intros]: "wf_store st \<Longrightarrow> wf_store (touch now sid st)"
  using wf_evictExpired [of st now]
  by (auto simp: touch_def Let_def not_closed_in_table ids_in_lru wf_move_to_front split: option.splits)

lemma wf_Get [inv_intros]: "wf_store st \<Longrightarrow> wf_store (snd (Get now sid st))"
  using wf_evictExpired [of st now]
  by (auto simp: Get_def Let_def not_closed_in_table ids_in_lru wf_move_to_front split: option.splits)

lemma wf_Delete [inv_intros]: "wf_store st \<Longrightarrow> wf_store (Delete sid st)"
  by (auto simp: Delete_def ids_in_lru wf_store_delete split: option.splits)

lemma wf_update_session:
  assumes "wf_store st" "sessions st p = Some s"
    and "wf_session s'" "s_id s' = s_id s" "closed s' = closed s"
  shows "wf_store (st\<lparr>sessions := (sessions st)(p \<mapsto> s')\<rparr>)"
proof -
  let ?st = "st\<lparr>sessions := (sessions st)(p \<mapsto> s')\<rparr>"
  have w: "wf_table st" using assms(1) by (simp add: wf_store_def)
  have lru: "in_lru ?st q \<longleftrightarrow> in_lru st q" for q by (simp add: in_lru_def)
  have "\<exists>x. sessions ?st q = Some x \<and> \<not> closed x \<and> ids ?st (s_id x) = Some q" if "in_lru ?st q" for q
    using wf_tableD(4) [OF w, of q] that assms(2,4,5) by (auto simp: lru)
  moreover have "in_lru ?st q \<and> (\<exists>x. sessions ?st q = Some x \<and> s_id x = sid)"
    if "ids ?st sid = Some q" for sid q
    using wf_tableD(5) [OF w, of sid q] that assms(2,4) by (auto simp: lru)
  moreover have "q < next_ptr ?st \<and> wf_session x \<and> (\<not> in_lru ?st q \<longrightarrow> closed x)"
    if "sessions ?st q = Some x" for q x
  proof (cases "q = p")
    case True
    with that have "x = s'" by simp
    with True wf_tableD(6) [OF w assms(2)] assms(3,5) show ?thesis unfolding lru by simp
  next
    case False
    with that wf_tableD(6) [OF w, of q x] show ?thesis unfolding lru by simp
  qed
  ultimately show ?thesis
    using assms(1) unfolding wf_store_def wf_table_def by simp
qed

lemma pruneKey_keeps [simp]: "s_id (pruneKey k s) = s_id s" "closed (pruneKey k s) = closed s"
  "max_active (pruneKey k s) = max_active s"
  by (simp_all add: pruneKey_def)

lemma wf_prune_session: "wf_store st \<Longrightarrow> wf_store (prune_session key p st)"
proof -
  assume wf: "wf_store st"
  show ?thesis
  proof (cases "sessions st p")
    case (Some s)
    with wf wf_tableD(6) have "wf_session s" by (auto simp: wf_store_def)
    from wf_update_session [OF wf Some wf_pruneKey [OF this, of key]] Some wf show ?thesis
      by (simp add: prune_session_def)
  qed (use wf in \<open>simp add: prune_session_def\<close>)
qed

lemma wf_PruneSkill [inv_intros]: "wf_store st \<Longrightarrow> wf_store (PruneSkill key st)"
proof -
  have "wf_store st \<Longrightarrow> wf_store (fold (prune_session key) ps st)" for ps
    by (induction ps arbitrary: st) (simp_all add: wf_prune_session)
  then show "wf_store st \<Longrightarrow> ?thesis" by (simp add: PruneSkill_def)
qed

lemma newSession_simps [simp]:
  "s_id (newSession sid n) = sid" "closed (newSession sid n) = False"
  "active_order (newSession sid n) = []" "active_set (newSession sid n) = {}"
  "max_active (newSession sid n) = n"
  by (simp_all add: newSession_def)

lemma objects_keptD:
  "objects_kept st st' \<Longrightarrow> sessions st p = Some s \<Longrightarrow> \<exists>b. sessions st' p = Some (s\<lparr>closed := b\<rparr>) \<and> (closed s \<longrightarrow> b)"
  by (simp add: objects_kept_def)

text \<open>A new session; the identifier must be new, which is what UUIDs are for.\<close>

lemma wf_push_table:
  assumes "wf_store st" and "ids st sid = None"
  shows "wf_table (st\<lparr>lru := (next_ptr st, now) # lru st, ids := (ids st)(sid \<mapsto> next_ptr st),
      sessions := (sessions st)(next_ptr st \<mapsto> newSession sid n), next_ptr := Suc (next_ptr st)\<rparr>)"
    (is "wf_table ?st")
proof -
  have w: "wf_table st" using assms(1) by (simp add: wf_store_def)
  let ?p = "next_ptr st"
  have new: "sessions st ?p = None" using wf_tableD(6) [OF w, of ?p] by (cases "sessions st ?p") auto
  then have out: "\<not> in_lru st ?p" using wf_tableD(4) [OF w, of ?p] by auto
  have lru: "in_lru ?st q \<longleftrightarrow> q = ?p \<or> in_lru st q" for q by (auto simp: in_lru_def)
  have "\<exists>x. sessions ?st q = Some x \<and> \<not> closed x \<and> ids ?st (s_id x) = Some q" if "in_lru ?st q" for q
  proof (cases "q = ?p")
    case True
    then show ?thesis by simp
  next
    case False
    with that lru wf_tableD(4) [OF w, of q] obtain x where
      "sessions st q = Some x" "\<not> closed x" "ids st (s_id x) = Some q" by auto
    with False assms(2) show ?thesis by auto
  qed
  moreover have "in_lru ?st q \<and> (\<exists>x. sessions ?st q = Some x \<and> s_id x = sid')"
    if "ids ?st sid' = Some q" for sid' q
    using that wf_tableD(5) [OF w, of sid' q] new unfolding lru by (auto split: if_splits)
  moreover have "q < next_ptr ?st \<and> wf_session x \<and> (\<not> in_lru ?st q \<longrightarrow> closed x)"
    if "sessions ?st q = Some x" for q x
    using that wf_tableD(6) [OF w, of q x] unfolding lru by (auto split: if_splits)
  moreover have "keys_distinct (lru ?st)"
    using wf_tableD(3) [OF w] out by (simp add: in_lru_def)
  ultimately show ?thesis using wf_tableD(1,2) [OF w] unfolding wf_table_def by simp
qed

lemma push_session_effect:
  assumes "wf_store st" and "ids st sid = None" and "push_session now sid n st = (p, st')"
  shows "p = next_ptr st \<and> wf_store st'
    \<and> lru st' = (p, now) # take (nat (max_sessions st) - 1) (lru st)
    \<and> sessions st' p = Some (newSession sid n)"
proof -
  let ?p = "next_ptr st"
  let ?st = "st\<lparr>lru := (?p, now) # lru st, ids := (ids st)(sid \<mapsto> ?p),
      sessions := (sessions st)(?p \<mapsto> newSession sid n), next_ptr := Suc ?p\<rparr>"
  note e = evictOverLimit_lru [OF wf_push_table [OF assms(1,2), of n now]]
  from assms(3) have p: "p = ?p" "st' = evictOverLimitLocked ?st" by (auto simp: push_session_def Let_def)
  have "0 < max_sessions st" using assms(1) by (simp add: wf_store_def wf_tableD(2))
  then have l: "lru st' = (?p, now) # take (nat (max_sessions st) - 1) (lru st)"
    using e p(2) by (simp add: take_Cons' nat_eq_iff)
  have wf: "wf_store st'" using e p(2) by simp
  have "objects_kept ?st st'" unfolding p(2) by (rule objects_kept_evictOverLimit)
  then obtain b where b: "sessions st' ?p = Some ((newSession sid n)\<lparr>closed := b\<rparr>)"
    using objects_keptD [of ?st st' ?p "newSession sid n"] by auto
  have "in_lru st' ?p" using l by (simp add: in_lru_def)
  with wf b have "\<not> b" using wf_tableD(4) [of st' ?p] by (auto simp: wf_store_def)
  with b have "sessions st' ?p = Some (newSession sid n)" by (simp add: newSession_def)
  with wf l p(1) show ?thesis by simp
qed

section \<open>Calls on sessions\<close>

text \<open>A method keeps the session well-formed, its identifier, and whether it is closed.\<close>

definition session_method :: "(session \<Rightarrow> 'c \<Rightarrow> 'r \<times> session \<times> 'c) \<Rightarrow> bool" where
  "session_method f \<longleftrightarrow> (\<forall>s c. wf_session s \<longrightarrow>
     (let s' = fst (snd (f s c)) in wf_session s' \<and> s_id s' = s_id s \<and> closed s' = closed s))"

lemma session_methodD:
  "session_method f \<Longrightarrow> wf_session s \<Longrightarrow>
     wf_session (fst (snd (f s c))) \<and> s_id (fst (snd (f s c))) = s_id s
     \<and> closed (fst (snd (f s c))) = closed s"
  by (simp add: session_method_def Let_def)

lemma wf_call_session [inv_intros]:
  assumes "wf_store st" and "sessions st p \<noteq> None" and "session_method f"
  shows "wf_store (fst (snd (call_session now ctx p f st c)))"
proof -
  define st1 where "st1 = (case ctx of Some e \<Rightarrow> st | None \<Rightarrow> touch now (s_id (the (sessions st p))) st)"
  have wf: "wf_store st1" using assms(1) by (simp add: st1_def wf_touch split: option.splits)
  have "objects_kept st st1" by (simp add: st1_def objects_kept_touch split: option.splits)
  with assms(2) obtain s where s: "sessions st1 p = Some s" by (auto dest!: objects_keptD)
  have "wf_session s" using wf s wf_tableD(6) by (auto simp: wf_store_def)
  note m = session_methodD [OF assms(3) this, of c]
  have "fst (snd (call_session now ctx p f st c))
      = st1\<lparr>sessions := (sessions st1)(p \<mapsto> fst (snd (f s c)))\<rparr>"
    by (simp add: call_session_def s flip: st1_def split: prod.splits)
  with wf_update_session [OF wf s] m show ?thesis by simp
qed

lemma activateHandles_snd:
  "activeHandlesLocked ops c s = (hs, s') \<Longrightarrow> s_id s' = s_id s \<and> closed s' = closed s"
  using activeHandlesLocked_keeps [of ops c s] by simp

lemma session_method_ActivateKeys: "session_method (ActivateKeys ops alone ctx keys mode)"
  unfolding session_method_def Let_def
proof (intro allI impI)
  fix s c assume wf: "wf_session s"
  obtain r s' c' where call: "ActivateKeys ops alone ctx keys mode s c = (r, s', c')"
    by (metis prod.collapse)
  show "wf_session (fst (snd (ActivateKeys ops alone ctx keys mode s c)))
    \<and> s_id (fst (snd (ActivateKeys ops alone ctx keys mode s c))) = s_id s
    \<and> closed (fst (snd (ActivateKeys ops alone ctx keys mode s c))) = closed s"
  proof (cases r)
    case (Inl e)
    with call ActivateKeys_Inl [of ops ctx keys mode s c e s' c'] wf show ?thesis by simp
  next
    case (Inr hs)
    from call [unfolded Inr] fair_alone wf have "wf_session s'" by (rule ActivateKeys_wf)
    moreover from call [unfolded Inr] obtain req where
      "activate_loop 5 ops alone None req (load_mode mode) s c = (Inr hs, s', c')"
      by (rule ActivateKeys_Inr)
    then have "s_id s' = s_id s \<and> closed s' = closed s"
      by (rule activate_loop_alone_Inr) (auto dest: activateHandles_snd)
    ultimately show ?thesis using call by simp
  qed
qed

lemma session_method_toolLoad: "session_method (toolLoad ops alone ctx args)"
  unfolding session_method_def Let_def
  by (intro allI impI)
    (simp add: toolLoad_def Let_def session_methodD [OF session_method_ActivateKeys]
      split: option.splits sum.splits)

lemma session_method_toolUnload:
  "session_method (\<lambda>s c. case toolUnload (catalog_interface res) ctx args c s of (r, s1) \<Rightarrow> (r, s1, c))"
  unfolding session_method_def Let_def
proof (intro allI impI)
  fix s and c :: catalog assume wf: "wf_session s"
  obtain r s' where call: "toolUnload (catalog_interface res) ctx args c s = (r, s')" by fastforce
  then have "s_id s' = s_id s \<and> closed s' = closed s"
    by (auto simp: toolUnload_def Let_def dest!: activateHandles_snd
        split: option.splits sum.splits prod.splits if_splits)
  with toolUnload_shrinks [OF wf, where ops = "catalog_interface res" and ctx = ctx and args = args and c = c] call wf
  show "wf_session (fst (snd (case toolUnload (catalog_interface res) ctx args c s of (r, s1) \<Rightarrow> (r, s1, c))))
    \<and> s_id (fst (snd (case toolUnload (catalog_interface res) ctx args c s of (r, s1) \<Rightarrow> (r, s1, c)))) = s_id s
    \<and> closed (fst (snd (case toolUnload (catalog_interface res) ctx args c s of (r, s1) \<Rightarrow> (r, s1, c)))) = closed s"
    by simp
qed

lemma session_method_ActiveKeys:
  "session_method (\<lambda>s c. case ActiveKeys ops ctx c s of (r, s1) \<Rightarrow> (r, s1, c))"
proof -
  have "s_id (snd (ActiveKeys ops ctx c s)) = s_id s \<and> closed (snd (ActiveKeys ops ctx c s)) = closed s"
    for c s
    by (simp add: ActiveKeys_def Let_def pruneKeys_def split: option.splits)
  then show ?thesis
    using wf_ActiveKeys by (fastforce simp: session_method_def Let_def split_beta)
qed

section \<open>Identifiers are only forgotten\<close>

definition ids_shrink :: "store \<Rightarrow> store \<Rightarrow> bool" where
  "ids_shrink st st' \<longleftrightarrow> (\<forall>sid. ids st sid = None \<longrightarrow> ids st' sid = None)"

lemma ids_shrink_refl [simp]: "ids_shrink st st"
  by (simp add: ids_shrink_def)

lemma ids_shrink_trans: "ids_shrink a b \<Longrightarrow> ids_shrink b c \<Longrightarrow> ids_shrink a c"
  by (simp add: ids_shrink_def)

lemma ids_shrink_delete [simp]: "ids_shrink st (deleteElemLocked p st)"
  by (simp add: ids_shrink_def deleteElemLocked_def split: option.splits)

lemma ids_shrink_expire: "ids_shrink st (expire_from_back now ps st)"
  by (induction now ps st rule: expire_from_back.induct)
    (auto intro: ids_shrink_trans [OF ids_shrink_delete])

lemma ids_shrink_evictExpired [simp]: "ids_shrink st (evictExpiredLocked now st)"
  by (simp add: evictExpiredLocked_def ids_shrink_expire)

lemma wf_NewSession [inv_intros]:
  assumes "wf_store st" and "\<And>sid. uuid = Inr sid \<Longrightarrow> ids st sid = None"
  shows "wf_store (fst (snd (NewSession ops now octx uuid n keys st c)))"
proof -
  have wf: "wf_store (evictExpiredLocked now st)" using assms(1) by (rule wf_evictExpired)
  let ?st = "evictExpiredLocked now st"
  show ?thesis
  proof (cases "\<exists>sid. octx = Some None \<and> uuid = Inr sid")
    case False
    with assms(1) wf show ?thesis
      by (auto simp: NewSession_def evictOverLimit_id [OF wf] Let_def split: option.splits sum.splits)
  next
    case True
    then obtain sid where t: "octx = Some None" "uuid = Inr sid" by blast
    have new: "ids ?st sid = None"
      using assms(2) [OF t(2)] ids_shrink_evictExpired [of st now] by (simp add: ids_shrink_def)
    let ?n = "if 0 < n then n else cfg_max_active ?st"
    obtain p st1 where push: "push_session now sid ?n ?st = (p, st1)" by fastforce
    note e = push_session_effect [OF wf new push]
    obtain r st2 c1 where act: "store_ActivateKeys ops now None p keys LoadModeReplace st1 c = (r, st2, c1)"
      by (metis prod.collapse)
    have "wf_store st1" "sessions st1 p \<noteq> None" using e by auto
    from wf_call_session [OF this session_method_ActivateKeys, of now None ops None keys
        LoadModeReplace c] act
    have "wf_store st2" by (simp add: store_ActivateKeys_def)
    with e t push act show ?thesis
      by (auto simp: NewSession_def evictOverLimit_id [OF wf] Let_def wf_Delete split: sum.splits)
  qed
qed

section \<open>Least recently used, and expired\<close>

lemma clocked_filter: "clocked now st \<Longrightarrow> lru st' = filter P (lru st) \<Longrightarrow> clocked now st'"
  by (auto simp: clocked_def sorted_wrt_filter)

lemma clocked_move: "clocked now st \<Longrightarrow> clocked now (move_to_front now p st)"
  by (auto simp: clocked_def move_to_front_def sorted_wrt_filter)

lemma clocked_later: "clocked now st \<Longrightarrow> now \<le> now' \<Longrightarrow> clocked now' st"
  by (fastforce simp: clocked_def)

text \<open>
  C26. Looking up a session finds it exactly when it exists, is open and was used within the
  time to live; it then becomes the most recently used one. Either way all idle sessions are
  gone from the store afterwards, under a clock that does not run backwards.
\<close>

theorem Get_live:
  assumes "wf_store st" and "clocked now st"
  shows "(case Get now sid st of
      (Some p, st') \<Rightarrow> \<exists>s t. sessions st' p = Some s \<and> s_id s = sid \<and> \<not> closed s
        \<and> (p, t) \<in> set (lru st) \<and> time_sub now t \<le> ttl st \<and> hd (lru st') = (p, now)
    | (None, st') \<Rightarrow> \<forall>(p, t) \<in> set (lru st). (\<exists>s. sessions st p = Some s \<and> s_id s \<noteq> sid)
        \<or> ttl st < time_sub now t)
    \<and> wf_store (snd (Get now sid st)) \<and> clocked now (snd (Get now sid st))
    \<and> (\<forall>(p, t) \<in> set (lru (snd (Get now sid st))). t = now \<or> time_sub now t \<le> ttl st)"
proof -
  let ?st = "evictExpiredLocked now st"
  have wf: "wf_store ?st" using assms(1) by (rule wf_evictExpired)
  then have wt: "wf_table ?st" by (simp add: wf_store_def)
  have lru: "lru ?st = filter (fresh_entry now st) (lru st)" by (rule evictExpired_lru [OF assms])
  have clk: "clocked now ?st" using assms(2) lru by (rule clocked_filter)
  show ?thesis
  proof (cases "ids ?st sid")
    case None
    have "(\<exists>s. sessions st p = Some s \<and> s_id s \<noteq> sid) \<or> ttl st < time_sub now t"
      if pt: "(p, t) \<in> set (lru st)" for p t
    proof (cases "time_sub now t \<le> ttl st")
      case True
      with pt lru have "in_lru ?st p" by (force simp: in_lru_def)
      then obtain x where x: "sessions ?st p = Some x" "ids ?st (s_id x) = Some p"
        using wf_tableD(4) [OF wt] by blast
      then have "s_id x \<noteq> sid" using None by auto
      moreover obtain s where "sessions st p = Some s"
        using assms(1) pt wf_tableD(4) [of st p] by (force simp: wf_store_def in_lru_def)
      moreover from this have "s_id x = s_id s"
        using objects_keptD [OF objects_kept_evictExpired, of st p s now] x(1) by auto
      ultimately show ?thesis by auto
    qed auto
    with None wf clk lru show ?thesis by (auto simp: Get_def)
  next
    case (Some p)
    then have p: "in_lru ?st p" by (rule ids_in_lru [OF wf])
    from wf_tableD(5) [OF wt Some] obtain s where s: "sessions ?st p = Some s" "s_id s = sid" by blast
    have open_: "\<not> session_closed p ?st" by (rule not_closed_in_table [OF wf Some])
    with s have "\<not> closed s" by (simp add: session_closed_def)
    from p lru obtain t where "(p, t) \<in> set (lru st)" "time_sub now t \<le> ttl st" by (auto simp: in_lru_def)
    with s \<open>\<not> closed s\<close> Some open_ wf_move_to_front [OF wf p, of now] clocked_move [OF clk, of p] lru
    show ?thesis by (auto simp: Get_def move_to_front_def Let_def)
  qed
qed

text \<open>
  Creating a session keeps the bound and evicts by least recent use: the new session is in
  front, followed by the most recently used sessions as far as the limit allows; an evicted
  session is closed.
\<close>

theorem push_session_evicts_lru:
  assumes "wf_store st" and "ids st sid = None"
  shows "case push_session now sid n st of (p, st') \<Rightarrow>
    wf_store st' \<and> int (length (lru st')) \<le> max_sessions st
    \<and> lru st' = (p, now) # take (nat (max_sessions st) - 1) (lru st)
    \<and> sessions st' p = Some (newSession sid n)
    \<and> (\<forall>(q, t) \<in> set (drop (nat (max_sessions st) - 1) (lru st)). session_closed q st')"
proof -
  obtain p st' where push: "push_session now sid n st = (p, st')" by fastforce
  note e = push_session_effect [OF assms push]
  have w: "wf_table st" using assms(1) by (simp add: wf_store_def)
  have len: "int (length (lru st')) \<le> max_sessions st"
    using e wf_tableD(2) [OF w] by (auto simp: min_def)
  have "session_closed q st'" if q: "(q, t) \<in> set (drop (nat (max_sessions st) - 1) (lru st))" for q t
  proof -
    let ?k = "nat (max_sessions st) - 1"
    have "distinct (map fst (take ?k (lru st)) @ map fst (drop ?k (lru st)))"
      using wf_tableD(3) [OF w] by (metis append_take_drop_id map_append)
    with q have "q \<notin> fst ` set (take ?k (lru st))" by force
    moreover have old: "in_lru st q" using q by (force simp: in_lru_def dest: in_set_dropD)
    then have "q \<noteq> p" using e wf_tableD(4,6) [OF w] by (metis less_irrefl)
    ultimately have "\<not> in_lru st' q" using e by (simp add: in_lru_def)
    moreover have "wf_table st'" using e by (simp add: wf_store_def)
    ultimately show ?thesis using wf_tableD(6) [of st' q] by (auto simp: session_closed_def split: option.splits)
  qed
  with e push len show ?thesis by auto
qed

section \<open>Pruning\<close>

lemma prune_sessions:
  "distinct ps \<Longrightarrow> sessions (fold (prune_session key) ps st) p =
     (if p \<in> set ps then map_option (pruneKey key) (sessions st p) else sessions st p)"
proof (induction ps arbitrary: st)
  case (Cons q ps)
  have "s = pruneKey key s" if "closed s" for s using that by (simp add: pruneKey_def)
  then have "sessions (prune_session key q st) p =
      (if p = q then map_option (pruneKey key) (sessions st p) else sessions st p)"
    by (auto simp: prune_session_def split: option.splits)
  with Cons show ?case by auto
qed simp

lemma pruneKey_open:
  "wf_session s \<Longrightarrow> \<not> closed s \<Longrightarrow>
     active_order (pruneKey k s) = filter (\<lambda>v. v \<noteq> k) (active_order s)
     \<and> active_set (pruneKey k s) = active_set s - {k}"
proof -
  assume "wf_session s" "\<not> closed s"
  moreover have "filter (\<lambda>v. v \<noteq> k) xs = xs" if "k \<notin> set xs" for xs
    using that by (induction xs) auto
  ultimately show ?thesis by (auto simp: pruneKey_def wf_session_def)
qed

text \<open>
  Pruning a skill takes its key out of the active list of every open session and leaves
  the rest of each list, and every closed session, as they were.
\<close>

theorem PruneSkill_effect:
  assumes "wf_store st"
  shows "case sessions (PruneSkill key st) p of
      None \<Rightarrow> sessions st p = None
    | Some s' \<Rightarrow> \<exists>s. sessions st p = Some s
        \<and> (if closed s then s' = s
           else \<not> closed s' \<and> active_order s' = filter (\<lambda>k. k \<noteq> key) (active_order s)
             \<and> active_set s' = active_set s - {key})"
proof -
  have w: "wf_table st" using assms by (simp add: wf_store_def)
  let ?ps = "filter (\<lambda>p. \<not> session_closed p st) (map fst (lru st))"
  have "distinct ?ps" using wf_tableD(3) [OF w] by simp
  note fold = prune_sessions [OF this, of key st p]
  show ?thesis
  proof (cases "sessions st p")
    case None
    with fold show ?thesis by (simp add: PruneSkill_def)
  next
    case (Some s)
    note s = wf_tableD(6) [OF w Some]
    show ?thesis
    proof (cases "closed s")
      case True
      then have "pruneKey key s = s" by (simp add: pruneKey_def)
      with fold Some True show ?thesis by (simp add: PruneSkill_def)
    next
      case False
      with s Some have "p \<in> set ?ps" by (auto simp: in_lru_def session_closed_def)
      with fold Some False s pruneKey_open [of s key] show ?thesis by (simp add: PruneSkill_def)
    qed
  qed
qed

section \<open>Examples\<close>

definition one_session :: store where
  "one_session = snd (push_session 1 ''a'' 0 (NewStore 10 2 0))"

definition two_sessions :: store where
  "two_sessions = snd (push_session 5 ''b'' 0 one_session)"

lemma wf_one_session: "wf_store one_session"
proof -
  have "ids (NewStore 10 2 0) ''a'' = None" by (simp add: NewStore_def)
  from push_session_effect [OF wf_NewStore this surjective_pairing] show ?thesis
    by (simp add: one_session_def)
qed

lemma two_sessions_facts: "wf_store two_sessions \<and> lru two_sessions = [(1, 5), (0, 1)]
    \<and> ids two_sessions ''c'' = None \<and> ttl two_sessions = 10 \<and> max_sessions two_sessions = 2"
proof -
  have "ids one_session ''b'' = None" by code_simp
  from push_session_effect [OF wf_one_session this surjective_pairing]
  have "wf_store two_sessions" by (simp add: two_sessions_def)
  moreover have "lru two_sessions = [(1, 5), (0, 1)]" "ids two_sessions ''c'' = None"
    "ttl two_sessions = 10" "max_sessions two_sessions = 2"
    by code_simp+
  ultimately show ?thesis by simp
qed

theorem Get_live_witness:
  "\<exists>p s t. fst (Get 12 ''b'' two_sessions) = Some p
     \<and> sessions (snd (Get 12 ''b'' two_sessions)) p = Some s \<and> s_id s = ''b''
     \<and> (p, t) \<in> set (lru two_sessions) \<and> time_sub 12 t \<le> ttl two_sessions"
proof -
  have "clocked 12 two_sessions" using two_sessions_facts by (simp add: clocked_def)
  from Get_live [OF conjunct1 [OF two_sessions_facts] this, of "''b''"]
  have "case Get 12 ''b'' two_sessions of (Some p, st') \<Rightarrow> \<exists>s t. sessions st' p = Some s \<and> s_id s = ''b''
      \<and> (p, t) \<in> set (lru two_sessions) \<and> time_sub 12 t \<le> ttl two_sessions | (None, st') \<Rightarrow> True"
    by (auto split: prod.splits option.splits)
  moreover have "fst (Get 12 ''b'' two_sessions) = Some 1" by code_simp
  ultimately show ?thesis by (cases "Get 12 ''b'' two_sessions") auto
qed

theorem push_session_evicts_lru_witness:
  "session_closed 0 (snd (push_session 7 ''c'' 0 two_sessions))
   \<and> lru (snd (push_session 7 ''c'' 0 two_sessions)) = [(2, 7), (1, 5)]"
proof -
  have "next_ptr two_sessions = 2" by code_simp
  with push_session_evicts_lru [of two_sessions "''c''" 7 0] two_sessions_facts show ?thesis
    by (auto simp: push_session_def Let_def)
qed

theorem PruneSkill_effect_witness:
  "case sessions (PruneSkill demo_a two_sessions) 1 of None \<Rightarrow> False | Some s' \<Rightarrow> demo_a \<notin> active_set s'"
proof -
  have "sessions (PruneSkill demo_a two_sessions) 1 \<noteq> None" by code_simp
  moreover have "map_option closed (sessions two_sessions 1) = Some False" by code_simp
  ultimately show ?thesis
    using PruneSkill_effect [OF conjunct1 [OF two_sessions_facts], where key = demo_a and p = 1]
    by (auto split: option.splits if_splits)
qed

end
