(* ===== verification/Filters.thy ===== *)
theory Filters
  imports Store_Correct
begin

text \<open>
  The filters of \<open>skillprompt.go\<close>: how a caller's filter is normalised (blank and invalid entries
  are dropped, repetitions removed, the activity defaults to any) and turned into a filter of
  the catalog, and the wrapper around the sections of a prompt. A nil filter is \<open>None\<close>.
\<close>

section \<open>Normalising filters\<close>

definition SkillActivityAny :: string where "SkillActivityAny = ''any''"
definition SkillActivityActive :: string where "SkillActivityActive = ''active''"
definition SkillActivityInactive :: string where "SkillActivityInactive = ''inactive''"

record skill_filter =
  sf_types :: "string list"
  sf_name_prefix :: string
  sf_location_prefix :: string
  sf_allow_skills :: "skill_def list"
  sf_session_id :: string
  sf_activity :: string

record skill_list_filter =
  lf_types :: "string list"
  lf_name_prefix :: string
  lf_location_prefix :: string
  lf_allow_skills :: "skill_def list"
  lf_inserts :: "skill_insert list"
  lf_session_id :: string
  lf_activity :: string

definition normalize_types :: "string list \<Rightarrow> string list" where
  "normalize_types ts = dedup (filter (\<lambda>t. t \<noteq> []) (map trim_space ts))"

definition blank_def :: "skill_def \<Rightarrow> bool" where
  "blank_def d \<longleftrightarrow> trim_space (def_type d) = [] \<or> trim_space (def_name d) = []
     \<or> trim_space (def_location d) = []"

definition normalize_allow :: "skill_def list \<Rightarrow> skill_def list" where
  "normalize_allow ds = dedup (filter (\<lambda>d. \<not> blank_def d) ds)"

definition normalize_activity :: "string \<Rightarrow> string" where
  "normalize_activity a = (let act = trim_space a in if act = [] then SkillActivityAny else act)"

definition normalizeInsertFilter :: "skill_insert list \<Rightarrow> skill_insert list" where
  "normalizeInsertFilter ins = dedup (map fst (filter snd (map NormalizeSkillInsert ins)))"

definition normalizeSkillListFilter :: "skill_list_filter option \<Rightarrow> skill_list_filter" where
  "normalizeSkillListFilter fo =
     (case fo of
        None \<Rightarrow> \<lparr>lf_types = [], lf_name_prefix = [], lf_location_prefix = [], lf_allow_skills = [],
                  lf_inserts = [], lf_session_id = [], lf_activity = SkillActivityAny\<rparr>
      | Some f \<Rightarrow> \<lparr>lf_types = normalize_types (lf_types f), lf_name_prefix = lf_name_prefix f,
                  lf_location_prefix = lf_location_prefix f,
                  lf_allow_skills = normalize_allow (lf_allow_skills f),
                  lf_inserts = normalizeInsertFilter (lf_inserts f),
                  lf_session_id = trim_space (lf_session_id f),
                  lf_activity = normalize_activity (lf_activity f)\<rparr>)"

definition toCatalogUserFilter :: "skill_list_filter option \<Rightarrow> user_filter" where
  "toCatalogUserFilter fo =
     (case fo of
        None \<Rightarrow> \<lparr>uf_types = [], uf_name_prefix = [], uf_location_prefix = [], uf_allow_defs = [],
                  uf_inserts = []\<rparr>
      | Some f \<Rightarrow> \<lparr>uf_types = lf_types f, uf_name_prefix = lf_name_prefix f,
                  uf_location_prefix = lf_location_prefix f, uf_allow_defs = lf_allow_skills f,
                  uf_inserts = lf_inserts f\<rparr>)"

definition normalizeSkillsPromptFilter :: "skill_filter option \<Rightarrow> skill_filter" where
  "normalizeSkillsPromptFilter fo =
     (case fo of
        None \<Rightarrow> \<lparr>sf_types = [], sf_name_prefix = [], sf_location_prefix = [], sf_allow_skills = [],
                  sf_session_id = [], sf_activity = SkillActivityAny\<rparr>
      | Some f \<Rightarrow> \<lparr>sf_types = normalize_types (sf_types f), sf_name_prefix = sf_name_prefix f,
                  sf_location_prefix = sf_location_prefix f,
                  sf_allow_skills = normalize_allow (sf_allow_skills f),
                  sf_session_id = trim_space (sf_session_id f),
                  sf_activity = normalize_activity (sf_activity f)\<rparr>)"

text \<open>Prompts advertise instruction skills only.\<close>

definition toCatalogPromptFilter :: "skill_filter option \<Rightarrow> prompt_filter" where
  "toCatalogPromptFilter fo =
     (case fo of
        None \<Rightarrow> \<lparr>pf_types = [], pf_llm_name_prefix = [], pf_location_prefix = [], pf_inserts = [],
                  pf_allow_defs = []\<rparr>
      | Some f \<Rightarrow> \<lparr>pf_types = sf_types f, pf_llm_name_prefix = sf_name_prefix f,
                  pf_location_prefix = sf_location_prefix f,
                  pf_inserts = [SkillInsertInstructions], pf_allow_defs = sf_allow_skills f\<rparr>)"

section \<open>Wrapping sections\<close>

definition skillsPromptStart :: string where "skillsPromptStart = ''<<<SKILLS_PROMPT>>>''"
definition skillsPromptEnd :: string where "skillsPromptEnd = ''<<<END_SKILLS_PROMPT>>>''"

definition wrapSkillsPrompt :: "string list \<Rightarrow> string" where
  "wrapSkillsPrompt parts =
     (let written = filter (\<lambda>p. trim_space p \<noteq> []) parts
      in skillsPromptStart @ concat (map (\<lambda>p. NL # p) written)
         @ (if written \<noteq> [] then [NL] else []) @ skillsPromptEnd)"

section \<open>Facts about filters\<close>

lemma normalize_types_idem: "normalize_types (normalize_types ts) = normalize_types ts"
proof -
  have "t \<noteq> [] \<and> trim_space t = t" if "t \<in> set (normalize_types ts)" for t
    using that by (auto simp: normalize_types_def)
  then have "map trim_space (normalize_types ts) = normalize_types ts"
    "filter (\<lambda>t. t \<noteq> []) (normalize_types ts) = normalize_types ts"
    by (simp_all add: map_idI filter_id_conv)
  then show ?thesis by (metis dedup_distinct distinct_dedup_from normalize_types_def)
qed

lemma normalize_allow_idem: "normalize_allow (normalize_allow ds) = normalize_allow ds"
proof -
  have "filter (\<lambda>d. \<not> blank_def d) (normalize_allow ds) = normalize_allow ds"
    by (auto simp: filter_id_conv normalize_allow_def)
  then show ?thesis by (metis dedup_distinct distinct_dedup_from normalize_allow_def)
qed

lemma normalizeInsertFilter_idem: "normalizeInsertFilter (normalizeInsertFilter ins) = normalizeInsertFilter ins"
proof -
  let ?n = "normalizeInsertFilter ins"
  have id: "NormalizeSkillInsert i = (i, True)" if "i \<in> set ?n" for i
    using that NormalizeSkillInsert_idem by (fastforce simp: normalizeInsertFilter_def)
  then have "filter snd (map NormalizeSkillInsert ?n) = map NormalizeSkillInsert ?n"
    by (auto simp: filter_id_conv)
  moreover have "map fst (map NormalizeSkillInsert ?n) = ?n" using id by (simp add: map_idI)
  ultimately show ?thesis by (metis dedup_distinct distinct_dedup_from normalizeInsertFilter_def)
qed

lemma normalize_activity_idem: "normalize_activity (normalize_activity a) = normalize_activity a"
proof -
  have "trim_space SkillActivityAny = SkillActivityAny" "SkillActivityAny \<noteq> []" by code_simp+
  then show ?thesis by (simp add: normalize_activity_def Let_def)
qed

text \<open>
  Normalising a filter is idempotent, and what it keeps is usable: types without surrounding
  white space, definitions without blank fields, canonical insert hints, none of them twice.
\<close>

theorem normalizeSkillListFilter_canonical:
  "normalizeSkillListFilter (Some (normalizeSkillListFilter f)) = normalizeSkillListFilter f
   \<and> (let n = normalizeSkillListFilter f in
       distinct (lf_types n) \<and> distinct (lf_allow_skills n) \<and> distinct (lf_inserts n)
       \<and> list_all (\<lambda>t. t \<noteq> [] \<and> trim_space t = t) (lf_types n)
       \<and> list_all (\<lambda>d. \<not> blank_def d) (lf_allow_skills n)
       \<and> list_all (\<lambda>i. NormalizeSkillInsert i = (i, True)) (lf_inserts n)
       \<and> lf_activity n \<noteq> [])"
proof (cases f)
  case None
  have "trim_space SkillActivityAny = SkillActivityAny" "SkillActivityAny \<noteq> []" by code_simp+
  with None show ?thesis
    by (simp add: normalizeSkillListFilter_def normalize_types_def normalize_allow_def
        normalizeInsertFilter_def normalize_activity_def Let_def)
next
  case (Some g)
  have "SkillActivityAny \<noteq> []" by code_simp
  with Some show ?thesis
    by (auto simp: normalizeSkillListFilter_def normalize_types_idem normalize_allow_idem
        normalizeInsertFilter_idem normalize_activity_idem Let_def list_all_iff)
      (auto simp: normalize_types_def normalize_allow_def normalizeInsertFilter_def
        normalize_activity_def Let_def split: if_splits)
qed

text \<open>
  C36. An allowlist, type list or insert list that has entries, none of them usable, becomes the
  empty list, which means no restriction: every skill passes the filter meant to allow none.
\<close>

theorem unusable_filters_allow_all:
  assumes "list_all blank_def (lf_allow_skills f)" "list_all (\<lambda>t. trim_space t = []) (lf_types f)"
    and "list_all (\<lambda>i. \<not> snd (NormalizeSkillInsert i)) (lf_inserts f)"
    and "lf_name_prefix f = []" "lf_location_prefix f = []"
  shows "user_match (toCatalogUserFilter (Some (normalizeSkillListFilter (Some f)))) e"
proof -
  have "normalize_allow (lf_allow_skills f) = []" "normalize_types (lf_types f) = []"
    "normalizeInsertFilter (lf_inserts f) = []"
    using assms by (auto simp: normalize_allow_def normalize_types_def normalizeInsertFilter_def
        list_all_iff filter_empty_conv)
  with assms show ?thesis
    by (simp add: user_match_def toCatalogUserFilter_def normalizeSkillListFilter_def)
qed

definition nothing_usable :: skill_list_filter where
  "nothing_usable = \<lparr>lf_types = ['' ''], lf_name_prefix = [], lf_location_prefix = [],
     lf_allow_skills = [demo_def ''a'' '' '' ''/s''], lf_inserts = [''footer''],
     lf_session_id = [], lf_activity = []\<rparr>"

theorem unusable_filters_allow_all_witness:
  "list_all (\<lambda>(k, e). user_match (toCatalogUserFilter (Some (normalizeSkillListFilter (Some nothing_usable)))) e)
     (by_key twins) \<and> by_key twins \<noteq> []"
proof -
  have "list_all blank_def (lf_allow_skills nothing_usable)"
    "list_all (\<lambda>t. trim_space t = []) (lf_types nothing_usable)"
    "list_all (\<lambda>i. \<not> snd (NormalizeSkillInsert i)) (lf_inserts nothing_usable)"
    "lf_name_prefix nothing_usable = []" "lf_location_prefix nothing_usable = []"
    by code_simp+
  note all = unusable_filters_allow_all [OF this]
  have "by_key twins \<noteq> []" by code_simp
  with all show ?thesis by (simp add: list_all_iff split_beta)
qed

end
