(* ===== verification/Runtime.thy ===== *)
theory Runtime
  imports Filters
begin

text \<open>
  \<open>runtime.go\<close> and the prompt and rendering calls of \<open>skillprompt.go\<close>: the providers, the catalog
  and the session store behind one API. A call takes the runtime, an optional context (\<open>None\<close> is
  nil) and the readings of the clock it makes, and returns its result and the runtime after it.
  The methods of a provider in \<open>rt_providers\<close> are the ones that hold during the call; the outside
  world may change them between calls (theory \<open>Runtime_Correct\<close>). The nil receiver has no case.
\<close>

section \<open>Construction\<close>

record runtime =
  rt_logger :: nat
  rt_providers :: "(string \<times> provider) list"
  rt_catalog :: catalog
  rt_sessions :: store

record runtime_options =
  opt_logger :: "nat option"
  opt_providers :: "provider option list"
  opt_providers_by_type :: "(string \<times> provider option) list"
  opt_max_active :: int
  opt_ttl :: int
  opt_max_sessions :: int

type_synonym runtime_option = "runtime_options \<Rightarrow> go_error + runtime_options"

definition WithLogger :: "nat option \<Rightarrow> runtime_option" where
  "WithLogger l = (\<lambda>cfg. Inr (cfg\<lparr>opt_logger := l\<rparr>))"

definition WithProvider :: "provider option \<Rightarrow> runtime_option" where
  "WithProvider p = (\<lambda>cfg. Inr (cfg\<lparr>opt_providers := opt_providers cfg @ [p]\<rparr>))"

definition WithProvidersByType :: "(string \<times> provider option) list \<Rightarrow> runtime_option" where
  "WithProvidersByType m = (\<lambda>cfg. Inr (cfg\<lparr>opt_providers_by_type :=
     fold (\<lambda>(t, p). AList.update t p) m (opt_providers_by_type cfg)\<rparr>))"

definition WithMaxActivePerSession :: "int \<Rightarrow> runtime_option" where
  "WithMaxActivePerSession n = (\<lambda>cfg. Inr (cfg\<lparr>opt_max_active := n\<rparr>))"

definition WithSessionTTL :: "int \<Rightarrow> runtime_option" where
  "WithSessionTTL t = (\<lambda>cfg. Inr (cfg\<lparr>opt_ttl := t\<rparr>))"

definition WithMaxSessions :: "int \<Rightarrow> runtime_option" where
  "WithMaxSessions n = (\<lambda>cfg. Inr (cfg\<lparr>opt_max_sessions := n\<rparr>))"

text \<open>The loop over the options: nil options are skipped, the first error ends it.\<close>

fun apply_options :: "('o \<Rightarrow> go_error + 'o) option list \<Rightarrow> 'o \<Rightarrow> go_error + 'o" where
  "apply_options [] cfg = Inr cfg"
| "apply_options (None # os) cfg = apply_options os cfg"
| "apply_options (Some f # os) cfg = and_then (f cfg) (apply_options os)"

fun add_providers ::
  "provider option list \<Rightarrow> (string \<times> provider) list \<Rightarrow> go_error + (string \<times> provider) list" where
  "add_providers [] m = Inr m"
| "add_providers (None # ps) m = Inl (Msg ''nil provider'')"
| "add_providers (Some p # ps) m =
     (if p_type p = [] then Inl (Msg ''provider.Type() returned empty string'')
      else if map_of m (p_type p) \<noteq> None then Inl (Msg ''duplicate provider type: %q'')
      else add_providers ps (AList.update (p_type p) p m))"

fun add_providers_by_type ::
  "(string \<times> provider option) list \<Rightarrow> (string \<times> provider) list
   \<Rightarrow> go_error + (string \<times> provider) list" where
  "add_providers_by_type [] m = Inr m"
| "add_providers_by_type ((t, None) # ps) m = Inl (Msg ''nil provider for type: %q'')"
| "add_providers_by_type ((t, Some p) # ps) m =
     (if t = [] then Inl (Msg ''empty provider type key'')
      else if map_of m t \<noteq> None then Inl (Msg ''duplicate provider type: %q'')
      else if p_type p \<noteq> t then Inl (Msg ''provider type mismatch: map key=%q provider.Type()=%q'')
      else add_providers_by_type ps (AList.update t p m))"

text \<open>\<open>default_log\<close> is \<open>slog.Default()\<close>.\<close>

definition default_options :: "nat \<Rightarrow> runtime_options" where
  "default_options default_log =
     \<lparr>opt_logger = Some default_log, opt_providers = [], opt_providers_by_type = [],
      opt_max_active = 8, opt_ttl = 24 * 60 * 60 * 1000000000, opt_max_sessions = 4096\<rparr>"

definition runtime_of :: "nat \<Rightarrow> runtime_options \<Rightarrow> (string \<times> provider) list \<Rightarrow> runtime" where
  "runtime_of default_log cfg providers =
     \<lparr>rt_logger = (case opt_logger cfg of None \<Rightarrow> default_log | Some l \<Rightarrow> l),
      rt_providers = providers, rt_catalog = Catalog.New,
      rt_sessions = NewStore (opt_ttl cfg) (opt_max_sessions cfg) (opt_max_active cfg)\<rparr>"

definition New :: "nat \<Rightarrow> runtime_option option list \<Rightarrow> go_error + runtime" where
  "New default_log opts =
     and_then (apply_options opts (default_options default_log)) (\<lambda>cfg.
     and_then (add_providers (opt_providers cfg) []) (\<lambda>m1.
     and_then (add_providers_by_type (opt_providers_by_type cfg) m1) (\<lambda>m.
     Inr (runtime_of default_log cfg m))))"

definition providerResolver :: "runtime \<Rightarrow> resolver" where
  "providerResolver rt = map_of (rt_providers rt)"

definition ProviderTypes :: "runtime \<Rightarrow> string list" where
  "ProviderTypes rt = sort (map fst (rt_providers rt))"

section \<open>Skills\<close>

definition check_context :: "ctx option \<Rightarrow> go_error + unit" where
  "check_context octx =
     (case octx of None \<Rightarrow> Inl (invalid_arg ''%w: nil context'') | Some ctx \<Rightarrow> ctx_check ctx)"

definition untrimmed_def :: "skill_def \<Rightarrow> bool" where
  "untrimmed_def d \<longleftrightarrow> trim_space (def_type d) \<noteq> def_type d \<or> trim_space (def_name d) \<noteq> def_name d
     \<or> trim_space (def_location d) \<noteq> def_location d"

definition check_def :: "ctx option \<Rightarrow> skill_def \<Rightarrow> go_error + unit" where
  "check_def octx d =
     and_then (check_context octx) (\<lambda>_. guard_err (untrimmed_def d)
       (invalid_arg ''%w: def fields must not contain leading/trailing whitespace''))"

definition AddSkill ::
  "(string \<Rightarrow> string) \<Rightarrow> ctx option \<Rightarrow> skill_def \<Rightarrow> runtime \<Rightarrow> (go_error + skill_record) \<times> runtime" where
  "AddSkill hx octx d rt =
     (case check_def octx d of
        Inl e \<Rightarrow> (Inl e, rt)
      | Inr _ \<Rightarrow>
          (case Add hx (providerResolver rt) (the octx) d (rt_catalog rt) of
             (r, c) \<Rightarrow> (r, rt\<lparr>rt_catalog := c\<rparr>)))"

definition RemoveSkill ::
  "(string \<Rightarrow> string) \<Rightarrow> ctx option \<Rightarrow> skill_def \<Rightarrow> runtime \<Rightarrow> (go_error + skill_record) \<times> runtime" where
  "RemoveSkill hx octx d rt =
     (case check_def octx d of
        Inl e \<Rightarrow> (Inl e, rt)
      | Inr _ \<Rightarrow>
          (case Remove hx d (rt_catalog rt) of
             (None, c) \<Rightarrow> (Inl (Sentinel ErrSkillNotFound), rt\<lparr>rt_catalog := c\<rparr>)
           | (Some (rec, canonKey), c) \<Rightarrow>
               (Inr rec, rt\<lparr>rt_catalog := c, rt_sessions := PruneSkill canonKey (rt_sessions rt)\<rparr>)))"

text \<open>
  The session of a filter and its active keys: \<open>Get\<close> at time \<open>now\<close>, then \<open>ActiveKeys\<close>, which
  touches the store at time \<open>now'\<close>.
\<close>

definition session_keys ::
  "int \<Rightarrow> int \<Rightarrow> ctx \<Rightarrow> string \<Rightarrow> runtime \<Rightarrow> (go_error + provider_skill_key list) \<times> runtime" where
  "session_keys now now' ctx sid rt =
     (case Get now sid (rt_sessions rt) of
        (None, st) \<Rightarrow> (Inl (Sentinel ErrSessionNotFound), rt\<lparr>rt_sessions := st\<rparr>)
      | (Some p, st) \<Rightarrow>
          (case store_ActiveKeys (catalog_interface (providerResolver rt)) now' ctx p st
                  (rt_catalog rt) of
             (r, st', c) \<Rightarrow> (r, rt\<lparr>rt_sessions := st', rt_catalog := c\<rparr>)))"

definition check_activity :: "string \<Rightarrow> string \<Rightarrow> go_error + unit" where
  "check_activity act sid =
     (if act = SkillActivityAny \<or> act = SkillActivityInactive then Inr ()
      else if act = SkillActivityActive then
        guard_err (sid = []) (invalid_arg ''%w: activity=active requires sessionID'')
      else Inl (invalid_arg ''%w: invalid activity %q''))"

definition activity_match :: "string \<Rightarrow> provider_skill_key list \<Rightarrow> provider_skill_key \<Rightarrow> bool" where
  "activity_match act keys k =
     (if act = SkillActivityActive then List.member keys k
      else if act = SkillActivityInactive then \<not> List.member keys k
      else False)"

definition ListSkills ::
  "int \<Rightarrow> int \<Rightarrow> ctx option \<Rightarrow> skill_list_filter option \<Rightarrow> runtime
   \<Rightarrow> (go_error + skill_record list) \<times> runtime" where
  "ListSkills now now' octx filt rt =
     (case check_context octx of
        Inl e \<Rightarrow> (Inl e, rt)
      | Inr _ \<Rightarrow>
          let cfg = normalizeSkillListFilter filt in
          (case check_activity (lf_activity cfg) (lf_session_id cfg) of
             Inl e \<Rightarrow> (Inl e, rt)
           | Inr _ \<Rightarrow>
               let entries = ListUserEntries (toCatalogUserFilter (Some cfg)) (rt_catalog rt) in
               if lf_session_id cfg = [] then (Inr (map ue_record entries), rt)
               else (case session_keys now now' (the octx) (lf_session_id cfg) rt of
                   (Inl e, rt1) \<Rightarrow> (Inl e, rt1)
                 | (Inr keys, rt1) \<Rightarrow>
                     if lf_activity cfg = SkillActivityAny then (Inr (map ue_record entries), rt1)
                     else (Inr (map ue_record
                             (filter (\<lambda>u. activity_match (lf_activity cfg) keys (ue_key u)) entries)),
                           rt1))))"

section \<open>Sessions\<close>

record new_session_options =
  ns_max_active :: int
  ns_active_defs :: "skill_def list"

type_synonym session_option = "new_session_options \<Rightarrow> go_error + new_session_options"

definition WithSessionMaxActivePerSession :: "int \<Rightarrow> session_option" where
  "WithSessionMaxActivePerSession n = (\<lambda>cfg. Inr (cfg\<lparr>ns_max_active := n\<rparr>))"

definition WithSessionActiveSkills :: "skill_def list \<Rightarrow> session_option" where
  "WithSessionActiveSkills defs = (\<lambda>cfg. Inr (cfg\<lparr>ns_active_defs := defs\<rparr>))"

text \<open>The loop over the initial definitions: a repetition or an unknown definition ends it.\<close>

fun resolve_defs ::
  "catalog \<Rightarrow> skill_def list \<Rightarrow> skill_def set \<Rightarrow> go_error + provider_skill_key list" where
  "resolve_defs c [] seen = Inr []"
| "resolve_defs c (d # ds) seen =
     (if d \<in> seen then Inl (invalid_arg ''%w: duplicate active skill def: %+v'')
      else (case ResolveDef d c of
          None \<Rightarrow> Inl (Wrapf ''%w: unknown skill def: %+v'' [Sentinel ErrSkillNotFound])
        | Some k \<Rightarrow> and_then (resolve_defs c ds (insert d seen)) (\<lambda>ks. Inr (k # ks))))"

definition NewSession ::
  "int \<Rightarrow> ctx option \<Rightarrow> go_error + string \<Rightarrow> session_option option list \<Rightarrow> runtime
   \<Rightarrow> (go_error + (string \<times> skill_def list)) \<times> runtime" where
  "NewSession now octx uuid opts rt =
     (case and_then (check_context octx) (\<lambda>_.
             apply_options opts \<lparr>ns_max_active = 0, ns_active_defs = []\<rparr>) of
        Inl e \<Rightarrow> (Inl e, rt)
      | Inr cfg \<Rightarrow>
          (case resolve_defs (rt_catalog rt) (ns_active_defs cfg) {} of
             Inl e \<Rightarrow> (Inl e, rt)
           | Inr activeKeys \<Rightarrow>
               (case Store.NewSession (catalog_interface (providerResolver rt)) now octx uuid
                       (ns_max_active cfg) activeKeys (rt_sessions rt) (rt_catalog rt) of
                  (Inl e, st, c) \<Rightarrow> (Inl e, rt\<lparr>rt_sessions := st, rt_catalog := c\<rparr>)
                | (Inr (sid, hs), st, c) \<Rightarrow>
                    (Inr (sid, ns_active_defs cfg), rt\<lparr>rt_sessions := st, rt_catalog := c\<rparr>))))"

definition CloseSession :: "ctx option \<Rightarrow> string \<Rightarrow> runtime \<Rightarrow> (go_error + unit) \<times> runtime" where
  "CloseSession octx sid rt =
     (case check_context octx of
        Inl e \<Rightarrow> (Inl e, rt)
      | Inr _ \<Rightarrow>
          if sid = [] then (Inr (), rt)
          else (Inr (), rt\<lparr>rt_sessions := Delete sid (rt_sessions rt)\<rparr>))"

text \<open>The session a registry is made for; theory \<open>Tool_Registry\<close> fills the registry.\<close>

definition NewSessionRegistry ::
  "int \<Rightarrow> ctx option \<Rightarrow> string \<Rightarrow> runtime \<Rightarrow> (go_error + nat) \<times> runtime" where
  "NewSessionRegistry now octx sid rt =
     (case check_context octx of
        Inl e \<Rightarrow> (Inl e, rt)
      | Inr _ \<Rightarrow>
          (case Get now sid (rt_sessions rt) of
             (None, st) \<Rightarrow> (Inl (Sentinel ErrSessionNotFound), rt\<lparr>rt_sessions := st\<rparr>)
           | (Some p, st) \<Rightarrow> (Inr p, rt\<lparr>rt_sessions := st\<rparr>)))"

section \<open>Prompts\<close>

text \<open>
  The loop over the active keys of the session that are in the filtered view: skills that
  vanished are left out, any other failure to load a body ends the call.
\<close>

fun active_items ::
  "resolver \<Rightarrow> ctx \<Rightarrow> provider_skill_key list \<Rightarrow> provider_skill_key list \<Rightarrow> catalog
   \<Rightarrow> (go_error + active_skill_item list) \<times> catalog" where
  "active_items res ctx filtered [] c = (Inr [], c)"
| "active_items res ctx filtered (k # ks) c =
     (if \<not> List.member filtered k then active_items res ctx filtered ks c
      else (case (HandleForKey k c, GetIndex k c) of
          (Some h, Some idx) \<Rightarrow>
            (case EnsureBody res ctx k c of
               (Inl e, c1) \<Rightarrow>
                 if errors_is e ErrSkillNotFound then active_items res ctx filtered ks c1
                 else (Inl e, c1)
             | (Inr body, c1) \<Rightarrow>
                 (case active_items res ctx filtered ks c1 of
                    (Inl e, c2) \<Rightarrow> (Inl e, c2)
                  | (Inr items, c2) \<Rightarrow>
                      (Inr (\<lparr>ac_name = handle_name h,
                             ac_body = rr_text (RenderSkillBody body (idx_arguments idx) Map.empty),
                             ac_resources = idx_resources idx\<rparr> # items), c2)))
        | _ \<Rightarrow> active_items res ctx filtered ks c))"

definition available_item :: "catalog \<Rightarrow> index_record \<Rightarrow> available_skill_item option" where
  "available_item c rec =
     map_option (\<lambda>h. \<lparr>av_name = handle_name h, av_description = idx_description rec,
                     av_location = handle_location h, av_resources = idx_resources rec\<rparr>)
       (HandleForKey (idx_key rec) c)"

definition available_items ::
  "provider_skill_key list \<Rightarrow> index_record list \<Rightarrow> catalog \<Rightarrow> available_skill_item list" where
  "available_items active records c =
     List.map_filter (available_item c) (filter (\<lambda>rec. \<not> List.member active (idx_key rec)) records)"

text \<open>The last step: one section alone, or both in one document.\<close>

definition join_sections :: "string \<Rightarrow> string \<Rightarrow> string" where
  "join_sections availablePrompt activePrompt =
     (if trim_space activePrompt = [] \<and> trim_space availablePrompt \<noteq> [] then availablePrompt
      else if trim_space availablePrompt = [] \<and> trim_space activePrompt \<noteq> [] then activePrompt
      else wrapSkillsPrompt [availablePrompt, activePrompt])"

definition SkillsPrompt ::
  "int \<Rightarrow> int \<Rightarrow> ctx option \<Rightarrow> skill_filter option \<Rightarrow> runtime \<Rightarrow> (go_error + string) \<times> runtime" where
  "SkillsPrompt now now' octx f rt =
     (case check_context octx of
        Inl e \<Rightarrow> (Inl e, rt)
      | Inr _ \<Rightarrow>
          let cfg = normalizeSkillsPromptFilter f; act = sf_activity cfg; sid = sf_session_id cfg in
          (case check_activity act sid of
             Inl e \<Rightarrow> (Inl e, rt)
           | Inr _ \<Rightarrow>
               let records = ListPromptIndexRecords (toCatalogPromptFilter (Some cfg)) (rt_catalog rt) in
               (case (if sid = [] then (Inr [], rt) else session_keys now now' (the octx) sid rt) of
                  (Inl e, rt1) \<Rightarrow> (Inl e, rt1)
                | (Inr keys, rt1) \<Rightarrow>
                    let includeActive = (act = SkillActivityAny \<or> act = SkillActivityActive);
                        includeAvailable = (act = SkillActivityAny \<or> act = SkillActivityInactive) in
                    (case (if includeActive \<and> sid \<noteq> []
                           then active_items (providerResolver rt1) (the octx) (map idx_key records)
                                  keys (rt_catalog rt1)
                           else (Inr [], rt_catalog rt1)) of
                       (Inl e, c) \<Rightarrow> (Inl e, rt1\<lparr>rt_catalog := c\<rparr>)
                     | (Inr items, c) \<Rightarrow>
                         let activePrompt =
                               (if includeActive \<and> sid \<noteq> [] then ActiveSkillsPrompt items
                                else if act = SkillActivityActive then ActiveSkillsPrompt [] else []);
                             availablePrompt =
                               (if includeAvailable
                                then AvailableSkillsPrompt (available_items keys records c) else [])
                         in (Inr (join_sections availablePrompt activePrompt),
                             rt1\<lparr>rt_catalog := c\<rparr>)))))"

section \<open>Rendering for the host\<close>

definition cloneSkillResourceInfo :: "skill_resource_info \<Rightarrow> skill_resource_info" where
  "cloneSkillResourceInfo r = r\<lparr>res_locations := [] @ res_locations r\<rparr>"

definition RenderSkill ::
  "ctx option \<Rightarrow> skill_def \<Rightarrow> (string \<rightharpoonup> string) \<Rightarrow> runtime \<Rightarrow> (go_error + render_skill_out) \<times> runtime" where
  "RenderSkill octx d args rt =
     (case and_then (check_def octx d) (\<lambda>_. guard_err (blank_def d)
             (invalid_arg ''%w: def.type, def.name, and def.location are required'')) of
        Inl e \<Rightarrow> (Inl e, rt)
      | Inr _ \<Rightarrow>
          (case ResolveDef d (rt_catalog rt) of
             None \<Rightarrow> (Inl (Wrapf ''%w: unknown skill def: %+v'' [Sentinel ErrSkillNotFound]), rt)
           | Some key \<Rightarrow>
               (case GetIndex key (rt_catalog rt) of
                  None \<Rightarrow> (Inl (Sentinel ErrSkillNotFound), rt)
                | Some idx \<Rightarrow>
                    (case EnsureBody (providerResolver rt) (the octx) key (rt_catalog rt) of
                       (Inl e, c) \<Rightarrow> (Inl e, rt\<lparr>rt_catalog := c\<rparr>)
                     | (Inr body, c) \<Rightarrow>
                         let rendered = RenderSkillBody body (idx_arguments idx) args in
                         (Inr \<lparr>ro_name = (if idx_name idx = [] then key_name (idx_key idx)
                                          else idx_name idx),
                               ro_description = idx_description idx,
                               ro_display_name = idx_display_name idx,
                               ro_insert = fst (NormalizeSkillInsert (idx_insert idx)),
                               ro_tags = [] @ idx_tags idx,
                               ro_resources = cloneSkillResourceInfo (idx_resources idx),
                               ro_text = rr_text rendered,
                               ro_arguments = [] @ idx_arguments idx,
                               ro_applied_arguments = rr_applied_arguments rendered,
                               ro_raw_frontmatter = idx_raw_frontmatter idx,
                               ro_warnings = idx_warnings idx @ rr_warnings rendered\<rparr>,
                          rt\<lparr>rt_catalog := c\<rparr>)))))"

section \<open>The tools of a session\<close>

text \<open>
  The handlers that a registry holds for the session \<open>p\<close>, on the runtime the session belongs to.
  Reading and running change nothing but the session's last use.
\<close>

definition on_session ::
  "int \<Rightarrow> ctx \<Rightarrow> nat \<Rightarrow> (session \<Rightarrow> catalog \<Rightarrow> 'r \<times> session \<times> catalog) \<Rightarrow> runtime \<Rightarrow> 'r \<times> runtime" where
  "on_session now ctx p f rt =
     (case call_session now ctx p f (rt_sessions rt) (rt_catalog rt) of
        (r, st, c) \<Rightarrow> (r, rt\<lparr>rt_sessions := st, rt_catalog := c\<rparr>))"

definition skills_load ::
  "int \<Rightarrow> ctx \<Rightarrow> nat \<Rightarrow> load_args \<Rightarrow> runtime \<Rightarrow> (go_error + skill_handle list) \<times> runtime" where
  "skills_load now ctx p args rt =
     on_session now ctx p (toolLoad (catalog_interface (providerResolver rt)) alone ctx args) rt"

definition skills_unload ::
  "int \<Rightarrow> ctx \<Rightarrow> nat \<Rightarrow> unload_args \<Rightarrow> runtime \<Rightarrow> (go_error + skill_handle list) \<times> runtime" where
  "skills_unload now ctx p args rt =
     on_session now ctx p (\<lambda>s c.
       case toolUnload (catalog_interface (providerResolver rt)) ctx args c s of (r, s1) \<Rightarrow> (r, s1, c)) rt"

definition skills_read ::
  "int \<Rightarrow> ctx \<Rightarrow> nat \<Rightarrow> read_args \<Rightarrow> runtime \<Rightarrow> (go_error + tool_output list) \<times> runtime" where
  "skills_read now ctx p args rt =
     on_session now ctx p (\<lambda>s c.
       (toolRead (catalog_interface (providerResolver rt)) (providerResolver rt) ctx args c s, s, c)) rt"

definition skills_run ::
  "int \<Rightarrow> ctx \<Rightarrow> nat \<Rightarrow> script_args \<Rightarrow> runtime \<Rightarrow> (go_error + run_script_out) \<times> runtime" where
  "skills_run now ctx p args rt =
     on_session now ctx p (\<lambda>s c.
       (toolRunScript (catalog_interface (providerResolver rt)) (providerResolver rt) ctx args c s, s, c)) rt"

end
