(* ===== verification/Runtime_Correct.thy ===== *)
theory Runtime_Correct
  imports Runtime
begin

text \<open>
  The invariant of a runtime: providers, catalog and store are well-formed, every skill in the
  catalog has a provider, and every skill active in an open session is a known instructions
  skill whose body is loaded. Each API call is a step; so is a change of what the providers'
  methods return.
\<close>

section \<open>Catalogs between calls\<close>

definition quiet_catalog :: "(string \<Rightarrow> string) \<Rightarrow> catalog \<Rightarrow> bool" where
  "quiet_catalog hx c \<longleftrightarrow> wf_catalog hx c \<and> no_loads c"

text \<open>What loading bodies does to a catalog.\<close>

definition catalog_next :: "(string \<Rightarrow> string) \<Rightarrow> catalog \<Rightarrow> catalog \<Rightarrow> bool" where
  "catalog_next hx c c' \<longleftrightarrow> quiet_catalog hx c' \<and> catalog_kept c c'"

lemma catalog_next_refl [simp]: "quiet_catalog hx c \<Longrightarrow> catalog_next hx c c"
  by (simp add: catalog_next_def)

lemma catalog_next_trans: "catalog_next hx a b \<Longrightarrow> catalog_next hx b c \<Longrightarrow> catalog_next hx a c"
  by (auto simp: catalog_next_def intro: catalog_kept_trans)

lemma catalog_nextD: "catalog_next hx c c' \<Longrightarrow> quiet_catalog hx c' \<and> catalog_kept c c'"
  by (simp add: catalog_next_def)

lemma EnsureBody_next: "quiet_catalog hx c \<Longrightarrow> catalog_next hx c (snd (EnsureBody res ctx k c))"
  by (cases ctx)
    (auto simp: catalog_next_def quiet_catalog_def wf_EnsureBody EnsureBody_kept no_loads_EnsureBody
      simp: EnsureBody_def [where ctx = "Some e" for e])

lemma ensure_all_next:
  "quiet_catalog hx c \<Longrightarrow> catalog_next hx c (snd (ensure_all (catalog_interface res) ctx ks c))"
proof (induction ks arbitrary: c)
  case (Cons k ks)
  obtain r c1 where e: "EnsureBody res ctx k c = (r, c1)" by fastforce
  with EnsureBody_next [OF Cons.prems, of res ctx k] have n: "catalog_next hx c c1" by simp
  with Cons.IH [of c1] e show ?case
    by (cases r) (auto simp: catalog_interface_def dest: catalog_nextD intro: catalog_next_trans)
qed simp

lemma ActivateKeys_next:
  "quiet_catalog hx c \<Longrightarrow>
     catalog_next hx c (snd (snd (ActivateKeys (catalog_interface res) alone ctx keys mode s c)))"
  using cat.activate_catalog [of res ctx keys mode s c] ensure_all_next [of hx c res None] by fastforce

section \<open>Skills that may be active\<close>

definition active_ok :: "catalog \<Rightarrow> provider_skill_key \<Rightarrow> bool" where
  "active_ok c k \<longleftrightarrow> body_of c k \<noteq> None
     \<and> (\<exists>idx. GetIndex k c = Some idx \<and> idx_insert idx = SkillInsertInstructions)"

lemma active_ok_entry:
  "active_ok c k \<longleftrightarrow> (\<exists>e. map_of (by_key c) k = Some e \<and> body_loaded e
     \<and> idx_insert (e_idx e) = SkillInsertInstructions)"
  by (auto simp: active_ok_def body_of_def GetIndex_def simp del: map_of_eq_Some_iff
      split: option.splits)

lemma active_ok_kept: "catalog_kept c c' \<Longrightarrow> active_ok c k \<Longrightarrow> active_ok c' k"
  using kept_lookups(2) [of c c' k] body_of_kept [of c c' k] by (fastforce simp: active_ok_def)

lemma active_ok_next: "catalog_next hx c c' \<Longrightarrow> active_ok c k \<Longrightarrow> active_ok c' k"
  by (blast dest: catalog_nextD active_ok_kept)

lemma active_ok_Add:
  assumes "active_ok c k"
  shows "active_ok (snd (Add hx res ctx d c)) k"
proof (cases "fst (Add hx res ctx d c)")
  case (Inl e)
  with Add_Inl [OF this] assms show ?thesis by simp
next
  case (Inr rec)
  then have "Add hx res ctx d c = (Inr rec, snd (Add hx res ctx d c))" by (metis prod.collapse)
  then obtain idx where idx: "map_of (by_key c) (idx_key idx) = None"
    "snd (Add hx res ctx d c) = recomputeLLMNamesLocked hx (c\<lparr>by_key := AList.update (idx_key idx)
        \<lparr>e_def = d, e_idx = idx, body_loaded = (idx_skill_body idx \<noteq> []), llm_name = [],
         body_wait = None, body_err = None\<rparr> (by_key c),
        by_def := AList.update d (idx_key idx) (by_def c)\<rparr>)"
    by (rule Add_Inr)
  from assms idx(1) show ?thesis
    unfolding idx(2) active_ok_entry by (auto simp: map_of_assign_names simp del: map_of_eq_Some_iff)
qed

lemma by_key_close_wait [simp]: "by_key (close_wait e c) = by_key c" "by_def (close_wait e c) = by_def c"
  by (simp_all add: close_wait_def split: option.splits)

lemma map_of_Remove:
  assumes "Remove hx d c = (Some (rec, canon), c')"
  shows "map_of (by_key c') k = (if k = canon then None
     else map_option (\<lambda>e. e\<lparr>llm_name := final_name hx (AList.delete canon (by_key c)) e\<rparr>) (map_of (by_key c) k))"
  using assms by (auto simp: Remove_def Let_def map_of_assign_names split: option.splits)

lemma by_key_Remove_None: "Remove hx d c = (None, c') \<Longrightarrow> by_key c' = by_key c"
  by (auto simp: Remove_def Let_def split: option.splits)

lemma active_ok_Remove:
  "Remove hx d c = (Some (rec, canon), c') \<Longrightarrow> active_ok c k \<Longrightarrow> k \<noteq> canon \<Longrightarrow> active_ok c' k"
  by (auto simp: active_ok_entry map_of_Remove simp del: map_of_eq_Some_iff)

lemma no_loads_Add: "no_loads c \<Longrightarrow> no_loads (snd (Add hx res ctx d c))"
proof (cases "fst (Add hx res ctx d c)")
  case (Inl e)
  then show "no_loads c \<Longrightarrow> ?thesis" by (simp add: Add_Inl)
next
  case (Inr rec)
  then have "Add hx res ctx d c = (Inr rec, snd (Add hx res ctx d c))" by (metis prod.collapse)
  then show "no_loads c \<Longrightarrow> ?thesis"
    by (rule Add_Inr) (auto simp: no_loads_def map_of_assign_names simp del: map_of_eq_Some_iff)
qed

lemma Remove_entry:
  assumes "map_of (by_key (snd (Remove hx d c))) k = Some e'"
  shows "\<exists>e. map_of (by_key c) k = Some e \<and> body_wait e' = body_wait e"
proof (cases "Remove hx d c")
  case (Pair r c')
  show ?thesis
  proof (cases r)
    case None
    with Pair assms by_key_Remove_None [of hx d c c'] show ?thesis by auto
  next
    case (Some x)
    with Pair assms map_of_Remove [of hx d c "fst x" "snd x" c' k] show ?thesis
      by (auto simp del: map_of_eq_Some_iff split: if_splits)
  qed
qed

lemma no_loads_Remove: "no_loads c \<Longrightarrow> no_loads (snd (Remove hx d c))"
  by (auto simp: no_loads_def simp del: map_of_eq_Some_iff dest!: Remove_entry)

lemma quiet_Add: "quiet_catalog hx c \<Longrightarrow> quiet_catalog hx (snd (Add hx res ctx d c))"
  by (simp add: quiet_catalog_def wf_Add no_loads_Add)

lemma quiet_Remove: "quiet_catalog hx c \<Longrightarrow> quiet_catalog hx (snd (Remove hx d c))"
  by (simp add: quiet_catalog_def wf_Remove no_loads_Remove)

section \<open>Every skill has a provider\<close>

definition types_known :: "(string \<times> provider) list \<Rightarrow> catalog \<Rightarrow> bool" where
  "types_known ps c \<longleftrightarrow> (\<forall>k. GetIndex k c \<noteq> None \<longrightarrow> key_type k \<in> fst ` set ps)"

lemma GetIndex_kept: "catalog_kept c c' \<Longrightarrow> GetIndex k c' = None \<longleftrightarrow> GetIndex k c = None"
  using kept_lookups(2) [of c c' k] by (metis map_option_is_None)

lemma types_known_next: "catalog_next hx c c' \<Longrightarrow> types_known ps c \<Longrightarrow> types_known ps c'"
  unfolding types_known_def using GetIndex_kept catalog_nextD by metis

lemma types_known_Add:
  assumes "types_known ps c"
  shows "types_known ps (snd (Add hx (map_of ps) ctx d c))"
proof (cases "fst (Add hx (map_of ps) ctx d c)")
  case (Inl e)
  with Add_Inl [OF this] assms show ?thesis by simp
next
  case (Inr rec)
  let ?c = "snd (Add hx (map_of ps) ctx d c)"
  from Inr have "Add hx (map_of ps) ctx d c = (Inr rec, ?c)" by (metis prod.collapse)
  then obtain idx where idx: "add_index (map_of ps) ctx d = Inr idx"
    "?c = recomputeLLMNamesLocked hx (c\<lparr>by_key := AList.update (idx_key idx)
        \<lparr>e_def = d, e_idx = idx, body_loaded = (idx_skill_body idx \<noteq> []), llm_name = [],
         body_wait = None, body_err = None\<rparr> (by_key c),
        by_def := AList.update d (idx_key idx) (by_def c)\<rparr>)"
    by (rule Add_Inr)
  have "map_of ps (def_type d) \<noteq> None" using idx(1) by (auto simp: add_index_def split: option.splits)
  then have "def_type d \<in> fst ` set ps" by (simp add: map_of_None_iff)
  moreover have "key_type (idx_key idx) = def_type d" using add_index_Inr [OF idx(1)] by simp
  ultimately show ?thesis
    using assms unfolding types_known_def idx(2) GetIndex_recompute by (auto simp: GetIndex_def)
qed

lemma types_known_Remove: "types_known ps c \<Longrightarrow> types_known ps (snd (Remove hx d c))"
  by (auto simp: types_known_def GetIndex_def simp del: map_of_eq_Some_iff dest!: Remove_entry)

section \<open>Active skills of the open sessions\<close>

definition session_ok :: "catalog \<Rightarrow> session \<Rightarrow> bool" where
  "session_ok c s \<longleftrightarrow> closed s \<or> (\<forall>k \<in> active_set s. active_ok c k)"

definition sessions_ok :: "catalog \<Rightarrow> store \<Rightarrow> bool" where
  "sessions_ok c st \<longleftrightarrow> (\<forall>p s. sessions st p = Some s \<longrightarrow> session_ok c s)"

lemma session_ok_mono:
  "session_ok c s \<Longrightarrow> (\<And>k. active_ok c k \<Longrightarrow> active_ok c' k) \<Longrightarrow> session_ok c' s"
  by (auto simp: session_ok_def)

lemma sessions_ok_mono:
  "sessions_ok c st \<Longrightarrow> (\<And>k. active_ok c k \<Longrightarrow> active_ok c' k) \<Longrightarrow> sessions_ok c' st"
  unfolding sessions_ok_def using session_ok_mono by blast

lemma sessions_ok_next: "catalog_next hx c c' \<Longrightarrow> sessions_ok c st \<Longrightarrow> sessions_ok c' st"
  using sessions_ok_mono active_ok_next by blast

lemma sessions_ok_objects:
  assumes "objects_kept st st'" "sessions_ok c st"
  shows "sessions_ok c st'"
  unfolding sessions_ok_def
proof (intro allI impI)
  fix p s' assume s': "sessions st' p = Some s'"
  with assms(1) obtain s where s: "sessions st p = Some s"
    by (cases "sessions st p") (auto simp: objects_kept_def)
  with objects_keptD [OF assms(1) s] s' obtain b where "s' = s\<lparr>closed := b\<rparr>" "closed s \<longrightarrow> b" by auto
  moreover have "session_ok c s" using assms(2) s by (simp add: sessions_ok_def)
  ultimately show "session_ok c s'" by (auto simp: session_ok_def)
qed

lemma sessions_ok_Get: "sessions_ok c st \<Longrightarrow> sessions_ok c (snd (Get now sid st))"
proof -
  have "objects_kept st (snd (Get now sid st))"
    by (auto simp: Get_def Let_def split: option.splits
        intro: objects_kept_trans [OF objects_kept_evictExpired objects_kept_delete]
          objects_kept_trans [OF objects_kept_evictExpired objects_kept_move])
  then show "sessions_ok c st \<Longrightarrow> ?thesis" by (rule sessions_ok_objects)
qed

lemma sessions_ok_Delete: "sessions_ok c st \<Longrightarrow> sessions_ok c (Delete sid st)"
  by (auto simp: Delete_def sessions_ok_objects [OF objects_kept_delete] split: option.splits)

lemma push_session_objects:
  assumes "push_session now sid n st = (p, st')" "sessions_ok c st"
  shows "sessions_ok c st'"
proof -
  let ?st = "st\<lparr>lru := (next_ptr st, now) # lru st, ids := (ids st)(sid \<mapsto> next_ptr st),
      sessions := (sessions st)(next_ptr st \<mapsto> newSession sid n), next_ptr := Suc (next_ptr st)\<rparr>"
  have "sessions_ok c ?st" using assms(2) by (simp add: sessions_ok_def session_ok_def)
  moreover have "st' = evictOverLimitLocked ?st" using assms(1) by (auto simp: push_session_def Let_def)
  ultimately show ?thesis using sessions_ok_objects [OF objects_kept_evictOverLimit] by simp
qed

lemma PruneSkill_session:
  assumes "wf_store st" "sessions (PruneSkill canon st) p = Some s'" "\<not> closed s'"
  shows "\<exists>s. sessions st p = Some s \<and> \<not> closed s \<and> active_set s' = active_set s - {canon}
    \<and> active_order s' = filter (\<lambda>k. k \<noteq> canon) (active_order s)"
proof -
  let ?ps = "filter (\<lambda>p. \<not> session_closed p st) (map fst (lru st))"
  have w: "wf_table st" using assms(1) by (simp add: wf_store_def)
  then have "distinct ?ps" using wf_tableD(3) by auto
  note after = prune_sessions [OF this, of canon st p]
  from assms(2) after obtain s where s: "sessions st p = Some s"
    "s' = (if p \<in> set ?ps then pruneKey canon s else s)"
    by (auto simp: PruneSkill_def split: if_splits)
  have "\<not> closed s" using assms(3) s(2) by (auto split: if_splits)
  moreover from this s(1) wf_tableD(6) [OF w s(1)] have "p \<in> set ?ps"
    by (auto simp: in_lru_def session_closed_def)
  ultimately show ?thesis
    using s pruneKey_open [of s canon] wf_tableD(6) [OF w s(1)] by simp
qed

lemma sessions_ok_Prune:
  assumes "wf_store st" "sessions_ok c st" "\<And>k. active_ok c k \<Longrightarrow> k \<noteq> canon \<Longrightarrow> active_ok c' k"
  shows "sessions_ok c' (PruneSkill canon st)"
  unfolding sessions_ok_def
proof (intro allI impI)
  fix p s' assume s': "sessions (PruneSkill canon st) p = Some s'"
  show "session_ok c' s'"
  proof (cases "closed s'")
    case False
    with PruneSkill_session [OF assms(1) s'] obtain s where
      "sessions st p = Some s" "\<not> closed s" "active_set s' = active_set s - {canon}" by blast
    with assms(2,3) show ?thesis by (fastforce simp: sessions_ok_def session_ok_def)
  qed (simp add: session_ok_def)
qed

section \<open>Calls on a session\<close>

text \<open>A method that leaves only usable skills active and does no more than load bodies.\<close>

definition safe_method ::
  "(string \<Rightarrow> string) \<Rightarrow> (session \<Rightarrow> catalog \<Rightarrow> 'r \<times> session \<times> catalog) \<Rightarrow> bool" where
  "safe_method hx f \<longleftrightarrow> session_method f \<and>
     (\<forall>s c r s' c'. quiet_catalog hx c \<longrightarrow> wf_session s \<longrightarrow> session_ok c s \<longrightarrow> f s c = (r, s', c') \<longrightarrow>
        catalog_next hx c c' \<and> session_ok c' s')"

lemma safe_method_shrink:
  assumes "session_method f"
    and "\<And>s c. wf_session s \<Longrightarrow> active_set (fst (snd (f s c))) \<subseteq> active_set s \<and> snd (snd (f s c)) = c"
  shows "safe_method hx f"
  unfolding safe_method_def
proof (intro conjI allI impI)
  fix s c r s' c'
  assume h: "quiet_catalog hx c" "wf_session s" "session_ok c s" "f s c = (r, s', c')"
  from assms(2) [OF h(2), of c] h(4) have "c' = c" "active_set s' \<subseteq> active_set s" by simp_all
  moreover have "closed s' = closed s" using session_methodD [OF assms(1) h(2), of c] h(4) by simp
  ultimately show "catalog_next hx c c'" "session_ok c' s'" using h(1,3) by (auto simp: session_ok_def)
qed (rule assms(1))

lemma safe_ActiveKeys:
  "safe_method hx (\<lambda>s c. case ActiveKeys ops ctx c s of (r, s1) \<Rightarrow> (r, s1, c))"
  by (rule safe_method_shrink [OF session_method_ActiveKeys]) (simp add: ActiveKeys_subset split_beta)

lemma safe_toolUnload:
  "safe_method hx (\<lambda>s c. case toolUnload (catalog_interface res) ctx args c s of (r, s1) \<Rightarrow> (r, s1, c))"
  by (rule safe_method_shrink [OF session_method_toolUnload]) (simp add: toolUnload_shrinks split_beta)

lemma safe_read_only: "safe_method hx (\<lambda>s c. (g s c, s, c))"
  by (rule safe_method_shrink) (simp_all add: session_method_def)

lemma active_ok_wf:
  assumes "wf_catalog hx c" "body_of c k \<noteq> None" "GetIndex k c = Some idx"
    and "fst (NormalizeSkillInsert (idx_insert idx)) = SkillInsertInstructions"
  shows "active_ok c k"
proof -
  from assms(3) obtain e where e: "map_of (by_key c) k = Some e" "idx = e_idx e"
    by (auto simp: GetIndex_def simp del: map_of_eq_Some_iff)
  with wf_catalogD(3) [OF assms(1) e(1)] assms show ?thesis
    by (auto simp: active_ok_def wf_entry_def)
qed

lemma safe_ActivateKeys: "safe_method hx (ActivateKeys (catalog_interface res) alone ctx keys mode)"
  unfolding safe_method_def
proof (intro conjI allI impI)
  fix s c r s' c'
  assume h: "quiet_catalog hx c" "wf_session s" "session_ok c s"
    and call: "ActivateKeys (catalog_interface res) alone ctx keys mode s c = (r, s', c')"
  have wf: "wf_catalog hx c" using h(1) by (simp add: quiet_catalog_def)
  from ActivateKeys_next [OF h(1), of res ctx keys mode s] call have n: "catalog_next hx c c'" by simp
  then show "catalog_next hx c c'" .
  show "session_ok c' s'"
  proof (cases r)
    case (Inl e)
    with call ActivateKeys_Inl [of "catalog_interface res" ctx keys mode s c e s' c'] have "s' = s" by simp
    then show ?thesis using session_ok_mono [OF h(3)] active_ok_next [OF n] by simp
  next
    case (Inr hs)
    note a = cat.activate_alone [OF wf call [unfolded Inr]]
    then have wf': "wf_catalog hx c'" by simp
    have open_: "\<not> closed s" using call Inr by (auto elim!: ActivateKeys_Inr)
    have "active_ok c' k" if k: "k \<in> active_set s'" for k
    proof (cases "k \<in> set keys")
      case True
      from a k have "body_of c' k \<noteq> None" by simp
      moreover from a True obtain idx where "GetIndex k c' = Some idx"
        "fst (NormalizeSkillInsert (idx_insert idx)) = SkillInsertInstructions"
        by (auto simp: catalog_interface_def)
      ultimately show ?thesis using wf' active_ok_wf by blast
    next
      case False
      with a k have "k \<in> active_set s" by (auto simp: next_order_def split: if_splits)
      with h(3) open_ show ?thesis using active_ok_next [OF n] by (auto simp: session_ok_def)
    qed
    then show ?thesis by (simp add: session_ok_def)
  qed
qed (rule session_method_ActivateKeys)

lemma safe_toolLoad: "safe_method hx (toolLoad (catalog_interface res) alone ctx args)"
  unfolding safe_method_def
proof (intro conjI allI impI)
  fix s c r s' c'
  assume h: "quiet_catalog hx c" "wf_session s" "session_ok c s"
    and call: "toolLoad (catalog_interface res) alone ctx args s c = (r, s', c')"
  have "(s' = s \<and> c' = c) \<or> (\<exists>ks m. ActivateKeys (catalog_interface res) alone ctx ks m s c = (r, s', c'))"
    using call by (auto simp: toolLoad_def Let_def split: option.splits if_splits sum.splits)
  then have "catalog_next hx c c' \<and> session_ok c' s'"
    using h safe_ActivateKeys [of hx res ctx] unfolding safe_method_def by fastforce
  then show "catalog_next hx c c'" "session_ok c' s'" by simp_all
qed (rule session_method_toolLoad)

lemma call_session_ok:
  assumes "wf_store st" "sessions st p \<noteq> None" "safe_method hx f" "quiet_catalog hx c" "sessions_ok c st"
    and call: "call_session now ctx p f st c = (r, st', c')"
  shows "wf_store st' \<and> catalog_next hx c c' \<and> sessions_ok c' st'"
proof -
  define st1 where "st1 = (case ctx of Some e \<Rightarrow> st | None \<Rightarrow> touch now (s_id (the (sessions st p))) st)"
  have kept: "objects_kept st st1" by (simp add: st1_def objects_kept_touch split: option.splits)
  have wf1: "wf_store st1" using assms(1) by (simp add: st1_def wf_touch split: option.splits)
  from assms(2) kept obtain s where s: "sessions st1 p = Some s" by (auto dest!: objects_keptD)
  have ok1: "sessions_ok c st1" using kept assms(5) by (rule sessions_ok_objects)
  then have "session_ok c s" using s by (simp add: sessions_ok_def)
  moreover have "wf_session s" using wf1 s wf_tableD(6) by (auto simp: wf_store_def)
  moreover obtain s2 where f: "f s c = (r, s2, c')" "st' = st1\<lparr>sessions := (sessions st1)(p \<mapsto> s2)\<rparr>"
    using call s by (auto simp: call_session_def simp flip: st1_def split: prod.splits)
  ultimately have out: "catalog_next hx c c'" "session_ok c' s2"
    using assms(3,4) unfolding safe_method_def by blast+
  have "sessions_ok c' st1" using out(1) ok1 by (rule sessions_ok_next)
  then have "sessions_ok c' st'" using f(2) out(2) by (simp add: sessions_ok_def)
  moreover have "session_method f" using assms(3) by (simp add: safe_method_def)
  from wf_call_session [OF assms(1,2) this, of now ctx c] call have "wf_store st'" by simp
  ultimately show ?thesis using out by simp
qed

section \<open>The invariant and the steps\<close>

definition wf_providers :: "(string \<times> provider) list \<Rightarrow> bool" where
  "wf_providers ps \<longleftrightarrow> keys_distinct ps \<and> (\<forall>(t, p) \<in> set ps. t \<noteq> [] \<and> p_type p = t)"

definition wf_runtime :: "(string \<Rightarrow> string) \<Rightarrow> runtime \<Rightarrow> bool" where
  "wf_runtime hx rt \<longleftrightarrow> wf_providers (rt_providers rt)
     \<and> quiet_catalog hx (rt_catalog rt) \<and> types_known (rt_providers rt) (rt_catalog rt)
     \<and> wf_store (rt_sessions rt) \<and> sessions_ok (rt_catalog rt) (rt_sessions rt)"

lemma wf_runtimeD:
  assumes "wf_runtime hx rt"
  shows "wf_providers (rt_providers rt)" "quiet_catalog hx (rt_catalog rt)"
    "wf_catalog hx (rt_catalog rt)" "no_loads (rt_catalog rt)"
    "types_known (rt_providers rt) (rt_catalog rt)"
    "wf_store (rt_sessions rt)" "sessions_ok (rt_catalog rt) (rt_sessions rt)"
  using assms by (simp_all add: wf_runtime_def quiet_catalog_def)

text \<open>
  One step: a call of the API, a tool call on a session object a caller holds, or a change of
  the providers' methods. The identifier of a new session is one that is not in use.
\<close>

inductive runtime_step :: "(string \<Rightarrow> string) \<Rightarrow> runtime \<Rightarrow> runtime \<Rightarrow> bool" for hx where
  step_add: "runtime_step hx rt (snd (AddSkill hx octx d rt))"
| step_remove: "runtime_step hx rt (snd (RemoveSkill hx octx d rt))"
| step_list: "runtime_step hx rt (snd (ListSkills now now' octx lf rt))"
| step_new_session: "(\<And>sid. uuid = Inr sid \<Longrightarrow> ids (rt_sessions rt) sid = None) \<Longrightarrow>
    runtime_step hx rt (snd (NewSession now octx uuid opts rt))"
| step_close: "runtime_step hx rt (snd (CloseSession octx sid rt))"
| step_registry: "runtime_step hx rt (snd (NewSessionRegistry now octx sid rt))"
| step_prompt: "runtime_step hx rt (snd (SkillsPrompt now now' octx pf rt))"
| step_render: "runtime_step hx rt (snd (RenderSkill octx d args rt))"
| step_load: "sessions (rt_sessions rt) p \<noteq> None \<Longrightarrow> runtime_step hx rt (snd (skills_load now ctx p la rt))"
| step_unload: "sessions (rt_sessions rt) p \<noteq> None \<Longrightarrow> runtime_step hx rt (snd (skills_unload now ctx p ua rt))"
| step_read: "sessions (rt_sessions rt) p \<noteq> None \<Longrightarrow> runtime_step hx rt (snd (skills_read now ctx p ra rt))"
| step_run: "sessions (rt_sessions rt) p \<noteq> None \<Longrightarrow> runtime_step hx rt (snd (skills_run now ctx p sa rt))"
| step_world: "map fst ps = map fst (rt_providers rt) \<Longrightarrow> \<forall>(t, p) \<in> set ps. p_type p = t \<Longrightarrow>
    runtime_step hx rt (rt\<lparr>rt_providers := ps\<rparr>)"

inductive_cases runtime_stepE: "runtime_step hx rt rt'"

section \<open>Every step keeps the invariant\<close>

lemma wf_runtime_next:
  assumes "wf_runtime hx rt" "catalog_next hx (rt_catalog rt) c" "wf_store st" "sessions_ok c st"
  shows "wf_runtime hx (rt\<lparr>rt_sessions := st, rt_catalog := c\<rparr>)"
  using assms catalog_nextD [OF assms(2)] types_known_next [OF assms(2)]
  by (simp add: wf_runtime_def)

lemma wf_runtime_catalog:
  assumes "wf_runtime hx rt" "catalog_next hx (rt_catalog rt) c"
  shows "wf_runtime hx (rt\<lparr>rt_catalog := c\<rparr>)"
  using wf_runtime_next [OF assms wf_runtimeD(6) [OF assms(1)]
      sessions_ok_next [OF assms(2) wf_runtimeD(7) [OF assms(1)]]] by simp

lemma wf_runtime_store:
  assumes "wf_runtime hx rt" "wf_store st" "sessions_ok (rt_catalog rt) st"
  shows "wf_runtime hx (rt\<lparr>rt_sessions := st\<rparr>)"
  using assms by (simp add: wf_runtime_def)

lemma wf_AddSkill: "wf_runtime hx rt \<Longrightarrow> wf_runtime hx (snd (AddSkill hx octx d rt))"
proof -
  assume rt: "wf_runtime hx rt"
  have "wf_runtime hx (rt\<lparr>rt_catalog := snd (Add hx (map_of (rt_providers rt)) ctx d (rt_catalog rt))\<rparr>)" for ctx
    using rt sessions_ok_mono [OF wf_runtimeD(7) [OF rt] active_ok_Add]
    by (simp add: wf_runtime_def quiet_Add types_known_Add)
  with rt show ?thesis
    by (auto simp: AddSkill_def providerResolver_def split_beta split: sum.splits)
qed

lemma wf_RemoveSkill: "wf_runtime hx rt \<Longrightarrow> wf_runtime hx (snd (RemoveSkill hx octx d rt))"
proof -
  assume rt: "wf_runtime hx rt"
  obtain r c where rem: "Remove hx d (rt_catalog rt) = (r, c)" by fastforce
  have c: "quiet_catalog hx c" "types_known (rt_providers rt) c"
    using quiet_Remove [OF wf_runtimeD(2) [OF rt], of d] types_known_Remove [OF wf_runtimeD(5) [OF rt], of hx d]
      rem by simp_all
  have "wf_runtime hx (rt\<lparr>rt_catalog := c\<rparr>)" if "r = None"
  proof -
    have "by_key c = by_key (rt_catalog rt)" using rem that by (simp add: by_key_Remove_None)
    then have "active_ok (rt_catalog rt) k \<Longrightarrow> active_ok c k" for k by (simp add: active_ok_entry)
    then have "sessions_ok c (rt_sessions rt)" using wf_runtimeD(7) [OF rt] sessions_ok_mono by blast
    with rt c show ?thesis by (simp add: wf_runtime_def)
  qed
  moreover have "wf_runtime hx (rt\<lparr>rt_catalog := c, rt_sessions := PruneSkill canon (rt_sessions rt)\<rparr>)"
    if "r = Some (rec, canon)" for rec canon
  proof -
    have "active_ok (rt_catalog rt) k \<Longrightarrow> k \<noteq> canon \<Longrightarrow> active_ok c k" for k
      using active_ok_Remove rem that by blast
    then have "sessions_ok c (PruneSkill canon (rt_sessions rt))"
      using sessions_ok_Prune wf_runtimeD(6,7) [OF rt] by blast
    with rt c show ?thesis by (simp add: wf_runtime_def wf_PruneSkill)
  qed
  ultimately show ?thesis
    using rt rem by (auto simp: RemoveSkill_def split: sum.splits option.splits)
qed

lemma wf_runtime_Get: "wf_runtime hx rt \<Longrightarrow> wf_runtime hx (rt\<lparr>rt_sessions := snd (Get now sid (rt_sessions rt))\<rparr>)"
  using wf_runtime_store wf_runtimeD(6,7) wf_Get sessions_ok_Get by blast

lemma Get_object: "wf_store st \<Longrightarrow> Get now sid st = (Some p, st') \<Longrightarrow> sessions st' p \<noteq> None"
proof -
  assume wf: "wf_store st" and g: "Get now sid st = (Some p, st')"
  from g have "ids (evictExpiredLocked now st) sid = Some p"
    "sessions st' = sessions (evictExpiredLocked now st)"
    by (auto simp: Get_def Let_def move_to_front_def split: option.splits if_splits)
  with wf_tableD(5) [of "evictExpiredLocked now st" sid p] wf_evictExpired [OF wf, of now]
  show ?thesis by (auto simp: wf_store_def)
qed

lemma call_session_runtime:
  assumes "wf_runtime hx rt" "sessions (rt_sessions rt) p \<noteq> None" "safe_method hx f"
    and "call_session now ctx p f (rt_sessions rt) (rt_catalog rt) = (r, st, c)"
  shows "wf_runtime hx (rt\<lparr>rt_sessions := st, rt_catalog := c\<rparr>)"
  using call_session_ok [OF wf_runtimeD(6) [OF assms(1)] assms(2,3) wf_runtimeD(2,7) [OF assms(1)] assms(4)]
    wf_runtime_next [OF assms(1)] by blast

lemma wf_on_session:
  "wf_runtime hx rt \<Longrightarrow> sessions (rt_sessions rt) p \<noteq> None \<Longrightarrow> safe_method hx f \<Longrightarrow>
     wf_runtime hx (snd (on_session now ctx p f rt))"
  using call_session_runtime [of hx rt p f now ctx] by (simp add: on_session_def split: prod.split)

lemma wf_session_keys:
  assumes "wf_runtime hx rt"
  shows "wf_runtime hx (snd (session_keys now now' ctx sid rt))"
proof (cases "Get now sid (rt_sessions rt)")
  case (Pair po st)
  note g = wf_runtime_Get [OF assms, of now sid]
  show ?thesis
  proof (cases po)
    case None
    with Pair g show ?thesis by (simp add: session_keys_def)
  next
    case (Some p)
    with Get_object [OF wf_runtimeD(6) [OF assms]] Pair have p: "sessions st p \<noteq> None" by blast
    have "wf_runtime hx (rt\<lparr>rt_sessions := st'', rt_catalog := c''\<rparr>)"
      if "store_ActiveKeys ops now' ctx p st (rt_catalog rt) = (r, st'', c'')" for ops r st'' c''
      using call_session_runtime [of hx "rt\<lparr>rt_sessions := st\<rparr>" p] g p Pair that
        safe_ActiveKeys [of hx ops ctx] by (simp add: store_ActiveKeys_def)
    with Pair Some show ?thesis by (auto simp: session_keys_def split: prod.split)
  qed
qed

lemma session_keys_providers [simp]:
  "rt_providers (snd (session_keys now now' ctx sid rt)) = rt_providers rt"
  by (simp add: session_keys_def split: prod.split option.split)

lemma wf_ListSkills: "wf_runtime hx rt \<Longrightarrow> wf_runtime hx (snd (ListSkills now now' octx lf rt))"
  using wf_session_keys [of hx rt now now' "the octx" "lf_session_id (normalizeSkillListFilter lf)"]
  by (auto simp: ListSkills_def Let_def split: sum.splits prod.splits)

lemma wf_NewSession_runtime:
  assumes "wf_runtime hx rt" "\<And>sid. uuid = Inr sid \<Longrightarrow> ids (rt_sessions rt) sid = None"
  shows "wf_runtime hx (snd (NewSession now octx uuid opts rt))"
proof -
  have "wf_store st \<and> catalog_next hx (rt_catalog rt) c \<and> sessions_ok c st"
    if call: "Store.NewSession (catalog_interface res) now octx uuid n keys (rt_sessions rt) (rt_catalog rt) = (r, st, c)"
    for r st c res n keys
  proof -
    have wf: "wf_store st"
      using wf_NewSession [where uuid = uuid, OF wf_runtimeD(6) [OF assms(1)] assms(2),
          where ops = "catalog_interface res" and now = now and octx = octx and n = n and keys = keys
          and c = "rt_catalog rt"] call by simp
    let ?st = "evictExpiredLocked now (rt_sessions rt)"
    note q = wf_runtimeD(2) [OF assms(1)]
    have e: "wf_store ?st" "sessions_ok (rt_catalog rt) ?st"
      using wf_evictExpired [OF wf_runtimeD(6) [OF assms(1)]]
        sessions_ok_objects [OF objects_kept_evictExpired wf_runtimeD(7) [OF assms(1)]] by simp_all
    show ?thesis
    proof (cases "\<exists>sid. octx = Some None \<and> uuid = Inr sid")
      case False
      with call have "st \<in> {rt_sessions rt, ?st} \<and> c = rt_catalog rt"
        by (auto simp: NewSession_def Store.NewSession_def evictOverLimit_id [OF e(1)] Let_def
            split: option.splits sum.splits)
      with wf e wf_runtimeD(7) [OF assms(1)] q show ?thesis by auto
    next
      case True
      then obtain sid where t: "octx = Some None" "uuid = Inr sid" by blast
      have new: "ids ?st sid = None"
        using assms(2) [OF t(2)] ids_shrink_evictExpired by (simp add: ids_shrink_def)
      let ?n = "if 0 < n then n else cfg_max_active ?st"
      obtain p st1 where push: "push_session now sid ?n ?st = (p, st1)" by fastforce
      note ps = push_session_effect [OF e(1) new push] push_session_objects [OF push e(2)]
      obtain r2 st2 c2 where act:
        "store_ActivateKeys (catalog_interface res) now None p keys LoadModeReplace st1 (rt_catalog rt) = (r2, st2, c2)"
        by (metis prod.collapse)
      have p: "wf_store st1" "sessions st1 p \<noteq> None" using ps(1) by auto
      have a: "wf_store st2 \<and> catalog_next hx (rt_catalog rt) c2 \<and> sessions_ok c2 st2"
        by (rule call_session_ok [OF p safe_ActivateKeys q ps(2) act [unfolded store_ActivateKeys_def]])
      from call t push act have "(st = st1 \<and> c = rt_catalog rt) \<or> (c = c2 \<and> st \<in> {st2, Delete sid st2})"
        by (auto simp: Store.NewSession_def evictOverLimit_id [OF e(1)] Let_def split: sum.splits if_splits)
      with wf a ps q show ?thesis by (auto intro: sessions_ok_Delete)
    qed
  qed
  with wf_runtime_next [OF assms(1)] assms(1) show ?thesis
    by (auto simp: NewSession_def split: sum.splits prod.splits)
qed

lemma wf_CloseSession: "wf_runtime hx rt \<Longrightarrow> wf_runtime hx (snd (CloseSession octx sid rt))"
  using wf_runtime_store [OF _ wf_Delete [OF wf_runtimeD(6)] sessions_ok_Delete [OF wf_runtimeD(7)]]
  by (auto simp: CloseSession_def split: sum.splits)

lemma wf_NewSessionRegistry: "wf_runtime hx rt \<Longrightarrow> wf_runtime hx (snd (NewSessionRegistry now octx sid rt))"
  using wf_runtime_Get [of hx rt now sid]
  by (auto simp: NewSessionRegistry_def split: sum.splits prod.splits option.splits)

lemma active_items_next:
  "quiet_catalog hx c \<Longrightarrow> catalog_next hx c (snd (active_items res ctx filtered ks c))"
proof (induction ks arbitrary: c)
  case (Cons k ks)
  obtain r c1 where e: "EnsureBody res ctx k c = (r, c1)" by fastforce
  with EnsureBody_next [OF Cons.prems, of res ctx k] have n: "catalog_next hx c c1" by simp
  obtain r2 c2 where rest: "active_items res ctx filtered ks c1 = (r2, c2)" by fastforce
  with Cons.IH [of c1] n have "catalog_next hx c1 c2" by (auto dest: catalog_nextD)
  then have "catalog_next hx c c2" using n by (rule catalog_next_trans [rotated])
  with n Cons.IH [OF Cons.prems] e rest show ?case by (auto split: option.split sum.split)
qed simp

lemma wf_SkillsPrompt: "wf_runtime hx rt \<Longrightarrow> wf_runtime hx (snd (SkillsPrompt now now' octx f rt))"
proof -
  assume rt: "wf_runtime hx rt"
  let ?cfg = "normalizeSkillsPromptFilter f"
  obtain r rt1 where k: "(if sf_session_id ?cfg = [] then (Inr [], rt)
      else session_keys now now' (the octx) (sf_session_id ?cfg) rt) = (r, rt1)" by fastforce
  have rt1: "wf_runtime hx rt1"
    using k rt wf_session_keys [OF rt, of now now' "the octx" "sf_session_id ?cfg"]
    by (auto split: if_splits)
  let ?records = "ListPromptIndexRecords (toCatalogPromptFilter (Some ?cfg)) (rt_catalog rt)"
  have inner: "wf_runtime hx (rt1\<lparr>rt_catalog := c\<rparr>)"
    if "(if b then active_items res ctx ks keys (rt_catalog rt1) else (Inr [], rt_catalog rt1)) = (x, c)"
    for b res ctx ks keys x c
    using that active_items_next [OF wf_runtimeD(2) [OF rt1], of res ctx ks keys]
      catalog_next_refl [OF wf_runtimeD(2) [OF rt1]]
    by (intro wf_runtime_catalog [OF rt1]) (auto split: if_splits)
  show ?thesis
  proof (cases "check_context octx")
    case (Inl e)
    with rt show ?thesis by (simp only: SkillsPrompt_def Inl sum.case snd_conv)
  next
    case ctx: (Inr u)
    show ?thesis
    proof (cases "check_activity (sf_activity ?cfg) (sf_session_id ?cfg)")
      case (Inl e)
      with rt show ?thesis by (simp only: SkillsPrompt_def Let_def ctx Inl sum.case snd_conv)
    next
      case act: (Inr v)
      show ?thesis
      proof (cases r)
        case (Inl e)
        with rt1 show ?thesis
          by (simp only: SkillsPrompt_def Let_def ctx act k Inl sum.case prod.case snd_conv)
      next
        case (Inr keys)
        obtain x c where xc: "(if (sf_activity ?cfg = SkillActivityAny \<or> sf_activity ?cfg = SkillActivityActive)
          \<and> sf_session_id ?cfg \<noteq> []
        then active_items (providerResolver rt1) (the octx) (map idx_key ?records) keys (rt_catalog rt1)
        else (Inr [], rt_catalog rt1)) = (x, c)" by fastforce
        from inner [OF xc] show ?thesis
          by (cases x) (simp_all only: SkillsPrompt_def Let_def ctx act k Inr xc sum.case prod.case snd_conv)
      qed
    qed
  qed
qed

lemma wf_RenderSkill: "wf_runtime hx rt \<Longrightarrow> wf_runtime hx (snd (RenderSkill octx d args rt))"
proof -
  assume rt: "wf_runtime hx rt"
  have "wf_runtime hx (rt\<lparr>rt_catalog := snd (EnsureBody res ctx k (rt_catalog rt))\<rparr>)" for res ctx k
    by (rule wf_runtime_catalog [OF rt EnsureBody_next [OF wf_runtimeD(2) [OF rt]]])
  with rt show ?thesis
    by (simp add: RenderSkill_def Let_def split_beta split: sum.split option.split)
qed

lemma wf_world:
  assumes "wf_runtime hx rt" "map fst ps = map fst (rt_providers rt)" "\<forall>(t, p) \<in> set ps. p_type p = t"
  shows "wf_runtime hx (rt\<lparr>rt_providers := ps\<rparr>)"
proof -
  have same: "fst ` set ps = fst ` set (rt_providers rt)" using assms(2) by (metis set_map)
  have old: "keys_distinct (rt_providers rt)" "\<forall>t \<in> fst ` set (rt_providers rt). t \<noteq> []"
    using wf_runtimeD(1) [OF assms(1)] by (auto simp: wf_providers_def)
  have "wf_providers ps"
    unfolding wf_providers_def
  proof (intro conjI ballI)
    show "keys_distinct ps" using old(1) assms(2) by simp
    fix x assume x: "x \<in> set ps"
    then have "fst x \<noteq> []" using old(2) same by blast
    with x assms(3) show "case x of (t, p) \<Rightarrow> t \<noteq> [] \<and> p_type p = t" by auto
  qed
  with same wf_runtimeD [OF assms(1)] show ?thesis
    by (simp add: wf_runtime_def types_known_def)
qed

lemma wf_tools:
  assumes "wf_runtime hx rt" "sessions (rt_sessions rt) p \<noteq> None"
  shows "wf_runtime hx (snd (skills_load now ctx p la rt))" "wf_runtime hx (snd (skills_unload now ctx p ua rt))"
    "wf_runtime hx (snd (skills_read now ctx p ra rt))" "wf_runtime hx (snd (skills_run now ctx p sa rt))"
  unfolding skills_load_def skills_unload_def skills_read_def skills_run_def
  by (rule wf_on_session [OF assms], rule safe_toolLoad safe_toolUnload safe_read_only)+

lemma wf_runtime_step:
  assumes "wf_runtime hx rt" "runtime_step hx rt rt'"
  shows "wf_runtime hx rt'"
  using assms(2)
proof cases
  case (step_new_session uuid now octx opts)
  then show ?thesis using wf_NewSession_runtime [OF assms(1)] by blast
next
  case step_world
  then show ?thesis using wf_world [OF assms(1)] by blast
qed (use assms(1) in \<open>simp_all only: wf_AddSkill wf_RemoveSkill wf_ListSkills wf_CloseSession
    wf_NewSessionRegistry wf_SkillsPrompt wf_RenderSkill wf_tools not_False_eq_True\<close>)

section \<open>A session survives a touch at the time of its last use\<close>

lemma expire_from_back_keeps:
  "(\<And>t. (p, t) \<in> set pend \<Longrightarrow> time_sub now t \<le> ttl st) \<Longrightarrow> in_lru st p \<Longrightarrow>
     in_lru (expire_from_back now pend st) p"
proof (induction now pend st rule: expire_from_back.induct)
  case (2 now q t rest st)
  then show ?case by (cases "q = p") (auto simp: not_le)
qed simp

lemma touch_fresh:
  assumes wf: "wf_store st" and s: "sessions st p = Some s" "s_id s = sid" and p: "(p, now) \<in> set (lru st)"
  shows "sessions (touch now sid st) p = Some s \<and> ids (touch now sid st) sid = Some p \<and> \<not> closed s
    \<and> hd (lru (touch now sid st)) = (p, now)"
proof -
  let ?e = "evictExpiredLocked now st"
  have w: "wf_table st" using wf by (simp add: wf_store_def)
  have "0 < ttl st" using wf_tableD(1) [OF w] .
  then have fresh: "time_sub now now \<le> ttl st" by (simp add: time_sub_def)
  have in_lru: "in_lru st p" using p by (force simp: in_lru_def)
  have "t = now" if "(p, t) \<in> set (rev (lru st))" for t
    using that p wf_tableD(3) [OF w] by (auto dest: eq_key_imp_eq_value)
  with fresh have "in_lru ?e p"
    unfolding evictExpiredLocked_def using in_lru expire_from_back_keeps [of p "rev (lru st)" now st] by auto
  moreover have we: "wf_table ?e" using wf_evictExpired [OF wf] by (simp add: wf_store_def)
  ultimately obtain s' where s': "sessions ?e p = Some s'" "\<not> closed s'" "ids ?e (s_id s') = Some p"
    using wf_tableD(4) by blast
  from objects_keptD [OF objects_kept_evictExpired s(1), of now] s' obtain b where
    b: "s' = s\<lparr>closed := b\<rparr>" "closed s \<longrightarrow> b" by auto
  with s'(2) have "\<not> closed s" "s' = s" by auto
  with s' s(2) have "touch now sid st = move_to_front now p ?e"
    by (simp add: touch_def session_closed_def)
  with s' s(2) \<open>s' = s\<close> \<open>\<not> closed s\<close> show ?thesis by (simp add: move_to_front_def)
qed

lemma evictExpired_cfg: "cfg_max_active (evictExpiredLocked now st) = cfg_max_active st"
proof -
  have "cfg_max_active (expire_from_back now ps s) = cfg_max_active s" for ps s
    by (induction now ps s rule: expire_from_back.induct) auto
  then show ?thesis by (simp add: evictExpiredLocked_def)
qed

lemma Delete_forgets: "wf_store st \<Longrightarrow> ids (Delete sid st) sid = None"
  using wf_tableD(5) [of st sid]
  by (auto simp: Delete_def deleteElemLocked_def wf_store_def split: option.splits)

lemma resolve_defs_Inr:
  "resolve_defs c ds seen = Inr ks \<Longrightarrow>
     map Some ks = map (\<lambda>d. ResolveDef d c) ds \<and> distinct ds \<and> set ds \<inter> seen = {}"
proof (induction ds arbitrary: seen ks)
  case (Cons d ds)
  from Cons.prems obtain k ks' where k: "d \<notin> seen" "ResolveDef d c = Some k" "ks = k # ks'"
    "resolve_defs c ds (insert d seen) = Inr ks'" by (auto split: if_splits option.splits)
  with Cons.IH [OF k(4)] show ?case by auto
qed simp

lemma resolved_keys_distinct:
  assumes "wf_catalog hx c" "map Some ks = map (\<lambda>d. ResolveDef d c) ds" "distinct ds"
  shows "distinct ks"
proof -
  have inj: "d = d'" if "ResolveDef d c = Some k" "ResolveDef d' c = Some k" for d d' k
    using that wf_catalogD(7) [OF assms(1)] unfolding ResolveDef_def by (metis option.inject)
  have "inj_on (\<lambda>d. ResolveDef d c) (set ds)"
  proof (rule inj_onI)
    fix d d' assume d: "d \<in> set ds" and eq: "ResolveDef d c = ResolveDef d' c"
    have "ResolveDef d c \<in> Some ` set ks" using d assms(2) by (metis imageI set_map)
    then obtain k where "ResolveDef d c = Some k" by blast
    then show "d = d'" using inj eq by metis
  qed
  then have "distinct (map Some ks)" unfolding assms(2) using assms(3) by (simp add: distinct_map)
  then show ?thesis by (simp add: distinct_map)
qed

text \<open>The activation that creating a session ends with, on the session just pushed.\<close>

lemma activate_new_session:
  assumes wf: "wf_store st" "quiet_catalog hx c"
    and s: "sessions st p = Some (newSession sid n)" and p: "(p, now) \<in> set (lru st)"
    and "distinct keys"
    and act: "store_ActivateKeys (catalog_interface res) now None p keys LoadModeReplace st c = (Inr hs, st', c')"
  shows "\<exists>s'. ids st' sid = Some p \<and> sessions st' p = Some s' \<and> \<not> closed s' \<and> s_id s' = sid
    \<and> max_active s' = n \<and> active_order s' = keys \<and> hd (lru st') = (p, now)
    \<and> (\<forall>k \<in> set keys. body_of c' k \<noteq> None)"
proof -
  let ?st = "touch now sid st"
  have touched: "sessions ?st p = Some (newSession sid n)" "ids ?st sid = Some p" "hd (lru ?st) = (p, now)"
    using touch_fresh [OF wf(1) s _ p] by simp_all
  obtain s' where call: "ActivateKeys (catalog_interface res) alone None keys LoadModeReplace (newSession sid n) c
      = (Inr hs, s', c')" and st': "st' = ?st\<lparr>sessions := (sessions ?st)(p \<mapsto> s')\<rparr>"
    using act s touched(1) by (auto simp: store_ActivateKeys_def call_session_def Let_def split: prod.splits)
  have "wf_catalog hx c" using wf(2) by (simp add: quiet_catalog_def)
  note a = cat.activate_alone [OF this call]
  have "load_mode LoadModeReplace = LoadModeReplace" by code_simp
  then have order: "next_order (load_mode LoadModeReplace) (dedup keys) (newSession sid n) = keys"
    using \<open>distinct keys\<close> by (simp add: next_order_def)
  from a [unfolded order] have "active_order s' = keys" "closed s' = False" "s_id s' = sid"
    "max_active s' = n" "\<forall>k \<in> set keys. body_of c' k \<noteq> None" by auto
  with touched show ?thesis by (simp add: st')
qed

lemma store_NewSession_effect:
  assumes wf: "wf_store st" "quiet_catalog hx c" and new: "\<forall>sid. uuid = Inr sid \<longrightarrow> ids st sid = None"
    and "distinct keys"
    and call: "Store.NewSession (catalog_interface res) now octx uuid n keys st c = (r, st', c')"
  shows "case r of
      Inl e \<Rightarrow> \<forall>sid. uuid = Inr sid \<longrightarrow> ids st' sid = None
    | Inr (sid, hs) \<Rightarrow> uuid = Inr sid \<and> (\<exists>p s. ids st' sid = Some p \<and> sessions st' p = Some s
        \<and> \<not> closed s \<and> s_id s = sid \<and> max_active s = (if 0 < n then n else cfg_max_active st)
        \<and> active_order s = keys \<and> hd (lru st') = (p, now) \<and> (\<forall>k \<in> set keys. body_of c' k \<noteq> None))"
proof (cases "\<exists>sid. octx = Some None \<and> uuid = Inr sid")
  case False
  with call new show ?thesis
    by (auto simp: Store.NewSession_def Let_def split: option.splits sum.splits)
next
  case True
  then obtain sid where t: "octx = Some None" "uuid = Inr sid" by blast
  let ?e = "evictExpiredLocked now st"
  have e: "wf_store ?e" using wf_evictExpired [OF wf(1)] .
  have free: "ids ?e sid = None"
    using new t ids_shrink_evictExpired [of st now] by (simp add: ids_shrink_def)
  have cfg: "cfg_max_active ?e = cfg_max_active st" by (rule evictExpired_cfg)
  let ?n = "if 0 < n then n else cfg_max_active st"
  obtain p st1 where push: "push_session now sid ?n ?e = (p, st1)" by fastforce
  note ps = push_session_effect [OF e free push]
  then have p: "(p, now) \<in> set (lru st1)" "sessions st1 p = Some (newSession sid ?n)" "wf_store st1"
    "hd (lru st1) = (p, now)" by (auto simp del: if_split)
  have ids1: "ids st1 sid = Some p"
    using p wf_tableD(4) [of st1 p] by (force simp: wf_store_def in_lru_def)
  obtain r2 st2 c2 where act:
    "store_ActivateKeys (catalog_interface res) now None p keys LoadModeReplace st1 c = (r2, st2, c2)"
    by (metis prod.collapse)
  have out: "(r, st', c') = (if keys = [] then (Inr (sid, []), st1, c)
      else (case r2 of Inl e \<Rightarrow> (Inl e, Delete sid st2, c2) | Inr hs \<Rightarrow> (Inr (sid, hs), st2, c2)))"
    using call t push act by (auto simp: Store.NewSession_def Let_def evictOverLimit_id [OF e] cfg cong: if_cong split: sum.splits if_split_asm)
  show ?thesis
  proof (cases "keys = []")
    case True
    with out ids1 p t show ?thesis by simp
  next
    case False
    have "wf_store st2"
      using wf_call_session [OF p(3) _ session_method_ActivateKeys, of p now None "catalog_interface res"
          None keys LoadModeReplace c] p(2) act by (simp add: store_ActivateKeys_def)
    show ?thesis
    proof (cases r2)
      case (Inr hs)
      from activate_new_session [OF p(3) wf(2) p(2,1) \<open>distinct keys\<close> act [unfolded Inr]] out False t Inr
      show ?thesis by auto
    qed (use out False t Delete_forgets \<open>wf_store st2\<close> in auto)
  qed
qed

section \<open>The active keys of a session\<close>

lemma Get_session:
  assumes "wf_store st" "Get now sid st = (Some p, st')"
  shows "\<exists>s. sessions st p = Some s \<and> sessions st' p = Some s \<and> s_id s = sid \<and> \<not> closed s"
proof -
  let ?e = "evictExpiredLocked now st"
  from assms(2) have g: "ids ?e sid = Some p" "\<not> session_closed p ?e" "sessions st' = sessions ?e"
    by (auto simp: Get_def Let_def move_to_front_def split: option.splits if_splits)
  have "wf_table ?e" using wf_evictExpired [OF assms(1)] by (simp add: wf_store_def)
  with g wf_tableD(5) obtain s where s: "sessions ?e p = Some s" "s_id s = sid" by blast
  with g(2) have "\<not> closed s" by (simp add: session_closed_def)
  have kept: "objects_kept st ?e" by simp
  with s(1) obtain s0 where s0: "sessions st p = Some s0"
    by (cases "sessions st p") (auto simp: objects_kept_def)
  with objects_keptD [OF kept s0] s \<open>\<not> closed s\<close> have "s0 = s" by auto
  with s s0 g(3) \<open>\<not> closed s\<close> show ?thesis by auto
qed

lemma session_keys_effect:
  assumes wf: "wf_runtime hx rt" and call: "session_keys now now' None sid rt = (r, rt')"
  shows "rt_catalog rt' = rt_catalog rt \<and> rt_providers rt' = rt_providers rt \<and>
    (case r of Inl e \<Rightarrow> e = Sentinel ErrSessionNotFound
     | Inr keys \<Rightarrow> \<exists>p s. sessions (rt_sessions rt) p = Some s \<and> s_id s = sid \<and> \<not> closed s
         \<and> keys = active_order s \<and> (\<forall>k \<in> set keys. active_ok (rt_catalog rt) k))"
proof (cases "Get now sid (rt_sessions rt)")
  case (Pair po st)
  show ?thesis
  proof (cases po)
    case None
    with Pair call show ?thesis by (auto simp: session_keys_def)
  next
    case (Some p)
    with Get_session [OF wf_runtimeD(6) [OF wf]] Pair obtain s where s: "sessions (rt_sessions rt) p = Some s"
      "sessions st p = Some s" "s_id s = sid" "\<not> closed s" by blast
    have ok: "\<forall>k \<in> active_set s. active_ok (rt_catalog rt) k"
      using wf_runtimeD(7) [OF wf] s by (auto simp: sessions_ok_def session_ok_def)
    have set: "set (active_order s) = active_set s"
      using wf_runtimeD(6) [OF wf] s(1) wf_tableD(6) by (auto simp: wf_store_def wf_session_def)
    then have known: "filter (\<lambda>k. HandleForKey k (rt_catalog rt) \<noteq> None) (active_order s) = active_order s"
      using ok by (fastforce simp: filter_id_conv active_ok_entry HandleForKey_def)
    let ?t = "touch now' (s_id s) st"
    from objects_keptD [OF objects_kept_touch s(2), of now' "s_id s"] obtain b where
      b: "sessions ?t p = Some (s\<lparr>closed := b\<rparr>)" by auto
    have "fst (ActiveKeys (catalog_interface (providerResolver rt)) None (rt_catalog rt) (s\<lparr>closed := b\<rparr>))
        = (if b then Inl (Sentinel ErrSessionNotFound) else Inr (active_order s))"
      using known by (simp add: ActiveKeys_def catalog_interface_def Let_def)
    moreover have "r = fst (ActiveKeys (catalog_interface (providerResolver rt)) None (rt_catalog rt) (s\<lparr>closed := b\<rparr>))
        \<and> rt_catalog rt' = rt_catalog rt \<and> rt_providers rt' = rt_providers rt"
      using call Pair Some s(2) b
      by (auto simp: session_keys_def store_ActiveKeys_def call_session_def Let_def split: prod.splits)
    ultimately show ?thesis using s ok set by auto
  qed
qed

lemma check_context_Inr: "check_context octx = Inr u \<longleftrightarrow> octx = Some None"
  by (auto simp: check_context_def split: option.splits)

lemma check_context_Inl:
  "check_context octx = Inl e \<Longrightarrow> errors_is e ErrInvalidArgument \<or> octx = Some (Some e)"
  by (auto simp: check_context_def ctx_check_def split: option.splits)

lemma check_activity_Inl: "check_activity act sid = Inl e \<Longrightarrow> errors_is e ErrInvalidArgument"
  by (auto simp: check_activity_def guard_err_def split: if_splits)

lemma activities_differ [simp]:
  "SkillActivityAny \<noteq> SkillActivityActive" "SkillActivityAny \<noteq> SkillActivityInactive"
  "SkillActivityActive \<noteq> SkillActivityInactive" "SkillActivityActive \<noteq> SkillActivityAny"
  "SkillActivityInactive \<noteq> SkillActivityAny" "SkillActivityInactive \<noteq> SkillActivityActive"
  by (simp_all add: SkillActivityAny_def SkillActivityActive_def SkillActivityInactive_def)

lemma check_activity_Inr:
  "check_activity act sid = Inr u \<Longrightarrow>
     act \<in> {SkillActivityAny, SkillActivityActive, SkillActivityInactive} \<and> (act = SkillActivityActive \<longrightarrow> sid \<noteq> [])"
  by (auto simp: check_activity_def guard_err_def split: if_splits)

end
