(* ===== verification/Runtime_Theorems.thy ===== *)
theory Runtime_Theorems
  imports Runtime_Correct
begin

text \<open>
  The properties of the runtime: which provider sets it accepts, its invariant over every
  sequence of calls, and what removing a skill, creating a session, listing, prompting and
  rendering do.
\<close>

section \<open>Providers\<close>

lemma update_new: "t \<notin> fst ` set m \<Longrightarrow> AList.update t p m = m @ [(t, p)]"
  by (simp add: map_of_None_iff update_fresh)

lemma add_providers_eq:
  "add_providers ps m = Inr m' \<longleftrightarrow>
     (\<exists>qs. ps = map Some qs \<and> [] \<notin> set (map p_type qs) \<and> distinct (map p_type qs)
       \<and> set (map p_type qs) \<inter> fst ` set m = {} \<and> m' = m @ map (\<lambda>q. (p_type q, q)) qs)"
proof (induction ps m rule: add_providers.induct)
  case (3 p ps m)
  show ?case
  proof (cases "p_type p = [] \<or> map_of m (p_type p) \<noteq> None")
    case True
    then show ?thesis by (auto simp: map_of_None_iff Cons_eq_map_conv)
  next
    case False
    then have new: "p_type p \<noteq> []" "p_type p \<notin> fst ` set m" by (auto simp: map_of_None_iff)
    note IH = 3 [unfolded update_new [OF new(2)]]
    show ?thesis
    proof
      assume "add_providers (Some p # ps) m = Inr m'"
      with False new IH obtain qs where "ps = map Some qs" "[] \<notin> set (map p_type qs)"
        "distinct (map p_type qs)" "set (map p_type qs) \<inter> (insert (p_type p) (fst ` set m)) = {}"
        "m' = (m @ [(p_type p, p)]) @ map (\<lambda>q. (p_type q, q)) qs"
        by (auto simp: update_new)
      with new show "\<exists>qs. Some p # ps = map Some qs \<and> [] \<notin> set (map p_type qs)
          \<and> distinct (map p_type qs) \<and> set (map p_type qs) \<inter> fst ` set m = {}
          \<and> m' = m @ map (\<lambda>q. (p_type q, q)) qs"
        by (intro exI [of _ "p # qs"]) auto
    next
      assume "\<exists>qs. Some p # ps = map Some qs \<and> [] \<notin> set (map p_type qs)
          \<and> distinct (map p_type qs) \<and> set (map p_type qs) \<inter> fst ` set m = {}
          \<and> m' = m @ map (\<lambda>q. (p_type q, q)) qs"
      then obtain qs where "ps = map Some qs" "[] \<notin> set (map p_type (p # qs))"
        "distinct (map p_type (p # qs))" "set (map p_type (p # qs)) \<inter> fst ` set m = {}"
        "m' = m @ map (\<lambda>q. (p_type q, q)) (p # qs)"
        by (auto simp: Cons_eq_map_conv)
      with False new IH show "add_providers (Some p # ps) m = Inr m'"
        by (auto simp: update_new)
    qed
  qed
qed auto

lemma add_providers_by_type_eq:
  "add_providers_by_type ps m = Inr m' \<longleftrightarrow>
     (\<exists>qs. ps = map (\<lambda>q. (p_type q, Some q)) qs \<and> [] \<notin> set (map p_type qs) \<and> distinct (map p_type qs)
       \<and> set (map p_type qs) \<inter> fst ` set m = {} \<and> m' = m @ map (\<lambda>q. (p_type q, q)) qs)"
    (is "_ \<longleftrightarrow> (\<exists>qs. ?P ps m qs)")
proof (induction ps m rule: add_providers_by_type.induct)
  case (3 t p ps m)
  show ?case
  proof (cases "t = [] \<or> map_of m t \<noteq> None \<or> p_type p \<noteq> t")
    case True
    then show ?thesis by (auto simp: map_of_None_iff Cons_eq_map_conv)
  next
    case False
    then have new: "t \<noteq> []" "t \<notin> fst ` set m" and t: "p_type p = t" by (auto simp: map_of_None_iff)
    have step: "add_providers_by_type ((t, Some p) # ps) m = add_providers_by_type ps (m @ [(t, p)])"
      using False update_new [OF new(2)] by simp
    have IH: "add_providers_by_type ps (m @ [(t, p)]) = Inr m' \<longleftrightarrow> (\<exists>qs. ?P ps (m @ [(t, p)]) qs)"
      using 3 False update_new [OF new(2)] by simp
    have cons: "?P ((t, Some p) # ps) m (p # qs) \<longleftrightarrow> ?P ps (m @ [(t, p)]) qs" for qs
      using new t by auto
    have "\<exists>qs. l = p # qs" if "?P ((t, Some p) # ps) m l" for l
      using that by (auto simp: Cons_eq_map_conv)
    then have "(\<exists>l. ?P ((t, Some p) # ps) m l) \<longleftrightarrow> (\<exists>qs. ?P ((t, Some p) # ps) m (p # qs))"
      by (metis (no_types, lifting))
    then show ?thesis unfolding step IH cons by simp
  qed
qed auto

lemma add_both_eq:
  "(\<exists>m1. add_providers a [] = Inr m1 \<and> add_providers_by_type b m1 = Inr m) \<longleftrightarrow>
     (\<exists>qs1 qs2. a = map Some qs1 \<and> b = map (\<lambda>q. (p_type q, Some q)) qs2
       \<and> [] \<notin> set (map p_type (qs1 @ qs2)) \<and> distinct (map p_type (qs1 @ qs2))
       \<and> m = map (\<lambda>q. (p_type q, q)) (qs1 @ qs2))"
    (is "?l \<longleftrightarrow> (\<exists>qs1 qs2. ?r qs1 qs2)")
proof
  assume ?l
  then obtain qs1 where qs1: "a = map Some qs1" "[] \<notin> set (map p_type qs1)" "distinct (map p_type qs1)"
    "add_providers_by_type b (map (\<lambda>q. (p_type q, q)) qs1) = Inr m"
    unfolding add_providers_eq by auto
  from qs1(4) obtain qs2 where "b = map (\<lambda>q. (p_type q, Some q)) qs2" "[] \<notin> set (map p_type qs2)"
    "distinct (map p_type qs2)" "p_type ` set qs2 \<inter> p_type ` set qs1 = {}"
    "m = map (\<lambda>q. (p_type q, q)) qs1 @ map (\<lambda>q. (p_type q, q)) qs2"
    unfolding add_providers_by_type_eq by (auto simp: image_image)
  with qs1 have "?r qs1 qs2" by (simp add: Int_commute)
  then show "\<exists>qs1 qs2. ?r qs1 qs2" by blast
next
  assume "\<exists>qs1 qs2. ?r qs1 qs2"
  then obtain qs1 qs2 where r: "?r qs1 qs2" by blast
  then have "add_providers a [] = Inr (map (\<lambda>q. (p_type q, q)) qs1)"
    unfolding add_providers_eq by (intro exI [of _ qs1]) simp
  moreover have "add_providers_by_type b (map (\<lambda>q. (p_type q, q)) qs1) = Inr m"
    unfolding add_providers_by_type_eq using r
    by (intro exI [of _ qs2]) (simp add: image_image Int_commute)
  ultimately show ?l by blast
qed

lemma map_of_by_type:
  "distinct (map f qs) \<Longrightarrow> q \<in> set qs \<Longrightarrow> map_of (map (\<lambda>q. (f q, q)) qs) (f q) = Some q"
  by (induction qs) (auto simp: rev_image_eqI)

lemma New_Inr:
  "New log opts = Inr rt \<longleftrightarrow>
     (\<exists>cfg qs1 qs2. apply_options opts (default_options log) = Inr cfg
       \<and> opt_providers cfg = map Some qs1
       \<and> opt_providers_by_type cfg = map (\<lambda>q. (p_type q, Some q)) qs2
       \<and> [] \<notin> set (map p_type (qs1 @ qs2)) \<and> distinct (map p_type (qs1 @ qs2))
       \<and> rt = runtime_of log cfg (map (\<lambda>q. (p_type q, q)) (qs1 @ qs2)))"
proof -
  have "New log opts = Inr rt \<longleftrightarrow>
     (\<exists>cfg m. apply_options opts (default_options log) = Inr cfg
       \<and> (\<exists>m1. add_providers (opt_providers cfg) [] = Inr m1
            \<and> add_providers_by_type (opt_providers_by_type cfg) m1 = Inr m)
       \<and> rt = runtime_of log cfg m)"
    unfolding Runtime.New_def and_then_eq_Inr sum.inject by blast
  then show ?thesis unfolding add_both_eq by blast
qed

text \<open>
  C37. \<open>New\<close> succeeds exactly when every provider given is non-nil, reports a non-empty type, is
  registered in the map under the type it reports, and no type occurs twice, whether in the list,
  in the map, or in both; the runtime then resolves each type to its provider and lists the types
  in order.
\<close>

theorem New_providers:
  assumes "apply_options opts (default_options log) = Inr cfg"
  shows "((\<exists>rt. New log opts = Inr rt) \<longleftrightarrow>
      (\<exists>qs1 qs2. opt_providers cfg = map Some qs1
        \<and> opt_providers_by_type cfg = map (\<lambda>q. (p_type q, Some q)) qs2
        \<and> [] \<notin> set (map p_type (qs1 @ qs2)) \<and> distinct (map p_type (qs1 @ qs2))))
    \<and> (\<forall>rt. New log opts = Inr rt \<longrightarrow>
      ProviderTypes rt = sort (map p_type (map the (opt_providers cfg))
                               @ map fst (opt_providers_by_type cfg))
      \<and> (\<forall>q. Some q \<in> set (opt_providers cfg) \<union> snd ` set (opt_providers_by_type cfg) \<longrightarrow>
           providerResolver rt (p_type q) = Some q))"
proof (intro conjI allI impI)
  show "(\<exists>rt. New log opts = Inr rt) \<longleftrightarrow>
      (\<exists>qs1 qs2. opt_providers cfg = map Some qs1
        \<and> opt_providers_by_type cfg = map (\<lambda>q. (p_type q, Some q)) qs2
        \<and> [] \<notin> set (map p_type (qs1 @ qs2)) \<and> distinct (map p_type (qs1 @ qs2)))"
    unfolding New_Inr assms by blast
next
  fix rt assume "New log opts = Inr rt"
  then obtain qs1 qs2 where q: "opt_providers cfg = map Some qs1"
    "opt_providers_by_type cfg = map (\<lambda>q. (p_type q, Some q)) qs2"
    "distinct (map p_type (qs1 @ qs2))" "rt_providers rt = map (\<lambda>q. (p_type q, q)) (qs1 @ qs2)"
    using assms unfolding New_Inr by (auto simp: runtime_of_def)
  have "providerResolver rt (p_type q) = Some q" if "q \<in> set (qs1 @ qs2)" for q
    unfolding providerResolver_def q(4) using q(3) that by (rule map_of_by_type)
  then show "providerResolver rt (p_type q) = Some q"
    if "Some q \<in> set (opt_providers cfg) \<union> snd ` set (opt_providers_by_type cfg)" for q
    using q(1,2) that by auto
  show "ProviderTypes rt = sort (map p_type (map the (opt_providers cfg))
                               @ map fst (opt_providers_by_type cfg))"
    using q(1,2,4) by (simp add: ProviderTypes_def comp_def)
qed

theorem New_providers_witness:
  "(\<exists>rt. New 0 [Some (WithProvider (Some (demo_provider ''b''))), None,
      Some (WithProvidersByType [(''a'', Some (demo_provider ''a''))])] = Inr rt
     \<and> ProviderTypes rt = [''a'', ''b''])
   \<and> \<not> (\<exists>rt. New 0 [Some (WithProvider (Some (demo_provider ''b''))), None,
      Some (WithProvidersByType [(''b'', Some (demo_provider ''b''))])] = Inr rt)"
proof -
  define cfg where "cfg m = (default_options 0)\<lparr>opt_providers := [Some (demo_provider ''b'')],
      opt_providers_by_type := m\<rparr>" for m :: "(string \<times> provider option) list"
  have opts: "apply_options [Some (WithProvider (Some (demo_provider ''b''))), None,
      Some (WithProvidersByType [(t, p)])] (default_options 0) = Inr (cfg [(t, p)])" for t p
    by (simp add: WithProvider_def WithProvidersByType_def cfg_def default_options_def)
  note good = New_providers [OF opts, of "''a''" "Some (demo_provider ''a'')"]
  note bad = New_providers [OF opts, of "''b''" "Some (demo_provider ''b'')"]
  have ty: "p_type (demo_provider t) = t" for t by (simp add: demo_provider_def)
  have "\<exists>rt. New 0 [Some (WithProvider (Some (demo_provider ''b''))), None,
      Some (WithProvidersByType [(''a'', Some (demo_provider ''a''))])] = Inr rt"
    unfolding good [THEN conjunct1] by (rule exI [of _ "[demo_provider ''b'']"], rule exI [of _ "[demo_provider ''a'']"])
      (simp add: cfg_def ty)
  moreover have "sort (map p_type (map the (opt_providers (cfg [(''a'', Some (demo_provider ''a''))])))
      @ map fst (opt_providers_by_type (cfg [(''a'', Some (demo_provider ''a''))]))) = [''a'', ''b'']"
    by (simp add: cfg_def ty)
  moreover have "\<not> (\<exists>rt. New 0 [Some (WithProvider (Some (demo_provider ''b''))), None,
      Some (WithProvidersByType [(''b'', Some (demo_provider ''b''))])] = Inr rt)"
    unfolding bad [THEN conjunct1] by (auto simp: cfg_def ty Cons_eq_map_conv)
  ultimately show ?thesis using good [THEN conjunct2] by metis
qed

section \<open>The invariant\<close>

lemma wf_New_runtime: "New log opts = Inr rt \<Longrightarrow> wf_runtime hx rt"
proof -
  assume "New log opts = Inr rt"
  then obtain cfg qs where q: "[] \<notin> set (map p_type qs)" "distinct (map p_type qs)"
    "rt = runtime_of log cfg (map (\<lambda>q. (p_type q, q)) qs)"
    unfolding New_Inr by blast
  have "wf_providers (map (\<lambda>q. (p_type q, q)) qs)" using q(1,2)
    by (auto simp: wf_providers_def comp_def) (metis image_eqI)
  moreover have "no_loads Catalog.New" by (simp add: no_loads_def Catalog.New_def)
  moreover have "types_known ps Catalog.New" for ps
    by (simp add: types_known_def GetIndex_def Catalog.New_def)
  moreover have "sessions_ok c (NewStore a b d)" for c a b d
    by (simp add: sessions_ok_def NewStore_def)
  ultimately show ?thesis by (simp add: wf_runtime_def quiet_catalog_def q(3) runtime_of_def)
qed

interpretation runtime_steps: transition_system "\<lambda>rt. \<exists>log opts. New log opts = Inr rt"
  "runtime_step hx" "wf_runtime hx" for hx
  by unfold_locales (auto simp: wf_New_runtime wf_runtime_step)

lemma wf_runtime_session:
  assumes "wf_runtime hx rt" "sessions (rt_sessions rt) p = Some s" "\<not> closed s"
  shows "distinct (active_order s)" "0 < max_active s \<Longrightarrow> int (length (active_order s)) \<le> max_active s"
    "k \<in> set (active_order s) \<Longrightarrow> body_of (rt_catalog rt) k \<noteq> None
      \<and> (\<exists>idx. GetIndex k (rt_catalog rt) = Some idx \<and> idx_insert idx = SkillInsertInstructions)
      \<and> key_type k \<in> set (ProviderTypes rt)"
proof -
  have wf: "wf_session s"
    using wf_runtimeD(6) [OF assms(1)] assms(2) wf_tableD(6) by (auto simp: wf_store_def)
  then show "distinct (active_order s)" "0 < max_active s \<Longrightarrow> int (length (active_order s)) \<le> max_active s"
    by (simp_all add: wf_session_def)
  assume "k \<in> set (active_order s)"
  with wf have k: "k \<in> active_set s" by (simp add: wf_session_def)
  have "session_ok (rt_catalog rt) s"
    using wf_runtimeD(7) [OF assms(1)] assms(2) by (simp add: sessions_ok_def)
  with k assms(3) have "active_ok (rt_catalog rt) k" by (simp add: session_ok_def)
  then show "body_of (rt_catalog rt) k \<noteq> None
      \<and> (\<exists>idx. GetIndex k (rt_catalog rt) = Some idx \<and> idx_insert idx = SkillInsertInstructions)
      \<and> key_type k \<in> set (ProviderTypes rt)"
    using wf_runtimeD(5) [OF assms(1)] by (auto simp: active_ok_def types_known_def ProviderTypes_def)
qed

text \<open>
  C1. Whatever sequence of calls runs on a new runtime, tool calls on sessions that may be closed
  and changes of the outside world included, the runtime stays well-formed, and the skills active
  in an open session are different, within the session's limit, known to the catalog with a
  registered provider, instructions rather than user messages, and loaded.
\<close>

theorem runtime_invariant:
  assumes "New log opts = Inr rt0" and "(runtime_step hx)\<^sup>*\<^sup>* rt0 rt"
  shows "wf_runtime hx rt
    \<and> (\<forall>p s. sessions (rt_sessions rt) p = Some s \<longrightarrow> \<not> closed s \<longrightarrow>
         distinct (active_order s)
         \<and> (0 < max_active s \<longrightarrow> int (length (active_order s)) \<le> max_active s)
         \<and> (\<forall>k \<in> set (active_order s). body_of (rt_catalog rt) k \<noteq> None
              \<and> (\<exists>idx. GetIndex k (rt_catalog rt) = Some idx \<and> idx_insert idx = SkillInsertInstructions)
              \<and> key_type k \<in> set (ProviderTypes rt)))"
proof -
  have "wf_runtime hx rt" using assms runtime_steps.reachable_inv by blast
  with wf_runtime_session [OF this] show ?thesis by blast
qed

definition demo_runtime :: runtime where
  "demo_runtime = projr (New 0 [Some (WithProvider (Some (demo_provider ''a''))),
     Some (WithProvider (Some (demo_provider ''b''))), Some (WithMaxSessions 2)])"

definition demo_add :: "string \<Rightarrow> runtime \<Rightarrow> runtime" where
  "demo_add t rt = snd (AddSkill demo_digest (Some None) (demo_def t ''x'' ''/s'') rt)"

definition demo_open :: "string \<Rightarrow> string \<Rightarrow> runtime \<Rightarrow> runtime" where
  "demo_open sid t rt = snd (NewSession 5 (Some None) (Inr sid)
     [Some (WithSessionActiveSkills [demo_def t ''x'' ''/s''])] rt)"

definition demo_run :: runtime where
  "demo_run = demo_open ''s'' ''b'' (demo_add ''b'' (demo_add ''a'' demo_runtime))"

lemma New_demo: "New 0 [Some (WithProvider (Some (demo_provider ''a''))),
    Some (WithProvider (Some (demo_provider ''b''))), Some (WithMaxSessions 2)] = Inr demo_runtime"
proof -
  have "isl (New 0 [Some (WithProvider (Some (demo_provider ''a''))),
      Some (WithProvider (Some (demo_provider ''b''))), Some (WithMaxSessions 2)]) = False" by code_simp
  then show ?thesis by (simp add: demo_runtime_def)
qed

lemma demo_add_step: "runtime_step demo_digest rt (demo_add t rt)"
  unfolding demo_add_def by (rule step_add)

lemma demo_open_step:
  "ids (rt_sessions rt) sid = None \<Longrightarrow> runtime_step demo_digest rt (demo_open sid t rt)"
  unfolding demo_open_def by (rule step_new_session) simp

lemma demo_run_steps: "(runtime_step demo_digest)\<^sup>*\<^sup>* demo_runtime demo_run"
proof -
  have "ids (rt_sessions (demo_add ''b'' (demo_add ''a'' demo_runtime))) ''s'' = None" by code_simp
  note open_ = demo_open_step [OF this]
  have "(runtime_step demo_digest)\<^sup>*\<^sup>* demo_runtime (demo_add ''b'' (demo_add ''a'' demo_runtime))"
    by (rule rtranclp.rtrancl_into_rtrancl [OF r_into_rtranclp]) (rule demo_add_step)+
  then show ?thesis unfolding demo_run_def using open_ by (rule rtranclp.rtrancl_into_rtrancl)
qed

theorem runtime_invariant_witness:
  "\<exists>s. sessions (rt_sessions demo_run) 0 = Some s \<and> active_order s = [demo_b]
     \<and> body_of (rt_catalog demo_run) demo_b \<noteq> None \<and> ''b'' \<in> set (ProviderTypes demo_run)"
proof -
  have "map_option active_order (sessions (rt_sessions demo_run) 0) = Some [demo_b]"
    "map_option closed (sessions (rt_sessions demo_run) 0) = Some False" by code_simp+
  then obtain s where s: "sessions (rt_sessions demo_run) 0 = Some s" "active_order s = [demo_b]"
    "\<not> closed s" by auto
  have "key_type demo_b = ''b''" by code_simp
  moreover have "key_type demo_b \<in> set (ProviderTypes demo_run) \<and> body_of (rt_catalog demo_run) demo_b \<noteq> None"
    using runtime_invariant [OF New_demo demo_run_steps] s by (metis list.set_intros(1))
  ultimately show ?thesis using s by auto
qed

lemma wf_demo_run: "wf_runtime demo_digest demo_run"
  using runtime_steps.reachable_inv [OF _ demo_run_steps] New_demo by blast

section \<open>Removing a skill\<close>

text \<open>
  C4. \<open>RemoveSkill\<close> fails and changes nothing, or removes exactly the given definition with its
  key: every other skill keeps its record, and the key is gone from the active list of every open
  session, while the rest of each list stays as it was.
\<close>

theorem RemoveSkill_effect:
  assumes "wf_runtime hx rt"
  shows "case RemoveSkill hx octx d rt of
     (Inl e, rt') \<Rightarrow> rt' = rt
   | (Inr rec, rt') \<Rightarrow> rec_def rec = d
       \<and> (\<exists>k. ResolveDef d (rt_catalog rt) = Some k \<and> ResolveDef d (rt_catalog rt') = None
            \<and> GetIndex k (rt_catalog rt') = None
            \<and> (\<forall>k'. k' = k \<or> GetIndex k' (rt_catalog rt') = GetIndex k' (rt_catalog rt))
            \<and> (\<forall>p s'. sessions (rt_sessions rt') p = Some s' \<longrightarrow> \<not> closed s' \<longrightarrow>
                 (\<exists>s. sessions (rt_sessions rt) p = Some s
                    \<and> active_order s' = filter (\<lambda>k'. k' \<noteq> k) (active_order s))))"
proof (cases "check_def octx d")
  case (Inl e)
  then show ?thesis by (simp add: RemoveSkill_def)
next
  case ok: (Inr u)
  let ?c = "rt_catalog rt"
  note w = wf_catalogD [OF wf_runtimeD(3) [OF assms]]
  show ?thesis
  proof (cases "map_of (by_def ?c) d")
    case None
    with ok show ?thesis by (simp add: RemoveSkill_def Remove_def)
  next
    case (Some k)
    with w(7) obtain e where e: "map_of (by_key ?c) k = Some e" "e_def e = d" by blast
    obtain c' where rem: "Remove hx d ?c = (Some (skillRecordFrom d (e_idx e), k), c')"
      and by_def: "by_def c' = AList.delete d (by_def ?c)"
      using Some e by (simp add: Remove_def Let_def)
    note idx = map_of_Remove [OF rem]
    have "GetIndex k c' = None" "k' \<noteq> k \<Longrightarrow> GetIndex k' c' = GetIndex k' ?c" for k'
      by (simp_all add: GetIndex_def idx option.map_comp comp_def)
    moreover have "ResolveDef d c' = None" "ResolveDef d ?c = Some k"
      using Some by (simp_all add: ResolveDef_def by_def)
    moreover have "\<exists>s. sessions (rt_sessions rt) p = Some s
        \<and> active_order s' = filter (\<lambda>k'. k' \<noteq> k) (active_order s)"
      if "sessions (PruneSkill k (rt_sessions rt)) p = Some s'" "\<not> closed s'" for p s'
      using PruneSkill_session [OF wf_runtimeD(6) [OF assms] that] by blast
    ultimately show ?thesis
      using ok rem by (auto simp: RemoveSkill_def skillRecordFrom_def)
  qed
qed

theorem RemoveSkill_effect_witness:
  "case RemoveSkill demo_digest (Some None) (demo_def ''b'' ''x'' ''/s'') demo_run of
     (Inl e, rt') \<Rightarrow> False
   | (Inr rec, rt') \<Rightarrow> GetIndex demo_b (rt_catalog rt') = None
       \<and> (\<forall>s'. sessions (rt_sessions rt') 0 = Some s' \<longrightarrow> \<not> closed s' \<longrightarrow> active_order s' = [])"
proof -
  obtain r rt' where r: "RemoveSkill demo_digest (Some None) (demo_def ''b'' ''x'' ''/s'') demo_run = (r, rt')"
    by fastforce
  have "isl (fst (RemoveSkill demo_digest (Some None) (demo_def ''b'' ''x'' ''/s'') demo_run)) = False"
    by code_simp
  with r obtain rec where rec: "r = Inr rec" by (cases r) auto
  have "ResolveDef (demo_def ''b'' ''x'' ''/s'') (rt_catalog demo_run) = Some demo_b"
    "map_option active_order (sessions (rt_sessions demo_run) 0) = Some [demo_b]" by code_simp+
  then obtain s where s: "ResolveDef (demo_def ''b'' ''x'' ''/s'') (rt_catalog demo_run) = Some demo_b"
    "sessions (rt_sessions demo_run) 0 = Some s" "active_order s = [demo_b]" by auto
  note e = RemoveSkill_effect [OF wf_demo_run, where octx = "Some None" and d = "demo_def ''b'' ''x'' ''/s''"]
  from e r rec s(1) have "GetIndex demo_b (rt_catalog rt') = None" by auto
  moreover from e r rec s have "active_order s' = []"
    if "sessions (rt_sessions rt') 0 = Some s'" "\<not> closed s'" for s'
    using that by fastforce
  ultimately show ?thesis using r rec by simp
qed

section \<open>Creating a session\<close>

text \<open>
  C2. \<open>NewSession\<close> either fails and leaves no session under the new identifier, or returns the
  definitions it was given, without repetition, and there is then an open session under the new
  identifier, the most recently used one, whose active list is the keys of these definitions in
  their order, every one of them loaded. The identifier must not be in use, as \<open>uuid.NewV7\<close>
  provides.
\<close>

theorem NewSession_effect:
  assumes "wf_runtime hx rt" and "\<forall>sid. uuid = Inr sid \<longrightarrow> ids (rt_sessions rt) sid = None"
  shows "case NewSession now octx uuid opts rt of
     (Inl e, rt') \<Rightarrow> \<forall>sid. uuid = Inr sid \<longrightarrow> ids (rt_sessions rt') sid = None
   | (Inr (sid, defs), rt') \<Rightarrow> uuid = Inr sid \<and> distinct defs
       \<and> (\<exists>p s. ids (rt_sessions rt') sid = Some p \<and> sessions (rt_sessions rt') p = Some s
            \<and> \<not> closed s \<and> s_id s = sid \<and> hd (lru (rt_sessions rt')) = (p, now)
            \<and> map Some (active_order s) = map (\<lambda>d. ResolveDef d (rt_catalog rt)) defs
            \<and> (\<forall>k \<in> set (active_order s). body_of (rt_catalog rt') k \<noteq> None))"
proof (cases "and_then (check_context octx) (\<lambda>_. apply_options opts \<lparr>ns_max_active = 0, ns_active_defs = []\<rparr>)")
  case (Inl e)
  with assms(2) show ?thesis by (simp add: Runtime.NewSession_def)
next
  case cfg: (Inr cfg)
  show ?thesis
  proof (cases "resolve_defs (rt_catalog rt) (ns_active_defs cfg) {}")
    case (Inl e)
    with cfg assms(2) show ?thesis by (simp add: Runtime.NewSession_def)
  next
    case keys: (Inr keys)
    obtain r st c where call: "Store.NewSession (catalog_interface (providerResolver rt)) now octx uuid
        (ns_max_active cfg) keys (rt_sessions rt) (rt_catalog rt) = (r, st, c)"
      by (metis prod.collapse)
    note res = resolve_defs_Inr [OF keys]
    have "distinct keys"
      using resolved_keys_distinct [OF wf_runtimeD(3) [OF assms(1)]] res by blast
    from store_NewSession_effect [OF wf_runtimeD(6,2) [OF assms(1)] assms(2) this call] res
    show ?thesis
      by (cases r) (auto simp: Runtime.NewSession_def cfg keys call split: prod.splits)
  qed
qed

theorem NewSession_effect_witness:
  "\<exists>p s. ids (rt_sessions (demo_open ''t'' ''a'' demo_run)) ''t'' = Some p
     \<and> sessions (rt_sessions (demo_open ''t'' ''a'' demo_run)) p = Some s
     \<and> active_order s = [demo_a] \<and> \<not> closed s"
proof -
  have free: "ids (rt_sessions demo_run) ''t'' = None" by code_simp
  have "fst (NewSession 5 (Some None) (Inr ''t'') [Some (WithSessionActiveSkills [demo_def ''a'' ''x'' ''/s''])] demo_run)
      = Inr (''t'', [demo_def ''a'' ''x'' ''/s''])" by code_simp
  then have call: "NewSession 5 (Some None) (Inr ''t'') [Some (WithSessionActiveSkills [demo_def ''a'' ''x'' ''/s''])] demo_run
      = (Inr (''t'', [demo_def ''a'' ''x'' ''/s'']), demo_open ''t'' ''a'' demo_run)"
    by (simp add: demo_open_def prod_eq_iff)
  have "ResolveDef (demo_def ''a'' ''x'' ''/s'') (rt_catalog demo_run) = Some demo_a" by code_simp
  with NewSession_effect [OF wf_demo_run, where uuid = "Inr ''t''" and now = 5 and octx = "Some None"
      and opts = "[Some (WithSessionActiveSkills [demo_def ''a'' ''x'' ''/s''])]"] call free
  show ?thesis by auto
qed

section \<open>Listing\<close>

text \<open>
  C16. \<open>ListSkills\<close> lists, in the catalog's order, the skills that pass the normalised filter; with a
  session identifier and an activity other than any, only those that are (or, for inactive, are
  not) in the active list of the open session with that identifier. It fails only for a bad
  context, a bad activity or a session that is not there.
\<close>

theorem ListSkills_spec:
  assumes "wf_runtime hx rt"
  shows "case fst (ListSkills now now' octx f rt) of
     Inl e \<Rightarrow> errors_is e ErrInvalidArgument \<or> e = Sentinel ErrSessionNotFound \<or> octx = Some (Some e)
   | Inr recs \<Rightarrow>
       let cfg = normalizeSkillListFilter f;
           listed = ListUserEntries (toCatalogUserFilter (Some cfg)) (rt_catalog rt)
       in if lf_session_id cfg = [] then recs = map ue_record listed
          else \<exists>p s. sessions (rt_sessions rt) p = Some s \<and> s_id s = lf_session_id cfg \<and> \<not> closed s
            \<and> recs = map ue_record (filter (\<lambda>u. lf_activity cfg = SkillActivityAny
                \<or> (ue_key u \<in> set (active_order s) \<longleftrightarrow> lf_activity cfg = SkillActivityActive)) listed)"
proof (cases "check_context octx")
  case (Inl e)
  with check_context_Inl [OF this] show ?thesis by (auto simp: ListSkills_def)
next
  case ctx: (Inr u)
  then have octx: "octx = Some None" by (simp add: check_context_Inr)
  let ?cfg = "normalizeSkillListFilter f"
  show ?thesis
  proof (cases "check_activity (lf_activity ?cfg) (lf_session_id ?cfg)")
    case (Inl e)
    with ctx check_activity_Inl [OF this] show ?thesis by (simp add: ListSkills_def Let_def)
  next
    case act: (Inr v)
    note a = check_activity_Inr [OF act]
    show ?thesis
    proof (cases "lf_session_id ?cfg = []")
      case True
      with ctx act show ?thesis by (simp add: ListSkills_def Let_def)
    next
      case False
      obtain r rt1 where k: "session_keys now now' None (lf_session_id ?cfg) rt = (r, rt1)" by fastforce
      note e = session_keys_effect [OF assms k]
      show ?thesis
      proof (cases r)
        case (Inl x)
        with e ctx act octx k False show ?thesis by (simp add: ListSkills_def Let_def)
      next
        case (Inr keys)
        with e obtain p s where s: "sessions (rt_sessions rt) p = Some s" "s_id s = lf_session_id ?cfg"
          "\<not> closed s" "keys = active_order s" by auto
        from a have "activity_match (lf_activity ?cfg) keys k
            \<longleftrightarrow> (k \<in> set keys \<longleftrightarrow> lf_activity ?cfg = SkillActivityActive)"
          if "lf_activity ?cfg \<noteq> SkillActivityAny" for k
          using that by (auto simp: activity_match_def)
        with s Inr ctx act octx k False show ?thesis
          by (auto simp: ListSkills_def Let_def intro!: exI [of _ p] exI [of _ s])
      qed
    qed
  qed
qed

definition demo_list_filter :: "string \<Rightarrow> skill_list_filter" where
  "demo_list_filter act = \<lparr>lf_types = [], lf_name_prefix = [], lf_location_prefix = [],
     lf_allow_skills = [], lf_inserts = [], lf_session_id = ''s '', lf_activity = act\<rparr>"

theorem ListSkills_spec_witness:
  "\<exists>recs. fst (ListSkills 6 7 (Some None) (Some (demo_list_filter SkillActivityInactive)) demo_run) = Inr recs
     \<and> map rec_def recs = [demo_def ''a'' ''x'' ''/s'']
     \<and> (\<exists>p s. sessions (rt_sessions demo_run) p = Some s \<and> s_id s = ''s'' \<and> \<not> closed s)"
proof -
  define call where "call = fst (ListSkills 6 7 (Some None) (Some (demo_list_filter SkillActivityInactive)) demo_run)"
  have "isl call = False" "map rec_def (projr call) = [demo_def ''a'' ''x'' ''/s'']"
    unfolding call_def by code_simp+
  then obtain recs where recs: "call = Inr recs" "map rec_def recs = [demo_def ''a'' ''x'' ''/s'']"
    by (cases call) auto
  have sid: "lf_session_id (normalizeSkillListFilter (Some (demo_list_filter SkillActivityInactive))) = ''s''"
    by code_simp
  note spec = ListSkills_spec [OF wf_demo_run, where now = 6 and now' = 7 and octx = "Some None"
      and f = "Some (demo_list_filter SkillActivityInactive)", folded call_def,
      unfolded recs(1) sum.case Let_def sid]
  have "''s'' \<noteq> []" by simp
  from spec [unfolded if_not_P [OF this]] obtain p s where
    "sessions (rt_sessions demo_run) p = Some s" "s_id s = ''s''" "\<not> closed s"
    by (elim exE conjE) (rule that)
  then have "\<exists>p s. sessions (rt_sessions demo_run) p = Some s \<and> s_id s = ''s'' \<and> \<not> closed s"
    by (intro exI conjI)
  then show ?thesis unfolding call_def [symmetric] using recs by simp
qed

end
