(* ===== verification/Runtime_Prompts.thy ===== *)
theory Runtime_Prompts
  imports Runtime_Theorems
begin

text \<open>
  What \<open>SkillsPrompt\<close> and \<open>RenderSkill\<close> return, in terms of the state they are called in: because
  active skills are loaded, a prompt is a function of catalog and session, and no provider is
  asked.
\<close>

section \<open>Loaded bodies\<close>

lemma EnsureBody_loaded:
  "map_of (by_key c) k = Some e \<Longrightarrow> body_loaded e \<Longrightarrow>
     EnsureBody res None k c = (Inr (idx_skill_body (e_idx e)), c)"
  by (simp add: EnsureBody_def ensure_loop_5 ensure_enter_def del: map_of_eq_Some_iff)

text \<open>The item of an active skill, read off the catalog.\<close>

definition shown_active :: "catalog \<Rightarrow> provider_skill_key \<Rightarrow> active_skill_item" where
  "shown_active c k =
     (let idx = the (GetIndex k c)
      in \<lparr>ac_name = handle_name (the (HandleForKey k c)),
          ac_body = rr_text (RenderSkillBody (the (body_of c k)) (idx_arguments idx) Map.empty),
          ac_resources = idx_resources idx\<rparr>)"

lemma active_items_loaded:
  "\<forall>k \<in> set ks. active_ok c k \<Longrightarrow>
     active_items res None filtered ks c =
       (Inr (map (shown_active c) (filter (\<lambda>k. k \<in> set filtered) ks)), c)"
proof (induction ks)
  case (Cons k ks)
  then obtain e where e: "map_of (by_key c) k = Some e" "body_loaded e" by (auto simp: active_ok_entry)
  with Cons show ?case
    by (simp add: EnsureBody_loaded [OF e] HandleForKey_def GetIndex_def body_of_def shown_active_def
        Let_def del: map_of_eq_Some_iff)
qed simp

definition shown_available :: "catalog \<Rightarrow> index_record \<Rightarrow> available_skill_item" where
  "shown_available c rec =
     (let h = the (HandleForKey (idx_key rec) c)
      in \<lparr>av_name = handle_name h, av_description = idx_description rec,
          av_location = handle_location h, av_resources = idx_resources rec\<rparr>)"

lemma listed_known:
  assumes "wf_catalog hx c" "rec \<in> set (ListPromptIndexRecords f c)"
  shows "HandleForKey (idx_key rec) c \<noteq> None"
proof -
  from assms(2) obtain k e where e: "(k, e) \<in> set (by_key c)" "rec = e_idx e"
    by (auto simp: ListPromptIndexRecords_def)
  then have "map_of (by_key c) k = Some e" using wf_catalogD(1) [OF assms(1)] by simp
  with wf_catalogD(3) [OF assms(1) this] e(2) show ?thesis
    by (auto simp: wf_entry_def HandleForKey_def simp del: map_of_eq_Some_iff)
qed

lemma available_items_known:
  "\<forall>rec \<in> set records. HandleForKey (idx_key rec) c \<noteq> None \<Longrightarrow>
     available_items active records c =
       map (shown_available c) (filter (\<lambda>rec. idx_key rec \<notin> set active) records)"
proof (induction records)
  case (Cons rec records)
  then obtain h where "HandleForKey (idx_key rec) c = Some h" by auto
  with Cons show ?case
    by (simp add: available_items_def List.map_filter_simps available_item_def shown_available_def)
qed (simp add: available_items_def List.map_filter_simps)

section \<open>Sections are never blank\<close>

lemma prompt_not_blank: "trim_space (CHR ''<'' # s @ ''>'') \<noteq> []"
proof -
  have "solid (CHR ''<'')" "solid (CHR ''>'')" by code_simp+
  then show ?thesis using trim_space_solid [of "CHR ''<'' # s @ ''>''"] by simp
qed

lemma marker_ends: "\<exists>s. availableSkillsStart = CHR ''<'' # s" "\<exists>s. availableSkillsEnd = s @ ''>''"
  "\<exists>s. activeSkillsStart = CHR ''<'' # s" "\<exists>s. activeSkillsEnd = s @ ''>''"
proof -
  show "\<exists>s. availableSkillsEnd = s @ ''>''"
    by (rule exI [of _ "butlast availableSkillsEnd"]) (simp add: availableSkillsEnd_def)
  show "\<exists>s. activeSkillsEnd = s @ ''>''"
    by (rule exI [of _ "butlast activeSkillsEnd"]) (simp add: activeSkillsEnd_def)
qed (simp_all add: availableSkillsStart_def activeSkillsStart_def)

lemma marked_not_blank:
  assumes "begin_mark = CHR ''<'' # s" "stop = t @ ''>''"
  shows "trim_space (begin_mark @ u @ stop) \<noteq> []"
  using prompt_not_blank [of "s @ u @ t"] assms by simp

lemma AvailableSkillsPrompt_not_blank: "trim_space (AvailableSkillsPrompt items) \<noteq> []"
proof -
  obtain s t where m: "availableSkillsStart = CHR ''<'' # s" "availableSkillsEnd = t @ ''>''"
    using marker_ends(1,2) by blast
  have "\<exists>u. AvailableSkillsPrompt items = availableSkillsStart @ u @ availableSkillsEnd"
    unfolding AvailableSkillsPrompt_def Let_def by (metis append.assoc)
  with marked_not_blank [OF m] show ?thesis by auto
qed

lemma ActiveSkillsPrompt_not_blank: "trim_space (ActiveSkillsPrompt items) \<noteq> []"
proof -
  obtain s t where m: "activeSkillsStart = CHR ''<'' # s" "activeSkillsEnd = t @ ''>''"
    using marker_ends(3,4) by blast
  have "\<exists>u. ActiveSkillsPrompt items = activeSkillsStart @ u @ activeSkillsEnd"
    unfolding ActiveSkillsPrompt_def Let_def by (metis append.assoc)
  with marked_not_blank [OF m] show ?thesis by auto
qed

lemma join_sections_simps:
  "trim_space a \<noteq> [] \<Longrightarrow> join_sections a [] = a"
  "trim_space b \<noteq> [] \<Longrightarrow> join_sections [] b = b"
  "trim_space a \<noteq> [] \<Longrightarrow> trim_space b \<noteq> [] \<Longrightarrow>
     join_sections a b = skillsPromptStart @ NL # a @ NL # b @ NL # skillsPromptEnd"
  by (simp_all add: join_sections_def wrapSkillsPrompt_def)

section \<open>The skills prompt\<close>

text \<open>The two sections of a prompt, as functions of the catalog, the listing and the active keys.\<close>

definition active_section :: "catalog \<Rightarrow> index_record list \<Rightarrow> provider_skill_key list \<Rightarrow> string" where
  "active_section c records keys =
     ActiveSkillsPrompt (map (shown_active c) (filter (\<lambda>k. k \<in> set (map idx_key records)) keys))"

definition available_section :: "catalog \<Rightarrow> index_record list \<Rightarrow> provider_skill_key list \<Rightarrow> string" where
  "available_section c records keys =
     AvailableSkillsPrompt (map (shown_available c) (filter (\<lambda>rec. idx_key rec \<notin> set keys) records))"

definition both_sections :: "string \<Rightarrow> string \<Rightarrow> string" where
  "both_sections a b = skillsPromptStart @ NL # a @ NL # b @ NL # skillsPromptEnd"

definition expected_prompt ::
  "catalog \<Rightarrow> skill_filter \<Rightarrow> index_record list \<Rightarrow> provider_skill_key list \<Rightarrow> string" where
  "expected_prompt c cfg records keys =
     (if sf_activity cfg = SkillActivityActive then active_section c records keys
      else if sf_activity cfg = SkillActivityInactive \<or> sf_session_id cfg = []
        then available_section c records keys
      else both_sections (available_section c records keys) (active_section c records keys))"

text \<open>The part of \<open>SkillsPrompt\<close> after the session is known.\<close>

lemma SkillsPrompt_sections_of:
  assumes wf: "wf_runtime hx rt" and keys: "\<forall>k \<in> set keys. active_ok (rt_catalog rt) k"
    and cfg: "cfg = normalizeSkillsPromptFilter f"
    and act: "check_activity (sf_activity cfg) (sf_session_id cfg) = Inr u"
    and recs: "records = ListPromptIndexRecords (toCatalogPromptFilter (Some cfg)) (rt_catalog rt)"
    and sess: "(if sf_session_id cfg = [] then (Inr [], rt)
                else session_keys now now' None (sf_session_id cfg) rt) = (Inr keys, rt1)"
    and rt1: "rt_catalog rt1 = rt_catalog rt"
  shows "fst (SkillsPrompt now now' (Some None) f rt) = Inr (expected_prompt (rt_catalog rt) cfg records keys)
    \<and> rt_catalog (snd (SkillsPrompt now now' (Some None) f rt)) = rt_catalog rt"
proof -
  let ?c = "rt_catalog rt"
  have ctx: "check_context (Some None) = Inr ()" by (simp add: check_context_def)
  have items: "active_items res None (map idx_key records) keys ?c
      = (Inr (map (shown_active ?c) (filter (\<lambda>k. k \<in> set (map idx_key records)) keys)), ?c)" for res
    by (rule active_items_loaded [OF keys])
  have avail: "AvailableSkillsPrompt (available_items keys records ?c) = available_section ?c records keys"
    unfolding available_section_def recs
    using available_items_known listed_known [OF wf_runtimeD(3) [OF wf]] by simp
  note nb = AvailableSkillsPrompt_not_blank ActiveSkillsPrompt_not_blank
  note a = check_activity_Inr [OF act]
  have u: "u = ()" by simp
  have eqs: "SkillsPrompt now now' (Some None) f rt =
     (case (if (sf_activity cfg = SkillActivityAny \<or> sf_activity cfg = SkillActivityActive) \<and> sf_session_id cfg \<noteq> []
            then active_items (providerResolver rt1) None (map idx_key records) keys ?c
            else (Inr [], ?c)) of
        (Inl e, c) \<Rightarrow> (Inl e, rt1\<lparr>rt_catalog := c\<rparr>)
      | (Inr items, c) \<Rightarrow>
          (Inr (join_sections
             (if sf_activity cfg = SkillActivityAny \<or> sf_activity cfg = SkillActivityInactive
              then AvailableSkillsPrompt (available_items keys records c) else [])
             (if (sf_activity cfg = SkillActivityAny \<or> sf_activity cfg = SkillActivityActive) \<and> sf_session_id cfg \<noteq> []
              then ActiveSkillsPrompt items
              else if sf_activity cfg = SkillActivityActive then ActiveSkillsPrompt [] else [])),
           rt1\<lparr>rt_catalog := c\<rparr>))"
    unfolding SkillsPrompt_def Let_def option.sel ctx cfg [symmetric] act recs [symmetric] sess
      sum.case prod.case rt1 ..
  show ?thesis
  proof (cases "(sf_activity cfg = SkillActivityAny \<or> sf_activity cfg = SkillActivityActive) \<and> sf_session_id cfg \<noteq> []")
    case True
    then have "sf_activity cfg = SkillActivityAny \<or> sf_activity cfg = SkillActivityActive" by simp
    then show ?thesis
      using True nb
      by (elim disjE) (simp_all add: eqs rt1 items avail active_section_def [symmetric] both_sections_def
          join_sections_simps available_section_def active_section_def expected_prompt_def)
  next
    case False
    with a have "sf_activity cfg = SkillActivityInactive \<or>
        sf_activity cfg = SkillActivityAny \<and> sf_session_id cfg = []" by auto
    then show ?thesis
      using False nb
      by (elim disjE) (simp_all add: eqs rt1 avail join_sections_simps available_section_def expected_prompt_def)
  qed
qed

text \<open>
  C3. A successful \<open>SkillsPrompt\<close> is determined by the catalog and the active list of the open
  session: the active section lists, in the session's order, the active skills that pass the
  filter, with their handle names and rendered bodies; the available section lists the other
  skills that pass it; the activity selects one of them or both, the latter between the prompt
  markers. No provider is asked and the catalog does not change; the call fails only for a bad
  context, a bad activity or a session that is not there.
\<close>

theorem SkillsPrompt_spec:
  assumes "wf_runtime hx rt"
  shows "case SkillsPrompt now now' octx f rt of
     (Inl e, rt') \<Rightarrow> errors_is e ErrInvalidArgument \<or> e = Sentinel ErrSessionNotFound \<or> octx = Some (Some e)
   | (Inr text, rt') \<Rightarrow> rt_catalog rt' = rt_catalog rt \<and> (
       let cfg = normalizeSkillsPromptFilter f;
           records = ListPromptIndexRecords (toCatalogPromptFilter (Some cfg)) (rt_catalog rt)
       in \<exists>keys. (if sf_session_id cfg = [] then keys = []
                  else \<exists>p s. sessions (rt_sessions rt) p = Some s \<and> s_id s = sf_session_id cfg
                    \<and> \<not> closed s \<and> keys = active_order s)
          \<and> text = expected_prompt (rt_catalog rt) cfg records keys)"
proof (cases "check_context octx")
  case (Inl e)
  with check_context_Inl [OF this] show ?thesis by (auto simp: SkillsPrompt_def)
next
  case ctx: (Inr u)
  then have octx: "octx = Some None" by (simp add: check_context_Inr)
  let ?cfg = "normalizeSkillsPromptFilter f"
  let ?sess = "if sf_session_id ?cfg = [] then (Inr [], rt) else session_keys now now' None (sf_session_id ?cfg) rt"
  show ?thesis
  proof (cases "check_activity (sf_activity ?cfg) (sf_session_id ?cfg)")
    case (Inl e)
    with ctx check_activity_Inl [OF this] show ?thesis by (simp add: SkillsPrompt_def Let_def)
  next
    case act: (Inr v)
    obtain r rt1 where sess: "?sess = (r, rt1)" by fastforce
    have e: "rt_catalog rt1 = rt_catalog rt \<and> (case r of Inl e \<Rightarrow> e = Sentinel ErrSessionNotFound
      | Inr keys \<Rightarrow> (if sf_session_id ?cfg = [] then keys = []
           else \<exists>p s. sessions (rt_sessions rt) p = Some s \<and> s_id s = sf_session_id ?cfg
             \<and> \<not> closed s \<and> keys = active_order s)
          \<and> (\<forall>k \<in> set keys. active_ok (rt_catalog rt) k))"
    proof (cases "sf_session_id ?cfg = []")
      case True
      with sess show ?thesis by auto
    next
      case False
      with sess have "session_keys now now' None (sf_session_id ?cfg) rt = (r, rt1)" by simp
      from session_keys_effect [OF assms this] False show ?thesis by (cases r) auto
    qed
    show ?thesis
    proof (cases r)
      case (Inl x)
      with sess e have "sf_session_id ?cfg \<noteq> []"
        "session_keys now now' None (sf_session_id ?cfg) rt = (Inl (Sentinel ErrSessionNotFound), rt1)"
        by (auto split: if_splits)
      then have "SkillsPrompt now now' octx f rt = (Inl (Sentinel ErrSessionNotFound), rt1)"
        using ctx act by (simp add: SkillsPrompt_def Let_def octx)
      then show ?thesis by simp
    next
      case (Inr keys)
      note s = SkillsPrompt_sections_of [OF assms _ refl act refl sess [unfolded Inr]]
      from e Inr have "\<forall>k \<in> set keys. active_ok (rt_catalog rt) k" "rt_catalog rt1 = rt_catalog rt" by auto
      note s = s [OF this]
      then obtain shown rt' where call: "SkillsPrompt now now' octx f rt = (Inr shown, rt')"
        unfolding octx by (metis prod.collapse)
      note out = s [folded octx, unfolded call fst_conv snd_conv sum.inject]
      from e Inr have "if sf_session_id ?cfg = [] then keys = []
           else \<exists>p s. sessions (rt_sessions rt) p = Some s \<and> s_id s = sf_session_id ?cfg
             \<and> \<not> closed s \<and> keys = active_order s" by simp
      with out show ?thesis unfolding call prod.case sum.case Let_def by blast
    qed
  qed
qed

theorem SkillsPrompt_spec_witness:
  "fst (SkillsPrompt 6 7 (Some None) None demo_run)
     = Inr (available_section (rt_catalog demo_run)
         (ListPromptIndexRecords (toCatalogPromptFilter (Some (normalizeSkillsPromptFilter None)))
           (rt_catalog demo_run)) [])"
proof -
  have cfg: "sf_session_id (normalizeSkillsPromptFilter None) = []"
    "sf_activity (normalizeSkillsPromptFilter None) = SkillActivityAny"
    by (simp_all add: normalizeSkillsPromptFilter_def)
  have "check_activity SkillActivityAny [] = Inr ()" by (simp add: check_activity_def)
  then have act: "check_activity (sf_activity (normalizeSkillsPromptFilter None))
      (sf_session_id (normalizeSkillsPromptFilter None)) = Inr ()" by (simp add: cfg)
  have "\<exists>t. fst (SkillsPrompt 6 7 (Some None) None demo_run) = Inr t"
    using SkillsPrompt_sections_of [OF wf_demo_run _ refl act refl, of "[]" 6 7 demo_run]
    by (simp add: cfg)
  then obtain t rt' where t: "SkillsPrompt 6 7 (Some None) None demo_run = (Inr t, rt')"
    by (metis prod.collapse)
  from SkillsPrompt_spec [OF wf_demo_run, where now = 6 and now' = 7 and octx = "Some None" and f = None]
  show ?thesis unfolding t prod.case sum.case Let_def cfg expected_prompt_def by simp
qed

section \<open>Rendering one skill\<close>

text \<open>
  C17. \<open>RenderSkill\<close> renders the body the catalog then holds for the definition: the text and the
  applied arguments are those of \<open>RenderSkillBody\<close> on that body and the declared arguments, the
  warnings are the skill's followed by the rendering's, and the rest is the skill's record. No
  session changes, whether it succeeds or fails, and no active skill is added by it.
\<close>

theorem RenderSkill_spec:
  assumes "wf_runtime hx rt"
  shows "rt_sessions (snd (RenderSkill octx d args rt)) = rt_sessions rt
   \<and> catalog_kept (rt_catalog rt) (rt_catalog (snd (RenderSkill octx d args rt)))
   \<and> (case RenderSkill octx d args rt of
       (Inl e, rt') \<Rightarrow> True
     | (Inr out, rt') \<Rightarrow> \<exists>k idx body. ResolveDef d (rt_catalog rt) = Some k
         \<and> GetIndex k (rt_catalog rt) = Some idx \<and> body_of (rt_catalog rt') k = Some body
         \<and> ro_text out = rr_text (RenderSkillBody body (idx_arguments idx) args)
         \<and> ro_applied_arguments out = rr_applied_arguments (RenderSkillBody body (idx_arguments idx) args)
         \<and> ro_warnings out = idx_warnings idx @ rr_warnings (RenderSkillBody body (idx_arguments idx) args)
         \<and> ro_insert out = idx_insert idx \<and> ro_arguments out = idx_arguments idx
         \<and> ro_tags out = idx_tags idx \<and> ro_resources out = idx_resources idx)"
proof (cases "and_then (check_def octx d) (\<lambda>_. guard_err (blank_def d)
      (invalid_arg ''%w: def.type, def.name, and def.location are required''))")
  case (Inl e)
  then show ?thesis by (simp add: RenderSkill_def)
next
  case ok: (Inr u)
  note wf = wf_runtimeD(3) [OF assms]
  show ?thesis
  proof (cases "ResolveDef d (rt_catalog rt)")
    case None
    then show ?thesis by (simp add: RenderSkill_def ok)
  next
    case key: (Some k)
    show ?thesis
    proof (cases "GetIndex k (rt_catalog rt)")
      case None
      then show ?thesis by (simp add: RenderSkill_def ok key)
    next
      case idx: (Some idx)
      then obtain e where e: "map_of (by_key (rt_catalog rt)) k = Some e" "idx = e_idx e"
        by (auto simp: GetIndex_def simp del: map_of_eq_Some_iff)
      with wf_catalogD(3) [OF wf e(1)] have ins: "fst (NormalizeSkillInsert (idx_insert idx)) = idx_insert idx"
        by (simp add: wf_entry_def)
      obtain r c where b: "EnsureBody (providerResolver rt) (the octx) k (rt_catalog rt) = (r, c)"
        by fastforce
      have kept: "catalog_kept (rt_catalog rt) c"
        using EnsureBody_kept [OF wf, of "providerResolver rt" "the octx" k] b by simp
      show ?thesis
      proof (cases r)
        case (Inl x)
        with b kept show ?thesis by (simp add: RenderSkill_def ok key idx)
      next
        case (Inr body)
        with EnsureBody_body [OF wf, of "providerResolver rt" "the octx" k body] b
        have "body_of c k = Some body" by simp
        with b kept Inr ins show ?thesis
          by (simp add: RenderSkill_def ok key idx Let_def Runtime.cloneSkillResourceInfo_def)
      qed
    qed
  qed
qed

theorem RenderSkill_spec_witness:
  "\<exists>out rt' body. RenderSkill (Some None) (demo_def ''a'' ''x'' ''/s'') Map.empty demo_run = (Inr out, rt')
     \<and> body_of (rt_catalog rt') demo_a = Some body
     \<and> ro_text out = rr_text (RenderSkillBody body [] Map.empty) \<and> rt_sessions rt' = rt_sessions demo_run"
proof -
  obtain r rt' where call: "RenderSkill (Some None) (demo_def ''a'' ''x'' ''/s'') Map.empty demo_run = (r, rt')"
    by fastforce
  have "isl (fst (RenderSkill (Some None) (demo_def ''a'' ''x'' ''/s'') Map.empty demo_run)) = False"
    by code_simp
  with call obtain out where out: "r = Inr out" by (cases r) auto
  have "ResolveDef (demo_def ''a'' ''x'' ''/s'') (rt_catalog demo_run) = Some demo_a" 
    "map_option idx_arguments (GetIndex demo_a (rt_catalog demo_run)) = Some []" by code_simp+
  with RenderSkill_spec [OF wf_demo_run, where octx = "Some None" and d = "demo_def ''a'' ''x'' ''/s''"
      and args = Map.empty] call out
  show ?thesis by auto
qed

end
