(* ===== verification/Tool_Registry.thy ===== *)
theory Tool_Registry
  imports Runtime
begin

text \<open>
  The tools a session offers: their descriptors and the rules about them in src/spec, \<open>Session.NewRegistry\<close>
  (\<open>tools_impl.go\<close>) and the registry that \<open>Runtime.NewSessionRegistry\<close> returns. The registry itself
  belongs to llmtools-go and is a parameter: a type of registries and the functions the source
  calls. The JSON schema of the arguments and the two constants of llmtools-go in a descriptor
  (schema version and start time) are not part of the model.
\<close>

section \<open>Descriptors\<close>

record tool_spec =
  tool_id :: string
  tool_slug :: string
  tool_version :: string
  tool_display_name :: string
  tool_description :: string
  tool_tags :: "string list"
  tool_func_id :: string

definition toolTagSkills :: string where "toolTagSkills = ''skills''"

definition toolVersionOne :: string where "toolVersionOne = ''v1.0.0''"

definition SkillsLoadTool :: tool_spec where
  "SkillsLoadTool =
     \<lparr>tool_id = ''019c4188-4db4-7ad8-bdd0-4126aa1fee00'', tool_slug = ''skills-load'',
      tool_version = toolVersionOne, tool_display_name = ''Skills Load'',
      tool_description = ''load one or more skills into the current session'',
      tool_tags = [toolTagSkills],
      tool_func_id = ''github.com/flexigpt/agentskills-go/skills-load''\<rparr>"

definition SkillsUnloadTool :: tool_spec where
  "SkillsUnloadTool =
     \<lparr>tool_id = ''019c4188-ce79-7a71-ac5a-a54cf5de3815'', tool_slug = ''skills-unload'',
      tool_version = toolVersionOne, tool_display_name = ''Skills Unload'',
      tool_description = ''unload skills from the current session'',
      tool_tags = [toolTagSkills],
      tool_func_id = ''github.com/flexigpt/agentskills-go/skills-unload''\<rparr>"

definition SkillsReadResourceTool :: tool_spec where
  "SkillsReadResourceTool =
     \<lparr>tool_id = ''019c4188-73e6-7301-8d3d-28a5d9e23f9e'', tool_slug = ''skills-readresource'',
      tool_version = toolVersionOne, tool_display_name = ''Skills Read Resource'',
      tool_description = ''read a skill-scoped resource relative to an active skill base location'',
      tool_tags = [toolTagSkills],
      tool_func_id = ''github.com/flexigpt/agentskills-go/skills-readresource''\<rparr>"

definition SkillsRunScriptTool :: tool_spec where
  "SkillsRunScriptTool =
     \<lparr>tool_id = ''019c4188-ac5a-7e5c-8e68-b22e897c4885'', tool_slug = ''skills-runscript'',
      tool_version = toolVersionOne, tool_display_name = ''Skills Run Script'',
      tool_description = ''execute a script from within the selected active skill'',
      tool_tags = [toolTagSkills, ''exec''],
      tool_func_id = ''github.com/flexigpt/agentskills-go/skills-runscript''\<rparr>"

section \<open>The rules a host gives the model\<close>

definition skillsRulesCommon :: string where
  "skillsRulesCommon = [NL] @ ''Rules:'' @ [NL]
     @ ''1) Only use skills that are listed in the provided skills prompt.'' @ [NL]
     @ ''2) Prefer reading advertised skill resource locations with skills-readresource before running scripts.''
     @ [NL]
     @ ''3) After calling skills-load or skills-unload, rely on the updated skills context in subsequent turns.''"

definition skillsToolsBase :: string where
  \<open>skillsToolsBase = ''You have access to "skills" tools:'' @ [NL] @ ''- skills-load'' @ [NL]
     @ ''- skills-unload'' @ [NL] @ ''- skills-readresource''\<close>

definition skillsToolsLoadOnly :: string where
  \<open>skillsToolsLoadOnly = ''You have access to tool "skills-load". ''
     @ ''After you load at least one skill, more skills tools may be available.''\<close>

definition skillsToolsAllWithRunScript :: string where
  "skillsToolsAllWithRunScript = skillsToolsBase @ [NL] @ ''- skills-runscript''"

definition SkillsRulesPromptLoadOnly :: string where
  "SkillsRulesPromptLoadOnly = skillsToolsLoadOnly @ [NL] @ skillsRulesCommon"

definition SkillsRulesPromptWithoutRunScript :: string where
  "SkillsRulesPromptWithoutRunScript = skillsToolsBase @ [NL] @ skillsRulesCommon"

definition SkillsRulesPromptAll :: string where
  "SkillsRulesPromptAll = skillsToolsAllWithRunScript @ [NL] @ skillsRulesCommon"

section \<open>Registration\<close>

text \<open>A handler bound to a session, by the type of its arguments and result.\<close>

datatype tool_handler =
    LoadHandler "int \<Rightarrow> ctx \<Rightarrow> load_args \<Rightarrow> runtime \<Rightarrow> (go_error + skill_handle list) \<times> runtime"
  | UnloadHandler "int \<Rightarrow> ctx \<Rightarrow> unload_args \<Rightarrow> runtime \<Rightarrow> (go_error + skill_handle list) \<times> runtime"
  | ReadHandler "int \<Rightarrow> ctx \<Rightarrow> read_args \<Rightarrow> runtime \<Rightarrow> (go_error + tool_output list) \<times> runtime"
  | RunHandler "int \<Rightarrow> ctx \<Rightarrow> script_args \<Rightarrow> runtime \<Rightarrow> (go_error + run_script_out) \<times> runtime"

text \<open>
  What the source calls of llmtools-go, for registries of type \<open>'r\<close> made with options of type \<open>'o\<close>:
  \<open>NewRegistry\<close>, \<open>RegisterTypedAsTextTool\<close> and \<open>RegisterOutputsTool\<close>.
\<close>

record ('o, 'r) registry_api =
  api_new :: "'o list \<Rightarrow> go_error + 'r"
  api_register_text :: "'r \<Rightarrow> tool_spec \<Rightarrow> tool_handler \<Rightarrow> go_error + 'r"
  api_register_outputs :: "'r \<Rightarrow> tool_spec \<Rightarrow> tool_handler \<Rightarrow> go_error + 'r"

text \<open>
  The session is the pointer \<open>p\<close>; a failed registration discards the registry made so far.
\<close>

definition NewRegistry :: "('o, 'r) registry_api \<Rightarrow> 'o list \<Rightarrow> nat \<Rightarrow> go_error + 'r" where
  "NewRegistry api opts p =
     and_then (api_new api opts) (\<lambda>r.
     and_then (api_register_text api r SkillsLoadTool
                 (LoadHandler (\<lambda>now ctx. skills_load now ctx p))) (\<lambda>r.
     and_then (api_register_text api r SkillsUnloadTool
                 (UnloadHandler (\<lambda>now ctx. skills_unload now ctx p))) (\<lambda>r.
     and_then (api_register_outputs api r SkillsReadResourceTool
                 (ReadHandler (\<lambda>now ctx. skills_read now ctx p))) (\<lambda>r.
     api_register_text api r SkillsRunScriptTool
       (RunHandler (\<lambda>now ctx. skills_run now ctx p))))))"

definition session_registry ::
  "('o, 'r) registry_api \<Rightarrow> 'o list \<Rightarrow> int \<Rightarrow> ctx option \<Rightarrow> string \<Rightarrow> runtime
   \<Rightarrow> (go_error + 'r) \<times> runtime" where
  "session_registry api opts now octx sid rt =
     (case NewSessionRegistry now octx sid rt of
        (r, rt') \<Rightarrow> (and_then r (NewRegistry api opts), rt'))"

section \<open>The registry of a session runs its tools\<close>

text \<open>
  What is relied on of llmtools-go: a registration binds the function of the descriptor to the
  handler and leaves the other functions as they are. \<open>look\<close> finds the handler of a function.
\<close>

definition registers :: "('r \<Rightarrow> string \<Rightarrow> tool_handler option)
    \<Rightarrow> ('r \<Rightarrow> tool_spec \<Rightarrow> tool_handler \<Rightarrow> go_error + 'r) \<Rightarrow> bool" where
  "registers look reg \<longleftrightarrow>
     (\<forall>r t h r'. reg r t h = Inr r' \<longrightarrow> look r' = (look r)(tool_func_id t \<mapsto> h))"

lemma registersD: "registers look reg \<Longrightarrow> reg r t h = Inr r' \<Longrightarrow> look r' = (look r)(tool_func_id t \<mapsto> h)"
  by (simp add: registers_def)

text \<open>The four tools have different functions, so that none takes the place of another.\<close>

lemma tool_functions_distinct:
  "distinct (map tool_func_id [SkillsLoadTool, SkillsUnloadTool, SkillsReadResourceTool, SkillsRunScriptTool])"
  by code_simp

definition session_tools :: "nat \<Rightarrow> string \<rightharpoonup> tool_handler" where
  "session_tools p = [tool_func_id SkillsLoadTool \<mapsto> LoadHandler (\<lambda>now ctx. skills_load now ctx p),
     tool_func_id SkillsUnloadTool \<mapsto> UnloadHandler (\<lambda>now ctx. skills_unload now ctx p),
     tool_func_id SkillsReadResourceTool \<mapsto> ReadHandler (\<lambda>now ctx. skills_read now ctx p),
     tool_func_id SkillsRunScriptTool \<mapsto> RunHandler (\<lambda>now ctx. skills_run now ctx p)]"

lemma NewRegistry_tools:
  assumes "registers look (api_register_text api)" and "registers look (api_register_outputs api)"
    and "NewRegistry api opts p = Inr r"
  obtains r0 where "api_new api opts = Inr r0" and "look r = look r0 ++ session_tools p"
proof -
  from assms(3) obtain r0 r1 r2 r3 where r: "api_new api opts = Inr r0"
    "api_register_text api r0 SkillsLoadTool (LoadHandler (\<lambda>now ctx. skills_load now ctx p)) = Inr r1"
    "api_register_text api r1 SkillsUnloadTool (UnloadHandler (\<lambda>now ctx. skills_unload now ctx p)) = Inr r2"
    "api_register_outputs api r2 SkillsReadResourceTool (ReadHandler (\<lambda>now ctx. skills_read now ctx p)) = Inr r3"
    "api_register_text api r3 SkillsRunScriptTool (RunHandler (\<lambda>now ctx. skills_run now ctx p)) = Inr r"
    by (auto simp: NewRegistry_def)
  have "look r = look r0 ++ session_tools p"
    unfolding registersD [OF assms(1) r(5)] registersD [OF assms(2) r(4)]
      registersD [OF assms(1) r(3)] registersD [OF assms(1) r(2)] session_tools_def
    by (simp only: map_add_upd map_add_empty)
  with r(1) show thesis by (rule that)
qed

text \<open>
  The registry of an open session runs the four tools on that session: whatever the options put
  into it, each of the four functions is the handler of the session whose identifier was given,
  and making the registry touches nothing but the last use of that session.
\<close>

lemma session_registry_tools:
  assumes "registers look (api_register_text api)" and "registers look (api_register_outputs api)"
    and "session_registry api opts now octx sid rt = (Inr r, rt')"
  shows "\<exists>p. NewSessionRegistry now octx sid rt = (Inr p, rt')
    \<and> (\<forall>f h. session_tools p f = Some h \<longrightarrow> look r f = Some h)"
proof -
  from assms(3) obtain p where p: "NewSessionRegistry now octx sid rt = (Inr p, rt')"
    "NewRegistry api opts p = Inr r"
    by (auto simp: session_registry_def split: prod.splits)
  from NewRegistry_tools [OF assms(1,2) p(2)] have "\<forall>f h. session_tools p f = Some h \<longrightarrow> look r f = Some h"
    by (metis map_add_find_right)
  with p(1) show ?thesis by blast
qed

end
