(* ===== verification/Simulation.thy ===== *)
theory Simulation
  imports Prelude
begin

text \<open>
  Forward simulation between operations with results and an abstract specification of them: what
  the components with an abstract contract share.
\<close>

text \<open>A sequence of operations, with the results in their order.\<close>

fun exec_all :: "('op \<Rightarrow> 'c \<Rightarrow> 'r \<times> 'c) \<Rightarrow> 'op list \<Rightarrow> 'c \<Rightarrow> 'r list \<times> 'c" where
  "exec_all exec [] c = ([], c)"
| "exec_all exec (x # xs) c =
     (case exec x c of (r, c1) \<Rightarrow> (case exec_all exec xs c1 of (rs, c2) \<Rightarrow> (r # rs, c2)))"

inductive spec_all :: "('op \<Rightarrow> 'r \<Rightarrow> 'a \<Rightarrow> 'a \<Rightarrow> bool) \<Rightarrow> 'op list \<Rightarrow> 'r list \<Rightarrow> 'a \<Rightarrow> 'a \<Rightarrow> bool"
  for spec where
  spec_none: "spec_all spec [] [] a a"
| spec_more: "spec x r a b \<Longrightarrow> spec_all spec xs rs b d \<Longrightarrow> spec_all spec (x # xs) (r # rs) a d"

inductive_cases spec_moreE: "spec_all spec (x # xs) rs a d"

text \<open>A specification that is a function.\<close>

lemma spec_all_fun: "spec_all (\<lambda>x r a b. f x a = (r, b)) xs rs a b \<Longrightarrow> exec_all f xs a = (rs, b)"
  by (induction rule: spec_all.induct) simp_all

text \<open>Every operation is called where its precondition holds.\<close>

fun admissible :: "('op \<Rightarrow> 'c \<Rightarrow> bool) \<Rightarrow> ('op \<Rightarrow> 'c \<Rightarrow> 'r \<times> 'c) \<Rightarrow> 'op list \<Rightarrow> 'c \<Rightarrow> bool" where
  "admissible pre exec [] c \<longleftrightarrow> True"
| "admissible pre exec (x # xs) c \<longleftrightarrow> pre x c \<and> admissible pre exec xs (snd (exec x c))"

lemma admissible_always [simp]: "admissible (\<lambda>x c. True) exec xs c"
  by (induction xs arbitrary: c) simp_all

text \<open>
  The client proves that every operation keeps an invariant and, seen through the abstraction, is
  allowed by the specification; then every admissible sequence of operations is.
\<close>

locale simulation =
  fixes exec :: "'op \<Rightarrow> 'c \<Rightarrow> 'r \<times> 'c"
    and spec :: "'op \<Rightarrow> 'r \<Rightarrow> 'a \<Rightarrow> 'a \<Rightarrow> bool"
    and pre :: "'op \<Rightarrow> 'c \<Rightarrow> bool"
    and inv :: "'c \<Rightarrow> bool"
    and view :: "'c \<Rightarrow> 'a"
  assumes exec_inv: "inv c \<Longrightarrow> pre x c \<Longrightarrow> exec x c = (r, c') \<Longrightarrow> inv c'"
    and exec_spec: "inv c \<Longrightarrow> pre x c \<Longrightarrow> exec x c = (r, c') \<Longrightarrow> spec x r (view c) (view c')"
begin

lemma exec_all_spec:
  "inv c \<Longrightarrow> admissible pre exec xs c \<Longrightarrow> exec_all exec xs c = (rs, c') \<Longrightarrow>
     inv c' \<and> spec_all spec xs rs (view c) (view c')"
proof (induction xs arbitrary: c rs)
  case (Cons x xs)
  obtain r c1 where step: "exec x c = (r, c1)" by force
  obtain rs' c2 where rest: "exec_all exec xs c1 = (rs', c2)" by force
  from Cons.prems step rest have eq: "rs = r # rs'" "c2 = c'" and ok: "pre x c" "admissible pre exec xs c1"
    by simp_all
  have "inv c' \<and> spec_all spec xs rs' (view c1) (view c')"
    using Cons.IH [OF exec_inv [OF Cons.prems(1) ok(1) step] ok(2)] rest eq by simp
  with exec_spec [OF Cons.prems(1) ok(1) step] eq show ?case by (auto intro: spec_more)
qed (auto intro: spec_none)

end

end
