(* ===== verification/Catalog_Concurrency.thy ===== *)
theory Catalog_Concurrency
  imports Catalog_Theorems
begin

text \<open>
  \<open>EnsureBody\<close> as its callers run it, concurrently: every caller is a thread between two critical
  sections of the catalog's mutex. A thread enters the loop, waits on a channel, or is the loader
  and calls the provider without the lock; additions and removals of skills happen in between.
\<close>

section \<open>Threads\<close>

text \<open>
  Where a caller is: at the head of the loop with a number of attempts left, waiting on a channel,
  loading (the provider is being called), or back with its result.
\<close>

datatype phase =
    Start nat
  | Waiting nat nat
  | Loading nat provider_skill_key
  | Returned "go_error + string"

record thread =
  t_key :: provider_skill_key
  t_phase :: phase

record system =
  sy_catalog :: catalog
  sy_threads :: "thread list"

fun after_enter :: "nat \<Rightarrow> enter \<Rightarrow> phase" where
  "after_enter n (EnterReturn r) = Returned r"
| "after_enter n (EnterWait ch) = Waiting ch n"
| "after_enter n (EnterLoad ch k) = Loading ch k"

definition set_phase :: "nat \<Rightarrow> phase \<Rightarrow> thread list \<Rightarrow> thread list" where
  "set_phase i ph ts = ts[i := (ts ! i)\<lparr>t_phase := ph\<rparr>]"

definition at :: "thread list \<Rightarrow> nat \<Rightarrow> provider_skill_key \<Rightarrow> phase \<Rightarrow> bool" where
  "at ts i k ph \<longleftrightarrow> i < length ts \<and> ts ! i = \<lparr>t_key = k, t_phase = ph\<rparr>"

text \<open>The steps of the callers; what the provider answers is open.\<close>

inductive load_step :: "system \<Rightarrow> system \<Rightarrow> bool" where
  Enter: "at ts i k (Start (Suc n)) \<Longrightarrow> ensure_enter k c = (x, c') \<Longrightarrow>
    load_step \<lparr>sy_catalog = c, sy_threads = ts\<rparr>
      \<lparr>sy_catalog = c', sy_threads = set_phase i (after_enter n x) ts\<rparr>"
| Exhaust: "at ts i k (Start 0) \<Longrightarrow>
    load_step \<lparr>sy_catalog = c, sy_threads = ts\<rparr>
      \<lparr>sy_catalog = c,
       sy_threads = set_phase i (Returned (Inl (Msg ''could not ensure skill body''))) ts\<rparr>"
| Wake: "at ts i k (Waiting ch n) \<Longrightarrow> ch \<in> closed_chans c \<Longrightarrow>
    load_step \<lparr>sy_catalog = c, sy_threads = ts\<rparr>
      \<lparr>sy_catalog = c, sy_threads = set_phase i (Start n) ts\<rparr>"
| Finish: "at ts i k (Loading ch rk) \<Longrightarrow>
    load_step \<lparr>sy_catalog = c, sy_threads = ts\<rparr>
      \<lparr>sy_catalog = finishBodyLoad k ch r c, sy_threads = set_phase i (Returned r) ts\<rparr>"

text \<open>The context of a caller ends while it waits, or before it enters.\<close>

inductive cancel_step :: "system \<Rightarrow> system \<Rightarrow> bool" where
  CancelWait: "at ts i k (Waiting ch n) \<Longrightarrow>
    cancel_step \<lparr>sy_catalog = c, sy_threads = ts\<rparr>
      \<lparr>sy_catalog = c, sy_threads = set_phase i (Returned (Inl e)) ts\<rparr>"
| CancelStart: "at ts i k (Start (Suc n)) \<Longrightarrow>
    cancel_step \<lparr>sy_catalog = c, sy_threads = ts\<rparr>
      \<lparr>sy_catalog = c, sy_threads = set_phase i (Returned (Inl e)) ts\<rparr>"

text \<open>Others use the catalog; whether skills may be removed is a parameter.\<close>

inductive other_step :: "(string \<Rightarrow> string) \<Rightarrow> bool \<Rightarrow> system \<Rightarrow> system \<Rightarrow> bool" for hx removals where
  OtherAdd: "other_step hx removals \<lparr>sy_catalog = c, sy_threads = ts\<rparr>
      \<lparr>sy_catalog = snd (Add hx res ctx d c), sy_threads = ts\<rparr>"
| OtherRemove: "removals \<Longrightarrow> other_step hx removals \<lparr>sy_catalog = c, sy_threads = ts\<rparr>
      \<lparr>sy_catalog = snd (Remove hx d c), sy_threads = ts\<rparr>"

definition system_step :: "(string \<Rightarrow> string) \<Rightarrow> bool \<Rightarrow> system \<Rightarrow> system \<Rightarrow> bool" where
  "system_step hx removals s t \<longleftrightarrow> load_step s t \<or> cancel_step s t \<or> other_step hx removals s t"

text \<open>Callers that have just made their call, on a catalog nobody is loading from.\<close>

definition calls :: "catalog \<Rightarrow> provider_skill_key list \<Rightarrow> system" where
  "calls c ks = \<lparr>sy_catalog = c, sy_threads = map (\<lambda>k. \<lparr>t_key = k, t_phase = Start 5\<rparr>) ks\<rparr>"

inductive_cases load_stepE: "load_step s t"
inductive_cases cancel_stepE: "cancel_step s t"
inductive_cases other_stepE: "other_step hx removals s t"
inductive_simps load_step_iff: "load_step \<lparr>sy_catalog = c, sy_threads = ts\<rparr> t"

lemma length_set_phase [simp]: "length (set_phase i ph ts) = length ts"
  by (simp add: set_phase_def)

lemma at_set_phase:
  "at ts i k ph \<Longrightarrow> at (set_phase i ph' ts) j k' q \<longleftrightarrow> (if j = i then k' = k \<and> q = ph' else at ts j k' q)"
  by (auto simp: at_def set_phase_def nth_list_update)

lemma at_unique: "at ts i k ph \<Longrightarrow> at ts i k' ph' \<Longrightarrow> k = k' \<and> ph = ph'"
  by (simp add: at_def)

section \<open>The channels and the bodies of a catalog\<close>

text \<open>What the threads see of a catalog: the channel and the loaded body of each key.\<close>

definition chan_of :: "catalog \<Rightarrow> provider_skill_key \<Rightarrow> nat option" where
  "chan_of c k = (case map_of (by_key c) k of None \<Rightarrow> None | Some e \<Rightarrow> body_wait e)"

definition body_of :: "catalog \<Rightarrow> provider_skill_key \<Rightarrow> string option" where
  "body_of c k = (case map_of (by_key c) k of
       None \<Rightarrow> None
     | Some e \<Rightarrow> if body_loaded e then Some (idx_skill_body (e_idx e)) else None)"

lemma chan_of_by_def [simp]: "chan_of (c\<lparr>by_def := m\<rparr>) = chan_of c"
  by (simp add: chan_of_def fun_eq_iff)

lemma named_sees:
  "chan_of (recomputeLLMNamesLocked hx c) k = chan_of c k
   \<and> body_of (recomputeLLMNamesLocked hx c) k = body_of c k"
  by (cases "map_of (by_key c) k")
    (simp_all add: chan_of_def body_of_def map_of_assign_names)

lemma Add_sees:
  assumes "snd (Add hx res ctx d c) = c'"
  shows "chan_of c' = chan_of c \<and> (\<forall>k b. body_of c k = Some b \<longrightarrow> body_of c' k = Some b)
    \<and> (\<forall>k. chan_of c k \<noteq> None \<longrightarrow> body_of c' k = body_of c k)
    \<and> closed_chans c' = closed_chans c \<and> next_chan c' = next_chan c"
proof (cases "fst (Add hx res ctx d c)")
  case (Inl e)
  with Add_Inl [OF Inl] assms show ?thesis by simp
next
  case (Inr rec)
  with assms have "Add hx res ctx d c = (Inr rec, c')" by (metis prod.collapse)
  then obtain idx where fresh: "map_of (by_key c) (idx_key idx) = None"
    and c': "c' = recomputeLLMNamesLocked hx (c\<lparr>by_key := AList.update (idx_key idx)
        \<lparr>e_def = d, e_idx = idx, body_loaded = (idx_skill_body idx \<noteq> []), llm_name = [],
         body_wait = None, body_err = None\<rparr> (by_key c),
        by_def := AList.update d (idx_key idx) (by_def c)\<rparr>)"
    by (rule Add_Inr)
  have "chan_of c' k = chan_of c k" for k
    unfolding c' named_sees [THEN conjunct1] using fresh by (simp add: chan_of_def)
  moreover have "body_of c k = Some b \<Longrightarrow> body_of c' k = Some b" for k b
    unfolding c' named_sees [THEN conjunct2] using fresh by (auto simp: body_of_def)
  moreover have "chan_of c k \<noteq> None \<Longrightarrow> body_of c' k = body_of c k" for k
    unfolding c' named_sees [THEN conjunct2] using fresh by (auto simp: body_of_def chan_of_def)
  ultimately show ?thesis by (auto simp: c')
qed

lemma Remove_sees:
  assumes "snd (Remove hx d c) = c'"
  obtains "chan_of c' = chan_of c" "closed_chans c' = closed_chans c" "next_chan c' = next_chan c"
  | k where "chan_of c' = (chan_of c)(k := None)"
    "closed_chans c' = closed_chans c \<union> set_option (chan_of c k)" "next_chan c' = next_chan c"
proof (cases "fst (Remove hx d c)")
  case None
  with assms that(1) show ?thesis
    by (auto simp: Remove_def Let_def split: option.splits)
next
  case (Some p)
  then obtain k e where k: "map_of (by_def c) d = Some k" "map_of (by_key c) k = Some e"
    by (auto simp: Remove_def split: option.splits)
  have c': "c' = recomputeLLMNamesLocked hx ((close_wait e c)\<lparr>by_key := AList.delete k (by_key c),
      by_def := AList.delete (e_def e) (by_def c)\<rparr>)"
    using assms k by (auto simp: Remove_def Let_def close_wait_def split: option.splits)
  have "chan_of c' j = ((chan_of c)(k := None)) j" for j
    unfolding c' named_sees [THEN conjunct1] by (simp add: chan_of_def)
  moreover have "closed_chans c' = closed_chans c \<union> set_option (chan_of c k)" "next_chan c' = next_chan c"
    using k(2) by (auto simp: c' close_wait_def chan_of_def split: option.splits)
  ultimately show ?thesis using that(2) by blast
qed

lemma enter_sees:
  assumes "ensure_enter k c = (x, c')"
  obtains r where "x = EnterReturn r" "c' = c" "\<forall>b. r = Inr b \<longrightarrow> body_of c k = Some b"
  | ch where "x = EnterWait ch" "c' = c" "chan_of c k = Some ch"
  | rk where "x = EnterLoad (next_chan c) rk" "chan_of c' = (chan_of c)(k := Some (next_chan c))"
    "body_of c' = body_of c" "body_of c k = None" "chan_of c k = None"
    "closed_chans c' = closed_chans c" "next_chan c' = Suc (next_chan c)"
proof (cases "map_of (by_key c) k")
  case None
  with assms that(1) show ?thesis by (auto simp: ensure_enter_def)
next
  case (Some e)
  consider (loaded) "body_loaded e" | (failed) err where "\<not> body_loaded e" "body_err e = Some err"
    | (wait) ch where "\<not> body_loaded e" "body_err e = None" "body_wait e = Some ch"
    | (load) "\<not> body_loaded e" "body_err e = None" "body_wait e = None" by fastforce
  then show ?thesis
  proof cases
    case loaded
    with assms Some have "x = EnterReturn (Inr (idx_skill_body (e_idx e)))" "c' = c"
      by (simp_all add: ensure_enter_def)
    moreover have "body_of c k = Some (idx_skill_body (e_idx e))" using Some loaded by (simp add: body_of_def)
    ultimately show ?thesis using that(1) by simp
  next
    case failed
    with assms Some have "x = EnterReturn (Inl err)" "c' = c" by (simp_all add: ensure_enter_def)
    then show ?thesis using that(1) by simp
  next
    case wait
    with assms Some have "x = EnterWait ch" "c' = c" by (simp_all add: ensure_enter_def)
    moreover have "chan_of c k = Some ch" using Some wait by (simp add: chan_of_def)
    ultimately show ?thesis using that(2) by simp
  next
    case load
    with assms Some have x: "x = EnterLoad (next_chan c) (idx_key (e_idx e))"
      and c': "c' = c\<lparr>by_key := AList.update k (e\<lparr>body_wait := Some (next_chan c)\<rparr>) (by_key c),
        next_chan := Suc (next_chan c)\<rparr>" by (simp_all add: ensure_enter_def Let_def)
    have "chan_of c' j = ((chan_of c)(k := Some (next_chan c))) j" "body_of c' j = body_of c j" for j
      using Some load by (simp_all add: c' chan_of_def body_of_def)
    moreover have "body_of c k = None" "chan_of c k = None" using Some load
      by (simp_all add: chan_of_def body_of_def)
    ultimately show ?thesis using that(3) [OF x] by (simp add: c' fun_eq_iff)
  qed
qed

lemma finish_sees:
  "chan_of (finishBodyLoad k ch r c)
     = (if chan_of c k = Some ch then (chan_of c)(k := None) else chan_of c)
   \<and> closed_chans (finishBodyLoad k ch r c)
     = (if chan_of c k = Some ch then insert ch (closed_chans c) else closed_chans c)
   \<and> next_chan (finishBodyLoad k ch r c) = next_chan c
   \<and> (body_of c k = None \<longrightarrow> body_of (finishBodyLoad k ch r c) = (body_of c)(k :=
        if chan_of c k = Some ch then (case r of Inr b \<Rightarrow> Some b | Inl e \<Rightarrow> None) else None))"
  by (cases "map_of (by_key c) k")
    (auto simp: finishBodyLoad_def chan_of_def body_of_def finish_entry_def fun_eq_iff
      simp del: map_of_eq_Some_iff split: option.splits sum.splits if_splits)

section \<open>No wake-up is lost\<close>

text \<open>
  The invariant: the channel of an entry is open and has its loader, a channel has one loader, and
  whoever waits does so on a closed channel or on the channel of the entry.
\<close>

definition flight_ok :: "catalog \<Rightarrow> thread list \<Rightarrow> bool" where
  "flight_ok c ts \<longleftrightarrow>
     (\<forall>k ch. chan_of c k = Some ch \<longrightarrow>
        ch < next_chan c \<and> ch \<notin> closed_chans c \<and> (\<exists>i rk. at ts i k (Loading ch rk)))
     \<and> (\<forall>i k ch n. at ts i k (Waiting ch n) \<longrightarrow> ch \<in> closed_chans c \<or> chan_of c k = Some ch)
     \<and> (\<forall>i k ch rk. at ts i k (Loading ch rk) \<longrightarrow>
          ch < next_chan c \<and> (\<forall>j k' rk'. at ts j k' (Loading ch rk') \<longrightarrow> j = i))
     \<and> (\<forall>ch \<in> closed_chans c. ch < next_chan c)"

lemma flight_chan:
  "flight_ok c ts \<Longrightarrow> chan_of c k = Some ch \<Longrightarrow>
     ch < next_chan c \<and> ch \<notin> closed_chans c \<and> (\<exists>i rk. at ts i k (Loading ch rk))"
  unfolding flight_ok_def by blast

lemma flight_waiting:
  "flight_ok c ts \<Longrightarrow> at ts i k (Waiting ch n) \<Longrightarrow> ch \<in> closed_chans c \<or> chan_of c k = Some ch"
  unfolding flight_ok_def by blast

lemma flight_loader:
  "flight_ok c ts \<Longrightarrow> at ts i k (Loading ch rk) \<Longrightarrow> ch < next_chan c"
  "flight_ok c ts \<Longrightarrow> at ts i k (Loading ch rk) \<Longrightarrow> at ts j k' (Loading ch rk') \<Longrightarrow> j = i"
  unfolding flight_ok_def by blast+

lemma flight_closed: "flight_ok c ts \<Longrightarrow> ch \<in> closed_chans c \<Longrightarrow> ch < next_chan c"
  unfolding flight_ok_def by blast

lemma flight_okI:
  assumes "\<And>k ch. chan_of c k = Some ch \<Longrightarrow>
      ch < next_chan c \<and> ch \<notin> closed_chans c \<and> (\<exists>i rk. at ts i k (Loading ch rk))"
    and "\<And>i k ch n. at ts i k (Waiting ch n) \<Longrightarrow> ch \<in> closed_chans c \<or> chan_of c k = Some ch"
    and "\<And>i k ch rk. at ts i k (Loading ch rk) \<Longrightarrow> ch < next_chan c"
    and "\<And>i k ch rk j k' rk'. at ts i k (Loading ch rk) \<Longrightarrow> at ts j k' (Loading ch rk') \<Longrightarrow> j = i"
    and "\<And>ch. ch \<in> closed_chans c \<Longrightarrow> ch < next_chan c"
  shows "flight_ok c ts"
  unfolding flight_ok_def using assms by blast

lemma flight_chan_inj:
  "flight_ok c ts \<Longrightarrow> chan_of c k = Some ch \<Longrightarrow> chan_of c k' = Some ch \<Longrightarrow> k = k'"
  using flight_chan at_unique unfolding flight_ok_def by metis

text \<open>A phase that neither waits nor loads.\<close>

fun idle :: "phase \<Rightarrow> bool" where
  "idle (Start n) = True"
| "idle (Returned r) = True"
| "idle _ = False"

text \<open>A thread leaves a phase without a channel, or a wait, for one without a channel.\<close>

lemma flight_idle:
  assumes "flight_ok c ts" and "at ts i k ph" and "\<And>ch rk. ph \<noteq> Loading ch rk" and "idle ph'"
  shows "flight_ok c (set_phase i ph' ts)"
proof -
  have "at (set_phase i ph' ts) j k' (Loading ch rk) \<longleftrightarrow> at ts j k' (Loading ch rk)" for j k' ch rk
    using assms(3,4) by (auto simp: at_set_phase [OF assms(2)] dest: at_unique [OF assms(2)])
  moreover have "at (set_phase i ph' ts) j k' (Waiting ch n) \<Longrightarrow> at ts j k' (Waiting ch n)" for j k' ch n
    using at_set_phase [OF assms(2)] assms(4) by (cases ph') (auto split: if_splits)
  ultimately show ?thesis using assms(1) unfolding flight_ok_def by blast
qed

lemma flight_wait:
  assumes "flight_ok c ts" and "at ts i k (Start n)" and "chan_of c k = Some ch"
  shows "flight_ok c (set_phase i (Waiting ch m) ts)"
proof -
  have "at (set_phase i (Waiting ch m) ts) j k' (Loading ch' rk) \<longleftrightarrow> at ts j k' (Loading ch' rk)" for j k' ch' rk
    by (auto simp: at_set_phase [OF assms(2)] dest: at_unique [OF assms(2)])
  moreover have "at (set_phase i (Waiting ch m) ts) j k' (Waiting ch' n')
      \<Longrightarrow> at ts j k' (Waiting ch' n') \<or> k' = k \<and> ch' = ch" for j k' ch' n'
    using at_set_phase [OF assms(2)] by (auto split: if_splits)
  ultimately show ?thesis using assms(1,3) unfolding flight_ok_def by blast
qed

lemma flight_load:
  assumes "flight_ok c ts" and "at ts i k (Start n)" and "chan_of c k = None"
    and "chan_of c' = (chan_of c)(k := Some (next_chan c))"
    and "closed_chans c' = closed_chans c" and "next_chan c' = Suc (next_chan c)"
  shows "flight_ok c' (set_phase i (Loading (next_chan c) rk) ts)"
proof -
  let ?ts = "set_phase i (Loading (next_chan c) rk) ts"
  have L: "at ?ts j k' (Loading ch rk') \<longleftrightarrow>
      (if j = i then k' = k \<and> ch = next_chan c \<and> rk' = rk else at ts j k' (Loading ch rk'))" for j k' ch rk'
    by (auto simp: at_set_phase [OF assms(2)] dest: at_unique [OF assms(2)])
  have W: "at ?ts j k' (Waiting ch m) \<longleftrightarrow> at ts j k' (Waiting ch m)" for j k' ch m
    by (auto simp: at_set_phase [OF assms(2)] dest: at_unique [OF assms(2)])
  show ?thesis
  proof (rule flight_okI)
    fix k' ch assume chan: "chan_of c' k' = Some ch"
    show "ch < next_chan c' \<and> ch \<notin> closed_chans c' \<and> (\<exists>j rk'. at ?ts j k' (Loading ch rk'))"
    proof (cases "k' = k")
      case True
      with chan assms(4) have "ch = next_chan c" by simp
      moreover have "next_chan c \<notin> closed_chans c" using flight_closed [OF assms(1)] by blast
      ultimately show ?thesis using True L [of i k "next_chan c" rk] assms(5,6) by auto
    next
      case False
      with chan assms(4) have "chan_of c k' = Some ch" by simp
      from flight_chan [OF assms(1) this] obtain j rk' where
        j: "ch < next_chan c" "ch \<notin> closed_chans c" "at ts j k' (Loading ch rk')" by blast
      with at_unique [OF assms(2), of k' "Loading ch rk'"] have "j \<noteq> i" by auto
      with j(3) L [of j k' ch rk'] have "at ?ts j k' (Loading ch rk')" by simp
      with j(1,2) assms(5,6) show ?thesis by auto
    qed
  next
    fix j k' ch m assume "at ?ts j k' (Waiting ch m)"
    with W flight_waiting [OF assms(1)] assms(3-5) show "ch \<in> closed_chans c' \<or> chan_of c' k' = Some ch"
      by (metis fun_upd_other option.distinct(1))
  next
    fix j k' ch rk' assume "at ?ts j k' (Loading ch rk')"
    with L flight_loader(1) [OF assms(1)] assms(6) show "ch < next_chan c'" by (metis less_SucI lessI)
  next
    fix j k1 ch rk1 j' k2 rk2
    assume "at ?ts j k1 (Loading ch rk1)" "at ?ts j' k2 (Loading ch rk2)"
    with L flight_loader [OF assms(1)] show "j' = j" by (metis less_irrefl_nat)
  next
    fix ch assume "ch \<in> closed_chans c'"
    with flight_closed [OF assms(1)] assms(5,6) show "ch < next_chan c'" by (simp add: less_SucI)
  qed
qed

lemma flight_finish:
  assumes "flight_ok c ts" and "at ts i k (Loading ch rk)"
  shows "flight_ok (finishBodyLoad k ch r c) (set_phase i (Returned r) ts)"
proof -
  let ?c = "finishBodyLoad k ch r c" and ?ts = "set_phase i (Returned r) ts"
  note sees = finish_sees [of k ch r c]
  have L: "at ?ts j k' (Loading ch' rk') \<longleftrightarrow> j \<noteq> i \<and> at ts j k' (Loading ch' rk')" for j k' ch' rk'
    using at_set_phase [OF assms(2)] by auto
  have W: "at ?ts j k' (Waiting ch' m) \<longleftrightarrow> at ts j k' (Waiting ch' m)" for j k' ch' m
    using at_unique [OF assms(2), of k' "Waiting ch' m"] by (auto simp: at_set_phase [OF assms(2)])
  have own: "ch < next_chan c" using assms unfolding flight_ok_def by blast
  have loader: "\<exists>j rk'. j \<noteq> i \<and> at ts j k' (Loading ch' rk')"
    if "chan_of c k' = Some ch'" "k' = k \<Longrightarrow> ch' \<noteq> ch" for k' ch'
  proof -
    from flight_chan [OF assms(1) that(1)] obtain j rk' where j: "at ts j k' (Loading ch' rk')" by blast
    with at_unique [OF assms(2)] that(2) have "j \<noteq> i" by auto
    with j show ?thesis by blast
  qed
  let ?own = "chan_of c k = Some ch"
  have other: "?own \<Longrightarrow> chan_of c k' = Some ch \<Longrightarrow> k' = k" for k'
    using flight_chan_inj [OF assms(1)] by blast
  have "ch' < next_chan ?c \<and> ch' \<notin> closed_chans ?c \<and> (\<exists>j rk'. j \<noteq> i \<and> at ts j k' (Loading ch' rk'))"
    if "chan_of ?c k' = Some ch'" for k' ch'
  proof -
    from that sees have chan: "chan_of c k' = Some ch'" and new: "k' = k \<Longrightarrow> ch' \<noteq> ch"
      by (auto split: if_splits)
    with other have "?own \<Longrightarrow> ch' \<noteq> ch" by blast
    with flight_chan [OF assms(1) chan] sees loader [OF chan new] show ?thesis by auto
  qed
  moreover have "ch' \<in> closed_chans ?c \<or> chan_of ?c k' = Some ch'" if "at ts j k' (Waiting ch' m)" for j k' ch' m
  proof -
    from assms(1) that have "ch' \<in> closed_chans c \<or> chan_of c k' = Some ch'" unfolding flight_ok_def by blast
    with sees show ?thesis by auto
  qed
  moreover have "ch' < next_chan ?c \<and> (\<forall>j' k'' rk''. at ts j' k'' (Loading ch' rk'') \<longrightarrow> j' = j)"
    if "at ts j k' (Loading ch' rk')" for j k' ch' rk'
    using assms(1) that sees unfolding flight_ok_def by metis
  moreover have "\<forall>ch' \<in> closed_chans ?c. ch' < next_chan ?c"
    using assms(1) own sees unfolding flight_ok_def by auto
  ultimately show ?thesis unfolding flight_ok_def L W by blast
qed

lemma flight_load_step:
  assumes "load_step s t" and "flight_ok (sy_catalog s) (sy_threads s)"
  shows "flight_ok (sy_catalog t) (sy_threads t)"
  using assms(1)
proof cases
  case (Enter ts i k n c x c')
  then have ok: "flight_ok c ts" using assms(2) by simp
  from Enter(4) have "flight_ok c' (set_phase i (after_enter n x) ts)"
  proof (cases rule: enter_sees)
    case 1
    with flight_idle [OF ok Enter(3)] show ?thesis by simp
  next
    case 2
    with flight_wait [OF ok Enter(3)] show ?thesis by simp
  next
    case 3
    with flight_load [OF ok Enter(3)] show ?thesis by simp
  qed
  with Enter show ?thesis by simp
next
  case (Exhaust ts i k c)
  with flight_idle [OF _ Exhaust(3)] assms(2) show ?thesis by simp
next
  case (Wake ts i k ch n c)
  with flight_idle [OF _ Wake(3)] assms(2) show ?thesis by simp
next
  case (Finish ts i k ch rk c r)
  with flight_finish [OF _ Finish(3)] assms(2) show ?thesis by simp
qed

lemma flight_cancel_step:
  assumes "cancel_step s t" and "flight_ok (sy_catalog s) (sy_threads s)"
  shows "flight_ok (sy_catalog t) (sy_threads t)"
  using assms(1)
proof cases
  case (CancelWait ts i k ch n c e)
  with flight_idle [OF _ CancelWait(3)] assms(2) show ?thesis by simp
next
  case (CancelStart ts i k n c e)
  with flight_idle [OF _ CancelStart(3)] assms(2) show ?thesis by simp
qed

lemma flight_other_step:
  assumes "other_step hx removals s t" and "flight_ok (sy_catalog s) (sy_threads s)"
  shows "flight_ok (sy_catalog t) (sy_threads t)"
  using assms(1)
proof cases
  case (OtherAdd c ts res ctx d)
  with assms(2) Add_sees [OF refl, of hx res ctx d c] show ?thesis by (simp add: flight_ok_def)
next
  case (OtherRemove c ts d)
  then have ok: "flight_ok c ts" using assms(2) by simp
  have "flight_ok (snd (Remove hx d c)) ts"
  proof (rule Remove_sees [OF refl, of hx d c])
    assume "chan_of (snd (Remove hx d c)) = chan_of c"
      "closed_chans (snd (Remove hx d c)) = closed_chans c" "next_chan (snd (Remove hx d c)) = next_chan c"
    with ok show ?thesis by (simp add: flight_ok_def)
  next
    fix k
    assume r: "chan_of (snd (Remove hx d c)) = (chan_of c)(k := None)"
      "closed_chans (snd (Remove hx d c)) = closed_chans c \<union> set_option (chan_of c k)"
      "next_chan (snd (Remove hx d c)) = next_chan c"
    show ?thesis
    proof (rule flight_okI)
      fix k' ch assume "chan_of (snd (Remove hx d c)) k' = Some ch"
      with r(1) have "k' \<noteq> k" and chan: "chan_of c k' = Some ch" by (auto split: if_splits)
      with flight_chan [OF ok chan] flight_chan_inj [OF ok chan, of k] r(2,3)
      show "ch < next_chan (snd (Remove hx d c)) \<and> ch \<notin> closed_chans (snd (Remove hx d c))
          \<and> (\<exists>i rk. at ts i k' (Loading ch rk))"
        by auto
    next
      fix i k' ch n assume "at ts i k' (Waiting ch n)"
      from flight_waiting [OF ok this] r(1,2)
      show "ch \<in> closed_chans (snd (Remove hx d c)) \<or> chan_of (snd (Remove hx d c)) k' = Some ch" by auto
    next
      fix i k' ch rk assume "at ts i k' (Loading ch rk)"
      from flight_loader(1) [OF ok this] r(3) show "ch < next_chan (snd (Remove hx d c))" by simp
    next
      fix i k1 ch rk1 j k2 rk2
      assume "at ts i k1 (Loading ch rk1)" "at ts j k2 (Loading ch rk2)"
      then show "j = i" by (rule flight_loader(2) [OF ok])
    next
      fix ch assume "ch \<in> closed_chans (snd (Remove hx d c))"
      with r(2,3) flight_closed [OF ok] flight_chan [OF ok] show "ch < next_chan (snd (Remove hx d c))" by auto
    qed
  qed
  with OtherRemove show ?thesis by simp
qed

lemma flight_calls: "no_loads c \<Longrightarrow> \<forall>ch \<in> closed_chans c. ch < next_chan c \<Longrightarrow>
    flight_ok (sy_catalog (calls c ks)) (sy_threads (calls c ks))"
  by (auto simp: calls_def flight_ok_def at_def chan_of_def no_loads_def
      simp del: map_of_eq_Some_iff split: option.splits)

interpretation loads: transition_system
  "\<lambda>s. \<exists>c ks. s = calls c ks \<and> no_loads c \<and> (\<forall>ch \<in> closed_chans c. ch < next_chan c)"
  "system_step hx removals" "\<lambda>s. flight_ok (sy_catalog s) (sy_threads s)" for hx removals
  by unfold_locales
    (auto simp: system_step_def flight_calls intro: flight_load_step flight_cancel_step flight_other_step)

section \<open>Every caller returns\<close>

fun work_of :: "phase \<Rightarrow> nat" where
  "work_of (Start n) = 2 * n + 1"
| "work_of (Waiting ch n) = 2 * n + 2"
| "work_of (Loading ch k) = 1"
| "work_of (Returned r) = 0"

definition work :: "thread list \<Rightarrow> nat" where
  "work ts = (\<Sum>th \<leftarrow> ts. work_of (t_phase th))"

lemma work_set_phase:
  "at ts i k ph \<Longrightarrow> work_of ph' < work_of ph \<Longrightarrow> work (set_phase i ph' ts) < work ts"
proof (induction ts arbitrary: i)
  case (Cons th ts)
  show ?case
  proof (cases i)
    case 0
    with Cons.prems show ?thesis by (simp add: at_def set_phase_def work_def)
  next
    case (Suc j)
    with Cons.prems have "at ts j k ph" by (simp add: at_def)
    with Cons.IH [of j] Cons.prems(2) Suc show ?thesis by (simp add: set_phase_def work_def)
  qed
qed (simp add: at_def)

lemma work_load_step:
  assumes "load_step s t"
  shows "work (sy_threads t) < work (sy_threads s)"
  using assms
proof cases
  case (Enter ts i k n c x c')
  have "work_of (after_enter n x) < work_of (Start (Suc n))" by (cases x) simp_all
  with Enter show ?thesis by (simp add: work_set_phase)
qed (auto intro!: work_set_phase)

lemma work_cancel_step: "cancel_step s t \<Longrightarrow> work (sy_threads t) < work (sy_threads s)"
  by (erule cancel_stepE) (auto intro!: work_set_phase)

lemma threads_other_step: "other_step hx removals s t \<Longrightarrow> sy_threads t = sy_threads s"
  by (erule other_stepE) simp_all

text \<open>Runs of the system, with the number of steps its callers make.\<close>

inductive run :: "(string \<Rightarrow> string) \<Rightarrow> bool \<Rightarrow> nat \<Rightarrow> system \<Rightarrow> system \<Rightarrow> bool" for hx removals where
  Stop: "run hx removals 0 s s"
| Caller: "run hx removals n s t \<Longrightarrow> load_step t u \<or> cancel_step t u \<Longrightarrow> run hx removals (Suc n) s u"
| Others: "run hx removals n s t \<Longrightarrow> other_step hx removals t u \<Longrightarrow> run hx removals n s u"

lemma run_steps: "run hx removals n s t \<Longrightarrow> (system_step hx removals)\<^sup>*\<^sup>* s t"
  by (induction rule: run.induct) (auto simp: system_step_def intro: rtranclp.rtrancl_into_rtrancl)

lemma run_work: "run hx removals n s t \<Longrightarrow> n + work (sy_threads t) \<le> work (sy_threads s)"
proof (induction rule: run.induct)
  case (Caller n s t u)
  then have "work (sy_threads u) < work (sy_threads t)" using work_load_step work_cancel_step by blast
  with Caller.IH show ?case by simp
qed (simp_all add: threads_other_step)

lemma run_length: "run hx removals n s t \<Longrightarrow> length (sy_threads t) = length (sy_threads s)"
  by (induction rule: run.induct)
    (auto elim!: load_stepE cancel_stepE simp: threads_other_step)

text \<open>The only thread that cannot go on by itself waits on an open channel; then its loader can.\<close>

lemma load_step_possible:
  assumes "flight_ok c ts" and "at ts i k ph" and "\<And>r. ph \<noteq> Returned r"
  shows "\<exists>u. load_step \<lparr>sy_catalog = c, sy_threads = ts\<rparr> u"
proof (cases ph)
  case (Start n)
  with assms(2) Enter [of ts i k] Exhaust [of ts i k c] show ?thesis
    by (cases n; cases "ensure_enter k c") blast+
next
  case (Waiting ch n)
  with assms(2) flight_waiting [OF assms(1)] consider "ch \<in> closed_chans c" | "chan_of c k = Some ch" by blast
  then show ?thesis
  proof cases
    case 1
    with Wake assms(2) Waiting show ?thesis by blast
  next
    case 2
    with flight_chan [OF assms(1)] obtain j rk where "at ts j k (Loading ch rk)" by blast
    with Finish show ?thesis by blast
  qed
next
  case (Loading ch rk)
  with assms(2) Finish show ?thesis by blast
qed (use assms(3) in blast)

text \<open>
  C7. No wake-up is lost: callers of \<open>EnsureBody\<close> that run concurrently, while others add and remove
  skills and contexts end at any moment, together make at most eleven steps each; and when none of
  them can go on, all have returned. Nobody waits for a load that nobody is doing any more.
\<close>

theorem callers_return:
  assumes "no_loads c" and "\<forall>ch \<in> closed_chans c. ch < next_chan c"
    and "run hx removals n (calls c ks) t"
  shows "n \<le> 11 * length ks
    \<and> ((\<nexists>u. load_step t u) \<longrightarrow> (\<forall>th \<in> set (sy_threads t). \<exists>r. t_phase th = Returned r))"
proof
  have "work (sy_threads (calls c ks)) = 11 * length ks"
    by (simp add: calls_def work_def comp_def sum_list_triv)
  with run_work [OF assms(3)] show "n \<le> 11 * length ks" by simp
  obtain c' ts where t: "t = \<lparr>sy_catalog = c', sy_threads = ts\<rparr>" by (cases t)
  have ok: "flight_ok c' ts"
    using loads.reachable_inv [OF _ run_steps [OF assms(3)]] assms(1,2) t by auto
  show "(\<nexists>u. load_step t u) \<longrightarrow> (\<forall>th \<in> set (sy_threads t). \<exists>r. t_phase th = Returned r)"
  proof (intro impI ballI)
    fix th assume stuck: "\<nexists>u. load_step t u" and "th \<in> set (sy_threads t)"
    then obtain i where "i < length ts" "th = ts ! i" by (auto simp: t in_set_conv_nth)
    then have "at ts i (t_key th) (t_phase th)" by (simp add: at_def)
    from load_step_possible [OF ok this] stuck t show "\<exists>r. t_phase th = Returned r" by blast
  qed
qed

section \<open>One load for all\<close>

text \<open>While no skill is removed: a loader's load is the one of the entry, and results are its body.\<close>

definition shared_ok :: "catalog \<Rightarrow> thread list \<Rightarrow> bool" where
  "shared_ok c ts \<longleftrightarrow>
     (\<forall>i k ch rk. at ts i k (Loading ch rk) \<longrightarrow> chan_of c k = Some ch \<and> body_of c k = None)
     \<and> (\<forall>i k b. at ts i k (Returned (Inr b)) \<longrightarrow> body_of c k = Some b)"

lemma shared_loader:
  "shared_ok c ts \<Longrightarrow> at ts i k (Loading ch rk) \<Longrightarrow> chan_of c k = Some ch \<and> body_of c k = None"
  unfolding shared_ok_def by blast

lemma shared_returned: "shared_ok c ts \<Longrightarrow> at ts i k (Returned (Inr b)) \<Longrightarrow> body_of c k = Some b"
  unfolding shared_ok_def by blast

lemma shared_okI:
  assumes "\<And>i k ch rk. at ts i k (Loading ch rk) \<Longrightarrow> chan_of c k = Some ch \<and> body_of c k = None"
    and "\<And>i k b. at ts i k (Returned (Inr b)) \<Longrightarrow> body_of c k = Some b"
  shows "shared_ok c ts"
  unfolding shared_ok_def using assms by blast

lemma shared_move:
  assumes "shared_ok c ts" and "at ts i k ph" and "\<And>ch rk. ph' \<noteq> Loading ch rk"
    and "\<And>b. ph' = Returned (Inr b) \<Longrightarrow> body_of c k = Some b"
  shows "shared_ok c (set_phase i ph' ts)"
  using assms(1,3,4) unfolding shared_ok_def at_set_phase [OF assms(2)] by (metis (full_types))

lemma shared_quiet:
  assumes "shared_ok c ts" and "at ts i k ph"
  shows "shared_ok c (set_phase i (Start n) ts)" "shared_ok c (set_phase i (Waiting ch n) ts)"
    "shared_ok c (set_phase i (Returned (Inl e)) ts)"
  by (rule shared_move [OF assms]; simp)+

lemma shared_load:
  assumes "shared_ok c ts" and "at ts i k (Start n)" and "chan_of c k = None"
    and "chan_of c' = (chan_of c)(k := Some ch)" and "body_of c' = body_of c" and "body_of c k = None"
  shows "shared_ok c' (set_phase i (Loading ch rk) ts)"
proof -
  have "k' \<noteq> k" if "at ts j k' (Loading ch' rk')" for j k' ch' rk'
    using shared_loader [OF assms(1) that] assms(3) by auto
  then show ?thesis
    using shared_loader [OF assms(1)] shared_returned [OF assms(1)] assms(4-6)
    by (intro shared_okI) (fastforce simp: at_set_phase [OF assms(2)] split: if_splits)+
qed

lemma shared_finish:
  assumes "shared_ok c ts" and "flight_ok c ts" and "at ts i k (Loading ch rk)"
  shows "shared_ok (finishBodyLoad k ch r c) (set_phase i (Returned r) ts)"
proof -
  let ?c = "finishBodyLoad k ch r c"
  from shared_loader [OF assms(1,3)] finish_sees [of k ch r c]
  have sees: "chan_of ?c = (chan_of c)(k := None)"
    "body_of ?c = (body_of c)(k := case r of Inr b \<Rightarrow> Some b | Inl e \<Rightarrow> None)" by simp_all
  have other: "k' \<noteq> k" if "j \<noteq> i" "at ts j k' (Loading ch' rk')" for j k' ch' rk'
    using shared_loader [OF assms(1) that(2)] shared_loader [OF assms(1,3)]
      flight_loader(2) [OF assms(2,3), of j k' rk'] that by auto
  have returned: "k' \<noteq> k" if "at ts j k' (Returned (Inr b))" for j k' b
    using shared_returned [OF assms(1) that] shared_loader [OF assms(1,3)] by auto
  show ?thesis
    using shared_loader [OF assms(1)] shared_returned [OF assms(1)] other returned sees
    by (intro shared_okI) (fastforce simp: at_set_phase [OF assms(3)] split: if_splits)+
qed

lemma shared_step:
  assumes "system_step hx False s t" and "flight_ok (sy_catalog s) (sy_threads s)"
    and "shared_ok (sy_catalog s) (sy_threads s)"
  shows "shared_ok (sy_catalog t) (sy_threads t)"
  using assms(1) unfolding system_step_def
proof (elim disjE)
  assume "load_step s t"
  then show ?thesis
  proof cases
    case (Enter ts i k n c x c')
    then have ok: "shared_ok c ts" using assms(3) by simp
    from Enter(4) have "shared_ok c' (set_phase i (after_enter n x) ts)"
    proof (cases rule: enter_sees)
      case (1 r)
      then show ?thesis by (intro shared_move [OF ok Enter(3), folded 1(2)]) (simp_all add: 1)
    next
      case 2
      then show ?thesis by (simp add: shared_quiet [OF ok Enter(3)])
    next
      case 3
      with shared_load [OF ok Enter(3)] show ?thesis by simp
    qed
    with Enter show ?thesis by simp
  next
    case (Exhaust ts i k c)
    with shared_quiet [OF _ Exhaust(3)] assms(3) show ?thesis by simp
  next
    case (Wake ts i k ch n c)
    with shared_quiet [OF _ Wake(3)] assms(3) show ?thesis by simp
  next
    case (Finish ts i k ch rk c r)
    with shared_finish [OF _ _ Finish(3)] assms(2,3) show ?thesis by simp
  qed
next
  assume "cancel_step s t"
  then show ?thesis
  proof cases
    case (CancelWait ts i k ch n c e)
    with shared_quiet [OF _ CancelWait(3)] assms(3) show ?thesis by simp
  next
    case (CancelStart ts i k n c e)
    with shared_quiet [OF _ CancelStart(3)] assms(3) show ?thesis by simp
  qed
next
  assume "other_step hx False s t"
  then show ?thesis
  proof cases
    case (OtherAdd c ts res ctx d)
    with assms(3) Add_sees [OF refl, of hx res ctx d c] show ?thesis
      by (fastforce simp: shared_ok_def)
  qed simp
qed

interpretation shared_loads: transition_system
  "\<lambda>s. \<exists>c ks. s = calls c ks \<and> no_loads c \<and> (\<forall>ch \<in> closed_chans c. ch < next_chan c)"
  "system_step hx False"
  "\<lambda>s. flight_ok (sy_catalog s) (sy_threads s) \<and> shared_ok (sy_catalog s) (sy_threads s)" for hx
proof unfold_locales
  fix s assume "\<exists>c ks. s = calls c ks \<and> no_loads c \<and> (\<forall>ch \<in> closed_chans c. ch < next_chan c)"
  then show "flight_ok (sy_catalog s) (sy_threads s) \<and> shared_ok (sy_catalog s) (sy_threads s)"
    using flight_calls by (fastforce simp: shared_ok_def at_def calls_def)
next
  fix s t
  assume "flight_ok (sy_catalog s) (sy_threads s) \<and> shared_ok (sy_catalog s) (sy_threads s)"
    and "system_step hx False s t"
  then show "flight_ok (sy_catalog t) (sy_threads t) \<and> shared_ok (sy_catalog t) (sy_threads t)"
    using loads.step_inv shared_step by blast
qed

text \<open>
  C8. One load serves all: while no skill is removed, at most one caller at a time is loading the
  body of a skill, whatever the provider answers all callers that return a body return the same
  one, it is the body the catalog keeps, and nobody loads once it is there.
\<close>

theorem single_flight:
  assumes "no_loads c" and "\<forall>ch \<in> closed_chans c. ch < next_chan c"
    and "run hx False n (calls c ks) t"
    and "at (sy_threads t) i k ph" and "at (sy_threads t) j k ph'"
  shows "(\<forall>ch rk ch' rk'. ph = Loading ch rk \<longrightarrow> ph' = Loading ch' rk' \<longrightarrow> i = j)
    \<and> (\<forall>b. ph = Returned (Inr b) \<longrightarrow> body_of (sy_catalog t) k = Some b
        \<and> (\<forall>ch rk. ph' \<noteq> Loading ch rk) \<and> (\<forall>b'. ph' = Returned (Inr b') \<longrightarrow> b' = b))"
proof -
  have inv: "flight_ok (sy_catalog t) (sy_threads t)" "shared_ok (sy_catalog t) (sy_threads t)"
    using shared_loads.reachable_inv [OF _ run_steps [OF assms(3)]] assms(1,2) by blast+
  have "i = j" if "ph = Loading ch rk" "ph' = Loading ch' rk'" for ch rk ch' rk'
    using shared_loader [OF inv(2)] flight_loader(2) [OF inv(1)] assms(4,5) that by (metis option.inject)
  moreover have "body_of (sy_catalog t) k = Some b \<and> (\<forall>ch rk. ph' \<noteq> Loading ch rk)
      \<and> (\<forall>b'. ph' = Returned (Inr b') \<longrightarrow> b' = b)" if "ph = Returned (Inr b)" for b
    using shared_returned [OF inv(2)] shared_loader [OF inv(2)] assms(4,5) that
    by (metis option.distinct(1) option.inject)
  ultimately show ?thesis by blast
qed

section \<open>Two callers\<close>

definition demo_entry :: entry where
  "demo_entry =
     \<lparr>e_def = \<lparr>def_type = ''a'', def_name = ''x'', def_location = ''/s''\<rparr>,
      e_idx = \<lparr>idx_key = demo_key ''a'' ''x'' ''/s'', idx_name = ''x'', idx_description = ''d'',
        idx_display_name = ''x'', idx_insert = SkillInsertInstructions, idx_arguments = [],
        idx_tags = [], idx_resources = empty_resources, idx_raw_frontmatter = [], idx_warnings = [],
        idx_digest = [], idx_skill_body = []\<rparr>,
      body_loaded = False, llm_name = ''x'', body_wait = None, body_err = None\<rparr>"

definition demo_loads :: catalog where
  "demo_loads = Catalog.New\<lparr>by_key := [(demo_key ''a'' ''x'' ''/s'', demo_entry)]\<rparr>"

text \<open>The first caller loads, the second waits for it, and both return the body.\<close>

lemma demo_run_loads:
  "\<exists>t. run hx False 5 (calls demo_loads [demo_key ''a'' ''x'' ''/s'', demo_key ''a'' ''x'' ''/s'']) t
     \<and> at (sy_threads t) 0 (demo_key ''a'' ''x'' ''/s'') (Returned (Inr ''body''))
     \<and> at (sy_threads t) 1 (demo_key ''a'' ''x'' ''/s'') (Returned (Inr ''body''))"
proof -
  let ?k = "demo_key ''a'' ''x'' ''/s''"
  let ?th = "\<lambda>ph. \<lparr>t_key = ?k, t_phase = ph\<rparr>"
  define c1 where "c1 = demo_loads\<lparr>by_key := [(?k, demo_entry\<lparr>body_wait := Some 0\<rparr>)], next_chan := 1\<rparr>"
  define c2 where "c2 = finishBodyLoad ?k 0 (Inr ''body'') c1"
  have e1: "ensure_enter ?k demo_loads = (EnterLoad 0 ?k, c1)"
    by (simp add: ensure_enter_def demo_loads_def c1_def demo_entry_def Let_def Catalog.New_def)
  have e2: "ensure_enter ?k c1 = (EnterWait 0, c1)" by (simp add: ensure_enter_def c1_def demo_entry_def)
  have c2: "c2 = c1\<lparr>by_key := [(?k, finish_entry (Inr ''body'') (demo_entry\<lparr>body_wait := Some 0\<rparr>))],
      closed_chans := insert 0 (closed_chans c1)\<rparr>"
    by (simp add: c2_def finishBodyLoad_def c1_def)
  have e3: "ensure_enter ?k c2 = (EnterReturn (Inr ''body''), c2)"
    by (simp add: ensure_enter_def c2 finish_entry_def)
  have s1: "load_step (calls demo_loads [?k, ?k])
      \<lparr>sy_catalog = c1, sy_threads = [?th (Loading 0 ?k), ?th (Start 5)]\<rparr>"
    using load_step.Enter [of "[?th (Start 5), ?th (Start 5)]" 0 ?k 4, OF _ e1]
    by (simp add: at_def calls_def set_phase_def)
  have s2: "load_step \<lparr>sy_catalog = c1, sy_threads = [?th (Loading 0 ?k), ?th (Start 5)]\<rparr>
      \<lparr>sy_catalog = c1, sy_threads = [?th (Loading 0 ?k), ?th (Waiting 0 4)]\<rparr>"
    using load_step.Enter [of "[?th (Loading 0 ?k), ?th (Start 5)]" 1 ?k 4, OF _ e2]
    by (simp add: at_def set_phase_def)
  have s3: "load_step \<lparr>sy_catalog = c1, sy_threads = [?th (Loading 0 ?k), ?th (Waiting 0 4)]\<rparr>
      \<lparr>sy_catalog = c2, sy_threads = [?th (Returned (Inr ''body'')), ?th (Waiting 0 4)]\<rparr>"
    using load_step.Finish [of "[?th (Loading 0 ?k), ?th (Waiting 0 4)]" 0 ?k 0 ?k c1 "Inr ''body''"]
    by (simp add: at_def set_phase_def c2_def)
  have s4: "load_step \<lparr>sy_catalog = c2, sy_threads = [?th (Returned (Inr ''body'')), ?th (Waiting 0 4)]\<rparr>
      \<lparr>sy_catalog = c2, sy_threads = [?th (Returned (Inr ''body'')), ?th (Start 4)]\<rparr>"
    using load_step.Wake [of "[?th (Returned (Inr ''body'')), ?th (Waiting 0 4)]" 1 ?k 0 4 c2]
    by (simp add: at_def set_phase_def c2)
  have s5: "load_step \<lparr>sy_catalog = c2, sy_threads = [?th (Returned (Inr ''body'')), ?th (Start 4)]\<rparr>
      \<lparr>sy_catalog = c2, sy_threads = [?th (Returned (Inr ''body'')), ?th (Returned (Inr ''body''))]\<rparr>"
    using load_step.Enter [of "[?th (Returned (Inr ''body'')), ?th (Start 4)]" 1 ?k 3, OF _ e3]
    by (simp add: at_def set_phase_def)
  have "run hx False (Suc (Suc (Suc (Suc (Suc 0))))) (calls demo_loads [?k, ?k])
      \<lparr>sy_catalog = c2, sy_threads = [?th (Returned (Inr ''body'')), ?th (Returned (Inr ''body''))]\<rparr>"
    using s1 s2 s3 s4 s5 by (blast intro: run.intros)
  moreover have "Suc (Suc (Suc (Suc (Suc 0)))) = 5" by simp
  ultimately show ?thesis by (intro exI conjI) (auto simp: at_def)
qed

lemma demo_loads_ok: "no_loads demo_loads" "\<forall>ch \<in> closed_chans demo_loads. ch < next_chan demo_loads"
  by (auto simp: no_loads_def demo_loads_def demo_entry_def Catalog.New_def split: if_splits)

theorem callers_return_witness: "\<exists>t. run (\<lambda>s. s) False 5
    (calls demo_loads [demo_key ''a'' ''x'' ''/s'', demo_key ''a'' ''x'' ''/s'']) t \<and> 5 \<le> (22::nat)"
proof -
  obtain t where t: "run (\<lambda>s. s) False 5 (calls demo_loads [demo_key ''a'' ''x'' ''/s'', demo_key ''a'' ''x'' ''/s'']) t"
    using demo_run_loads by blast
  from callers_return [OF demo_loads_ok t] t show ?thesis by auto
qed

theorem single_flight_witness: "\<exists>t. run (\<lambda>s. s) False 5
    (calls demo_loads [demo_key ''a'' ''x'' ''/s'', demo_key ''a'' ''x'' ''/s'']) t
    \<and> body_of (sy_catalog t) (demo_key ''a'' ''x'' ''/s'') = Some ''body''"
proof -
  obtain t where t: "run (\<lambda>s. s) False 5 (calls demo_loads [demo_key ''a'' ''x'' ''/s'', demo_key ''a'' ''x'' ''/s'']) t"
    "at (sy_threads t) 0 (demo_key ''a'' ''x'' ''/s'') (Returned (Inr ''body''))"
    "at (sy_threads t) 1 (demo_key ''a'' ''x'' ''/s'') (Returned (Inr ''body''))"
    using demo_run_loads by blast
  from single_flight [OF demo_loads_ok t] t(1) show ?thesis by blast
qed

end
