(* ===== verification/Catalog_Refinement.thy ===== *)
theory Catalog_Refinement
  imports Simulation Catalog_Concurrency
begin

text \<open>
  The catalog as what it promises: a registry of skills by their canonical key, each with the
  definition it was added for, the provider's record and the state of its body. Maps by definition,
  channels, names and handles are implementation.
\<close>

section \<open>The registry\<close>

datatype body_state = Unloaded | Loaded string | Failed go_error

type_synonym registry = "provider_skill_key \<rightharpoonup> skill_def \<times> index_record \<times> body_state"

datatype catalog_result =
    Added "go_error + skill_record"
  | Removed "(skill_record \<times> provider_skill_key) option"
  | Body "go_error + string"

definition bodiless :: "index_record \<Rightarrow> index_record" where
  "bodiless idx = idx\<lparr>idx_skill_body := []\<rparr>"

definition registered :: "registry \<Rightarrow> skill_def \<Rightarrow> provider_skill_key \<Rightarrow> bool" where
  "registered reg d k \<longleftrightarrow> (\<exists>i b. reg k = Some (d, i, b))"

text \<open>What an operation may answer, and the registry after it.\<close>

inductive registry_step :: "catalog_op \<Rightarrow> catalog_result \<Rightarrow> registry \<Rightarrow> registry \<Rightarrow> bool" where
  AddRefused: "add_index res ctx d = Inl e \<Longrightarrow>
    registry_step (OpAdd res ctx d) (Added (Inl e)) reg reg"
| AddExists: "add_index res ctx d = Inr idx \<Longrightarrow> reg (idx_key idx) \<noteq> None \<or> (\<exists>k. registered reg d k) \<Longrightarrow>
    registry_step (OpAdd res ctx d) (Added (Inl (Sentinel ErrSkillAlreadyExists))) reg reg"
| AddNew: "add_index res ctx d = Inr idx \<Longrightarrow> reg (idx_key idx) = None \<Longrightarrow> \<nexists>k. registered reg d k \<Longrightarrow>
    registry_step (OpAdd res ctx d) (Added (Inr (skillRecordFrom d idx))) reg
      (reg(idx_key idx \<mapsto> (d, bodiless idx,
         if idx_skill_body idx = [] then Unloaded else Loaded (idx_skill_body idx))))"
| RemoveUnknown: "\<nexists>k. registered reg d k \<Longrightarrow>
    registry_step (OpRemove d) (Removed None) reg reg"
| RemoveKnown: "reg k = Some (d, i, b) \<Longrightarrow>
    registry_step (OpRemove d) (Removed (Some (skillRecordFrom d i, k))) reg (reg(k := None))"
| BodyCancelled: "registry_step (OpEnsureBody res (Some e) k) (Body (Inl e)) reg reg"
| BodyUnknown: "reg k = None \<Longrightarrow>
    registry_step (OpEnsureBody res None k) (Body (Inl (Sentinel ErrSkillNotFound))) reg reg"
| BodyKept: "reg k = Some (d, i, Loaded body) \<Longrightarrow>
    registry_step (OpEnsureBody res None k) (Body (Inr body)) reg reg"
| BodyFailed: "reg k = Some (d, i, Failed e) \<Longrightarrow>
    registry_step (OpEnsureBody res None k) (Body (Inl e)) reg reg"
| BodyLoads: "reg k = Some (d, i, Unloaded) \<Longrightarrow> load_body res None k = Inr body \<Longrightarrow>
    registry_step (OpEnsureBody res None k) (Body (Inr body)) reg (reg(k \<mapsto> (d, i, Loaded body)))"
| BodyFails: "reg k = Some (d, i, Unloaded) \<Longrightarrow> load_body res None k = Inl e \<Longrightarrow> \<not> context_error e \<Longrightarrow>
    registry_step (OpEnsureBody res None k) (Body (Inl e)) reg (reg(k \<mapsto> (d, i, Failed e)))"
| BodyInterrupted: "reg k = Some (d, i, Unloaded) \<Longrightarrow> load_body res None k = Inl e \<Longrightarrow> context_error e \<Longrightarrow>
    registry_step (OpEnsureBody res None k) (Body (Inl e)) reg reg"

text \<open>The operations of the catalog with their results, and the registry it stands for.\<close>

fun exec_op :: "(string \<Rightarrow> string) \<Rightarrow> catalog_op \<Rightarrow> catalog \<Rightarrow> catalog_result \<times> catalog" where
  "exec_op hx (OpAdd res ctx d) c = (case Add hx res ctx d c of (r, c') \<Rightarrow> (Added r, c'))"
| "exec_op hx (OpRemove d) c = (case Remove hx d c of (r, c') \<Rightarrow> (Removed r, c'))"
| "exec_op hx (OpEnsureBody res ctx k) c = (case EnsureBody res ctx k c of (r, c') \<Rightarrow> (Body r, c'))"

definition body_state_of :: "entry \<Rightarrow> body_state" where
  "body_state_of e =
     (if body_loaded e then Loaded (idx_skill_body (e_idx e))
      else (case body_err e of Some err \<Rightarrow> Failed err | None \<Rightarrow> Unloaded))"

definition registry_of :: "catalog \<Rightarrow> registry" where
  "registry_of c k =
     map_option (\<lambda>e. (e_def e, bodiless (e_idx e), body_state_of e)) (map_of (by_key c) k)"

lemma body_state_named [simp]: "body_state_of (e\<lparr>llm_name := n\<rparr>) = body_state_of e"
  by (simp add: body_state_of_def)

lemma registry_named: "registry_of (recomputeLLMNamesLocked hx c) = registry_of c"
  by (simp add: registry_of_def map_of_assign_names option.map_comp comp_def fun_eq_iff)

lemma registered_iff:
  assumes "wf_catalog hx c"
  shows "registered (registry_of c) d k \<longleftrightarrow> map_of (by_def c) d = Some k"
proof
  assume "registered (registry_of c) d k"
  then obtain e where "map_of (by_key c) k = Some e" "e_def e = d"
    by (auto simp: registered_def registry_of_def simp del: map_of_eq_Some_iff)
  with wf_catalogD(4) [OF assms] show "map_of (by_def c) d = Some k" by blast
next
  assume "map_of (by_def c) d = Some k"
  with wf_catalogD(7) [OF assms] obtain e where "map_of (by_key c) k = Some e" "e_def e = d" by blast
  then show "registered (registry_of c) d k"
    by (simp add: registered_def registry_of_def del: map_of_eq_Some_iff)
qed

lemma skillRecordFrom_bodiless: "skillRecordFrom d (bodiless idx) = skillRecordFrom d idx"
  by (simp add: skillRecordFrom_def bodiless_def)

section \<open>The operations\<close>

definition sound :: "(string \<Rightarrow> string) \<Rightarrow> catalog \<Rightarrow> bool" where
  "sound hx c \<longleftrightarrow> wf_catalog hx c \<and> no_loads c"

lemma no_loads_chan: "no_loads c \<longleftrightarrow> (\<forall>k. chan_of c k = None)"
  by (auto simp: no_loads_def chan_of_def simp del: map_of_eq_Some_iff split: option.splits)

lemma sound_exec: "sound hx c \<Longrightarrow> exec_op hx x c = (r, c') \<Longrightarrow> sound hx c'"
proof (cases x)
  case (OpAdd res ctx d)
  assume "sound hx c" "exec_op hx x c = (r, c')"
  with OpAdd wf_Add [of hx c res ctx d] Add_sees [OF refl, of hx res ctx d c] show ?thesis
    by (auto simp: sound_def no_loads_chan split: prod.splits)
next
  case (OpRemove d)
  assume c: "sound hx c" "exec_op hx x c = (r, c')"
  with OpRemove have c': "snd (Remove hx d c) = c'" by (auto split: prod.splits)
  have "\<forall>k. chan_of c' k = None"
    using c(1) by (rule_tac Remove_sees [OF c']) (auto simp: sound_def no_loads_chan)
  with c wf_Remove [of hx c d] c' show ?thesis by (auto simp: sound_def no_loads_chan)
next
  case (OpEnsureBody res ctx k)
  assume "sound hx c" "exec_op hx x c = (r, c')"
  with OpEnsureBody wf_EnsureBody [of hx c res ctx k] no_loads_EnsureBody [of c res k] show ?thesis
    by (cases ctx) (auto simp: sound_def EnsureBody_def split: prod.splits)
qed

lemma add_refines:
  assumes "sound hx c" and "Add hx res ctx d c = (r, c')"
  shows "registry_step (OpAdd res ctx d) (Added r) (registry_of c) (registry_of c')"
proof (cases "add_index res ctx d")
  case (Inl e)
  with assms(2) AddRefused [OF Inl] show ?thesis by (simp add: Add_def)
next
  case (Inr idx)
  have wf: "wf_catalog hx c" using assms(1) by (simp add: sound_def)
  have free: "registry_of c (idx_key idx) \<noteq> None \<or> (\<exists>k. registered (registry_of c) d k)
      \<longleftrightarrow> map_of (by_key c) (idx_key idx) \<noteq> None \<or> map_of (by_def c) d \<noteq> None"
    using registered_iff [OF wf] by (auto simp: registry_of_def simp del: map_of_eq_Some_iff)
  show ?thesis
  proof (cases "map_of (by_key c) (idx_key idx) \<noteq> None \<or> map_of (by_def c) d \<noteq> None")
    case True
    with assms(2) Inr have "r = Inl (Sentinel ErrSkillAlreadyExists)" "c' = c"
      by (auto simp: Add_def add_locked_def Let_def split: if_splits)
    with AddExists [OF Inr, of "registry_of c"] free True show ?thesis by simp
  next
    case False
    with assms(2) Inr have r: "r = Inr (skillRecordFrom d idx)"
      and c': "c' = recomputeLLMNamesLocked hx (c\<lparr>by_key := AList.update (idx_key idx)
        \<lparr>e_def = d, e_idx = idx, body_loaded = (idx_skill_body idx \<noteq> []), llm_name = [],
         body_wait = None, body_err = None\<rparr> (by_key c),
        by_def := AList.update d (idx_key idx) (by_def c)\<rparr>)"
      by (auto simp: Add_def add_locked_def Let_def)
    have "registry_of c' = (registry_of c)(idx_key idx \<mapsto> (d, bodiless idx,
        if idx_skill_body idx = [] then Unloaded else Loaded (idx_skill_body idx)))"
      unfolding c' registry_named by (auto simp: registry_of_def body_state_of_def fun_eq_iff)
    then show ?thesis using free False unfolding r by (simp only:) (rule AddNew [OF Inr], blast+)
  qed
qed

lemma remove_refines:
  assumes "sound hx c" and "Remove hx d c = (r, c')"
  shows "registry_step (OpRemove d) (Removed r) (registry_of c) (registry_of c')"
proof (cases "map_of (by_def c) d")
  case None
  then have "\<nexists>k. registered (registry_of c) d k"
    using registered_iff [of hx c d] assms(1) by (simp add: sound_def)
  with assms(2) None RemoveUnknown show ?thesis by (auto simp: Remove_def)
next
  case (Some k)
  have wf: "wf_catalog hx c" using assms(1) by (simp add: sound_def)
  from wf_catalogD(7) [OF wf Some] obtain e where e: "map_of (by_key c) k = Some e" "e_def e = d" by blast
  with assms(2) Some have r: "r = Some (skillRecordFrom d (e_idx e), k)"
    and c': "c' = recomputeLLMNamesLocked hx ((close_wait e c)\<lparr>by_key := AList.delete k (by_key c),
      by_def := AList.delete d (by_def c)\<rparr>)"
    by (auto simp: Remove_def Let_def close_wait_def simp del: map_of_eq_Some_iff split: option.splits)
  have "registry_of c' = (registry_of c)(k := None)"
    unfolding c' registry_named by (auto simp: registry_of_def fun_eq_iff)
  moreover have "registry_of c k = Some (d, bodiless (e_idx e), body_state_of e)"
    using e by (simp add: registry_of_def)
  ultimately show ?thesis using RemoveKnown [of "registry_of c" k d] r skillRecordFrom_bodiless by metis
qed

lemma registry_loaded:
  assumes "map_of (by_key c) k = Some e"
  shows "registry_of (loaded_state k e r c)
    = (registry_of c)(k \<mapsto> (e_def e, bodiless (e_idx e), body_state_of (finish_entry r e)))"
  by (auto simp: registry_of_def loaded_state_def finish_entry_def bodiless_def fun_eq_iff split: sum.split)

lemma body_refines:
  assumes "sound hx c" and "EnsureBody res ctx k c = (r, c')"
  shows "registry_step (OpEnsureBody res ctx k) (Body r) (registry_of c) (registry_of c')"
proof (cases ctx)
  case (Some err)
  with assms(2) show ?thesis by (auto simp: EnsureBody_def intro: BodyCancelled)
next
  case None
  have quiet: "no_loads c" and wf: "wf_catalog hx c" using assms(1) by (simp_all add: sound_def)
  note eq = EnsureBody_eq [OF quiet, of res k] assms(2) [unfolded None]
  show ?thesis
  proof (cases "map_of (by_key c) k")
    case n: None
    then have "registry_of c k = None" by (simp add: registry_of_def)
    with eq n BodyUnknown show ?thesis by (simp add: None)
  next
    case e: (Some e)
    let ?i = "bodiless (e_idx e)"
    have reg: "registry_of c k = Some (e_def e, ?i, body_state_of e)" using e by (simp add: registry_of_def)
    consider (loaded) "body_loaded e" | (failed) err where "\<not> body_loaded e" "body_err e = Some err"
      | (load) "\<not> body_loaded e" "body_err e = None" by fastforce
    then show ?thesis
    proof cases
      case loaded
      with eq e have "r = Inr (idx_skill_body (e_idx e))" "c' = c" by (simp_all del: map_of_eq_Some_iff)
      with reg loaded BodyKept [of "registry_of c" k] show ?thesis by (simp add: None body_state_of_def)
    next
      case failed
      with eq e have "r = Inl err" "c' = c" by (simp_all del: map_of_eq_Some_iff)
      with reg failed BodyFailed [of "registry_of c" k] show ?thesis by (simp add: None body_state_of_def)
    next
      case load
      with reg have reg: "registry_of c k = Some (e_def e, ?i, Unloaded)" by (simp add: body_state_of_def)
      have key: "idx_key (e_idx e) = k" using wf_catalogD(3) [OF wf e] by (simp add: wf_entry_def)
      from eq e load key have r: "r = load_body res None k" and c': "c' = loaded_state k e r c"
        by (simp_all add: Let_def del: map_of_eq_Some_iff)
      note after = registry_loaded [OF e, of r, folded c']
      show ?thesis
      proof (cases r)
        case (Inr b)
        have "load_body res None k = Inr b" using r Inr by simp
        moreover have "registry_of c' = (registry_of c)(k \<mapsto> (e_def e, ?i, Loaded b))"
          using after by (simp add: Inr finish_entry_def body_state_of_def)
        ultimately show ?thesis unfolding None Inr by (simp only:) (rule BodyLoads [of "registry_of c" k, OF reg])
      next
        case (Inl err)
        have err: "load_body res None k = Inl err" using r Inl by simp
        show ?thesis
        proof (cases "context_error err")
          case True
          have "body_state_of (finish_entry r e) = Unloaded"
            using load True by (simp add: Inl finish_entry_def body_state_of_def)
          with after reg have "registry_of c' = registry_of c" by (simp add: fun_upd_idem)
          then show ?thesis unfolding None Inl by (simp only:) (rule BodyInterrupted [of "registry_of c" k, OF reg err True])
        next
          case False
          then have "registry_of c' = (registry_of c)(k \<mapsto> (e_def e, ?i, Failed err))"
            using after load by (simp add: Inl finish_entry_def body_state_of_def)
          then show ?thesis unfolding None Inl by (simp only:) (rule BodyFails [of "registry_of c" k, OF reg err False])
        qed
      qed
    qed
  qed
qed

interpretation catalog_registry: simulation "exec_op hx" registry_step
  "\<lambda>x c. True" "sound hx" registry_of for hx
proof unfold_locales
  fix c x r c' assume "sound hx c" "exec_op hx x c = (r, c')"
  then show "sound hx c'" by (rule sound_exec)
next
  fix c x r c' assume "sound hx c" "exec_op hx x c = (r, c')"
  then show "registry_step x r (registry_of c) (registry_of c')"
    by (cases x) (auto intro: add_refines remove_refines body_refines split: prod.splits)
qed

text \<open>
  C5. The catalog implements the registry: whatever operations run on a new catalog, with whatever
  providers, each answers what the registry answers, and the registry seen through the catalog at the
  end is the one the specification arrives at. So names, handles, channels and the index by definition
  never show in what addition, removal and loading do.
\<close>

theorem catalog_refines_registry:
  "spec_all registry_step ops (fst (exec_all (exec_op hx) ops Catalog.New)) Map.empty
     (registry_of (snd (exec_all (exec_op hx) ops Catalog.New)))"
proof -
  have "no_loads Catalog.New" by (simp add: no_loads_def Catalog.New_def)
  then have "sound hx Catalog.New" by (simp add: sound_def)
  moreover have "registry_of Catalog.New = Map.empty" by (simp add: registry_of_def Catalog.New_def fun_eq_iff)
  moreover obtain rs c where run: "exec_all (exec_op hx) ops Catalog.New = (rs, c)" by force
  ultimately have "spec_all registry_step ops rs Map.empty (registry_of c)"
    using catalog_registry.exec_all_spec [OF _ admissible_always run] by simp
  with run show ?thesis by simp
qed

end
