(* ===== verification/Store_Refinement.thy ===== *)
theory Store_Refinement
  imports Simulation Store_Correct
begin

text \<open>
  The session store as what it promises: a table of open sessions in the order of their last use.
  Pointers, the map of identifiers and the linked list are implementation.
\<close>

section \<open>The table\<close>

text \<open>Most recently used first: the time of the last use, and the session.\<close>

type_synonym session_table = "(int \<times> session) list"

definition table_live :: "int \<Rightarrow> int \<Rightarrow> session_table \<Rightarrow> session_table" where
  "table_live limit now tab = rev (dropWhile (\<lambda>(t, s). limit < time_sub now t) (rev tab))"

definition table_find :: "string \<Rightarrow> session_table \<Rightarrow> session option" where
  "table_find sid tab = map_option snd (find (\<lambda>(t, s). s_id s = sid) tab)"

definition table_without :: "string \<Rightarrow> session_table \<Rightarrow> session_table" where
  "table_without sid tab = filter (\<lambda>(t, s). s_id s \<noteq> sid) tab"

datatype store_op =
    OpGet int string
  | OpTouch int string
  | OpDelete string
  | OpPrune provider_skill_key
  | OpNew int string int

datatype store_result = Found "session option" | Done

text \<open>What each operation answers and does, for a time to live and a bound on the sessions.\<close>

fun table_step :: "int \<Rightarrow> int \<Rightarrow> store_op \<Rightarrow> session_table \<Rightarrow> store_result \<times> session_table" where
  "table_step limit bound (OpGet now sid) tab =
     (let live = table_live limit now tab in
      case table_find sid live of
        None \<Rightarrow> (Found None, live)
      | Some s \<Rightarrow> (Found (Some s), (now, s) # table_without sid live))"
| "table_step limit bound (OpTouch now sid) tab =
     (let live = table_live limit now tab in
      case table_find sid live of
        None \<Rightarrow> (Done, live)
      | Some s \<Rightarrow> (Done, (now, s) # table_without sid live))"
| "table_step limit bound (OpDelete sid) tab = (Done, table_without sid tab)"
| "table_step limit bound (OpPrune key) tab = (Done, map (\<lambda>(t, s). (t, pruneKey key s)) tab)"
| "table_step limit bound (OpNew now sid n) tab =
     (Done, (now, newSession sid n) # take (nat bound - 1) (table_live limit now tab))"

text \<open>
  The operations of the store; \<open>OpNew\<close> is what \<open>NewSession\<close> does under the lock, with an identifier
  that is not in use.
\<close>

fun exec_store :: "store_op \<Rightarrow> store \<Rightarrow> store_result \<times> store" where
  "exec_store (OpGet now sid) st =
     (case Get now sid st of (r, st') \<Rightarrow> (Found (map_option (\<lambda>p. the (sessions st' p)) r), st'))"
| "exec_store (OpTouch now sid) st = (Done, touch now sid st)"
| "exec_store (OpDelete sid) st = (Done, Delete sid st)"
| "exec_store (OpPrune key) st = (Done, PruneSkill key st)"
| "exec_store (OpNew now sid n) st =
     (Done, snd (push_session now sid n (evictOverLimitLocked (evictExpiredLocked now st))))"

fun new_id :: "store_op \<Rightarrow> store \<Rightarrow> bool" where
  "new_id (OpNew now sid n) st \<longleftrightarrow> ids st sid = None"
| "new_id _ st \<longleftrightarrow> True"

definition row :: "store \<Rightarrow> nat \<times> int \<Rightarrow> int \<times> session" where
  "row st x = (snd x, the (sessions st (fst x)))"

definition table_of :: "store \<Rightarrow> session_table" where
  "table_of st = map (row st) (lru st)"

section \<open>Rows\<close>

text \<open>A session that stays in the list stays as it is.\<close>

lemma table_kept:
  assumes "wf_store st" and "wf_store st'" and "objects_kept st st'" and "fst ` set (lru st') \<subseteq> fst ` set (lru st)"
  shows "table_of st' = map (row st) (lru st')"
proof -
  have "sessions st' p = sessions st p" if "p \<in> fst ` set (lru st')" for p
  proof -
    from that assms(4) have "in_lru st' p" "in_lru st p" by (auto simp: in_lru_def)
    with assms(1,2) obtain s s' where s: "sessions st p = Some s" "\<not> closed s"
      "sessions st' p = Some s'" "\<not> closed s'" by (meson wf_store_def wf_tableD(4))
    from assms(3) s(1) obtain b where "sessions st' p = Some (s\<lparr>closed := b\<rparr>)"
      unfolding objects_kept_def by blast
    with s show ?thesis by auto
  qed
  then show ?thesis by (auto simp: table_of_def row_def)
qed

lemma expire_rows:
  "lru st = rev pend \<Longrightarrow> keys_distinct (lru st) \<Longrightarrow>
     lru (expire_from_back now pend st) = rev (dropWhile (\<lambda>x. ttl st < time_sub now (snd x)) pend)"
proof (induction pend arbitrary: st)
  case (Cons x pend)
  obtain p t where x: "x = (p, t)" by fastforce
  show ?case
  proof (cases "time_sub now t \<le> ttl st")
    case True
    with Cons.prems x show ?thesis by simp
  next
    case False
    have "lru (deleteElemLocked p st) = rev pend"
      using Cons.prems x filter_key_id [of p "rev pend"] by simp
    with Cons.IH [of "deleteElemLocked p st"] Cons.prems x False show ?thesis by simp
  qed
qed simp

lemma lru_evictExpired:
  assumes "wf_store st"
  shows "lru (evictExpiredLocked now st)
    = rev (dropWhile (\<lambda>x. ttl st < time_sub now (snd x)) (rev (lru st)))"
proof -
  have "0 < ttl st" "keys_distinct (lru st)" using assms by (simp_all add: wf_store_def wf_tableD)
  then show ?thesis using expire_rows [of st "rev (lru st)" now] by (simp add: evictExpiredLocked_def)
qed

lemma limits_evictExpired [simp]:
  "ttl (evictExpiredLocked now st) = ttl st" "max_sessions (evictExpiredLocked now st) = max_sessions st"
proof -
  have "ttl (expire_from_back now ps st) = ttl st \<and> max_sessions (expire_from_back now ps st) = max_sessions st" for ps
    by (induction now ps st rule: expire_from_back.induct) simp_all
  then show "ttl (evictExpiredLocked now st) = ttl st" "max_sessions (evictExpiredLocked now st) = max_sessions st"
    by (simp_all add: evictExpiredLocked_def)
qed

lemma table_evictExpired:
  assumes "wf_store st"
  shows "table_of (evictExpiredLocked now st) = table_live (ttl st) now (table_of st)"
proof -
  have "set (lru (evictExpiredLocked now st)) \<subseteq> set (lru st)"
    by (auto simp: lru_evictExpired [OF assms] dest: set_dropWhileD)
  then have "table_of (evictExpiredLocked now st) = map (row st) (lru (evictExpiredLocked now st))"
    using assms by (intro table_kept) (auto intro: wf_evictExpired)
  then show ?thesis
    by (simp add: lru_evictExpired [OF assms] table_live_def table_of_def rev_map dropWhile_map comp_def row_def
        split_beta)
qed

text \<open>The row of an identifier is the one of its pointer.\<close>

lemma row_id:
  assumes "wf_store st" and "ids st sid = Some p" and "x \<in> set (lru st)"
  shows "s_id (snd (row st x)) = sid \<longleftrightarrow> fst x = p"
proof -
  have w: "wf_table st" using assms(1) by (simp add: wf_store_def)
  from wf_tableD(4) [OF w, of "fst x"] assms(3) obtain s where
    "sessions st (fst x) = Some s" "ids st (s_id s) = Some (fst x)" by (force simp: in_lru_def)
  moreover obtain s' where "sessions st p = Some s'" "s_id s' = sid" using wf_tableD(5) [OF w assms(2)] by blast
  ultimately show ?thesis using assms(2) by (auto simp: row_def)
qed

lemma table_find_id:
  assumes "wf_store st"
  shows "table_find sid (table_of st) = map_option (\<lambda>p. the (sessions st p)) (ids st sid)"
proof (cases "ids st sid")
  case None
  have "s_id (snd (row st x)) \<noteq> sid" if "x \<in> set (lru st)" for x
  proof -
    have "wf_table st" using assms by (simp add: wf_store_def)
    from wf_tableD(4) [OF this, of "fst x"] that obtain s where
      "sessions st (fst x) = Some s" "ids st (s_id s) = Some (fst x)" by (force simp: in_lru_def)
    with None show ?thesis by (auto simp: row_def)
  qed
  then have "find (\<lambda>(t, s). s_id s = sid) (table_of st) = None"
    by (auto simp: find_None_iff table_of_def split_beta)
  with None show ?thesis by (simp add: table_find_def)
next
  case (Some p)
  note id = row_id [OF assms Some]
  have "find (\<lambda>(t, s). s_id s = sid) (table_of st) \<noteq> None"
  proof -
    from ids_in_lru [OF assms Some] obtain x where "x \<in> set (lru st)" "fst x = p" by (auto simp: in_lru_def)
    with id have "row st x \<in> set (table_of st)" "s_id (snd (row st x)) = sid" by (auto simp: table_of_def)
    then have "row st x \<in> set (table_of st)" "(\<lambda>(t, s). s_id s = sid) (row st x)" by (simp_all add: split_beta)
    then show ?thesis unfolding find_None_iff not_not by (intro exI conjI)
  qed
  then obtain y where y: "find (\<lambda>(t, s). s_id s = sid) (table_of st) = Some y" by auto
  then have "y \<in> set (table_of st)" "s_id (snd y) = sid" by (auto simp: find_Some_iff split_beta)
  then obtain x where "x \<in> set (lru st)" "y = row st x" by (auto simp: table_of_def)
  with id y Some \<open>s_id (snd y) = sid\<close> show ?thesis by (simp add: table_find_def row_def)
qed

lemma table_without_id:
  assumes "wf_store st" and "ids st sid = Some p"
  shows "map (row st) (filter (\<lambda>(q, t). q \<noteq> p) (lru st)) = table_without sid (table_of st)"
  using row_id [OF assms]
  by (simp add: table_without_def table_of_def filter_map comp_def split_beta cong: filter_cong)

section \<open>The operations\<close>

lemma table_move:
  assumes "wf_store st" and "ids st sid = Some p"
  shows "table_of (move_to_front now p st) = (now, the (sessions st p)) # table_without sid (table_of st)"
proof -
  have "row (move_to_front now p st) = row st" by (simp add: row_def move_to_front_def fun_eq_iff)
  then show ?thesis
    using table_without_id [OF assms] by (simp add: table_of_def move_to_front_def row_def)
qed

lemma table_Delete: "wf_store st \<Longrightarrow> table_of (Delete sid st) = table_without sid (table_of st)"
proof (cases "ids st sid")
  case None
  assume "wf_store st"
  from table_find_id [OF this, of sid] None have "find (\<lambda>(t, s). s_id s = sid) (table_of st) = None"
    by (simp add: table_find_def)
  then have "table_without sid (table_of st) = table_of st"
    by (auto simp: table_without_def find_None_iff filter_id_conv)
  with None show ?thesis by (simp add: Delete_def)
next
  case (Some p)
  assume wf: "wf_store st"
  have "wf_store (deleteElemLocked p st)" using wf ids_in_lru [OF wf Some] by (rule wf_store_delete)
  with wf have "table_of (deleteElemLocked p st) = map (row st) (lru (deleteElemLocked p st))"
    by (intro table_kept) auto
  with Some table_without_id [OF wf Some] show ?thesis by (simp add: Delete_def)
qed

lemma prune_lru: "lru (fold (prune_session key) ps st) = lru st
    \<and> ttl (fold (prune_session key) ps st) = ttl st \<and> max_sessions (fold (prune_session key) ps st) = max_sessions st"
proof (induction ps arbitrary: st)
  case (Cons p ps)
  have "lru (prune_session key p st) = lru st \<and> ttl (prune_session key p st) = ttl st
      \<and> max_sessions (prune_session key p st) = max_sessions st"
    by (simp add: prune_session_def split: option.split)
  with Cons show ?case by simp
qed simp

lemma table_PruneSkill:
  assumes "wf_store st"
  shows "table_of (PruneSkill key st) = map (\<lambda>(t, s). (t, pruneKey key s)) (table_of st)"
proof -
  have w: "wf_table st" using assms by (simp add: wf_store_def)
  let ?ps = "filter (\<lambda>p. \<not> session_closed p st) (map fst (lru st))"
  have "row (PruneSkill key st) x = (snd x, pruneKey key (snd (row st x)))" if "x \<in> set (lru st)" for x
  proof -
    from wf_tableD(4) [OF w, of "fst x"] that obtain s where "sessions st (fst x) = Some s" "\<not> closed s"
      by (force simp: in_lru_def)
    then have "fst x \<in> set ?ps" "sessions st (fst x) = Some s" using that by (auto simp: session_closed_def)
    with prune_sessions [of ?ps key st "fst x"] wf_tableD(3) [OF w] show ?thesis
      by (simp add: row_def PruneSkill_def)
  qed
  then show ?thesis
    using prune_lru [of key ?ps st] by (simp add: table_of_def PruneSkill_def comp_def row_def split_beta)
qed

lemma table_new:
  assumes "wf_store st" and "ids st sid = None"
  shows "table_of (snd (push_session now sid n st))
    = (now, newSession sid n) # take (nat (max_sessions st) - 1) (table_of st)"
proof -
  obtain p st' where push: "push_session now sid n st = (p, st')" by force
  note e = push_session_effect [OF assms push]
  let ?p = "next_ptr st"
  let ?st = "st\<lparr>lru := (?p, now) # lru st, ids := (ids st)(sid \<mapsto> ?p),
      sessions := (sessions st)(?p \<mapsto> newSession sid n), next_ptr := Suc ?p\<rparr>"
  have st': "st' = evictOverLimitLocked ?st" using push by (auto simp: push_session_def Let_def)
  have w: "wf_table st" using assms(1) by (simp add: wf_store_def)
  have "the (sessions st' (fst x)) = the (sessions st (fst x))"
    if "x \<in> set (take (nat (max_sessions st) - 1) (lru st))" for x
  proof -
    from that have "in_lru st (fst x)" "in_lru st' (fst x)" using e by (auto simp: in_lru_def dest: in_set_takeD)
    moreover have "wf_table st'" using e by (simp add: wf_store_def)
    ultimately obtain s s' where s: "sessions st (fst x) = Some s" "\<not> closed s"
      "sessions st' (fst x) = Some s'" "\<not> closed s'" using wf_tableD(4) w by metis
    then have "sessions ?st (fst x) = Some s" using wf_tableD(6) [OF w s(1)] by auto
    then obtain b where "sessions st' (fst x) = Some (s\<lparr>closed := b\<rparr>)"
      using objects_kept_evictOverLimit [of ?st] unfolding st' objects_kept_def by blast
    with s show ?thesis by auto
  qed
  then have "map (row st') (take (nat (max_sessions st) - 1) (lru st))
      = map (row st) (take (nat (max_sessions st) - 1) (lru st))" by (simp add: row_def)
  moreover have "row st' (p, now) = (now, newSession sid n)"
    using e [THEN conjunct2, THEN conjunct2, THEN conjunct2] by (simp add: row_def)
  ultimately show ?thesis using e push by (simp add: table_of_def take_map)
qed

definition store_inv :: "int \<Rightarrow> int \<Rightarrow> store \<Rightarrow> bool" where
  "store_inv limit bound st \<longleftrightarrow> wf_store st \<and> ttl st = limit \<and> max_sessions st = bound"

lemma store_step:
  assumes "store_inv limit bound st" and "new_id x st" and "exec_store x st = (r, st')"
  shows "store_inv limit bound st' \<and> (r, table_of st') = table_step limit bound x (table_of st)"
proof -
  have wf: "wf_store st" and same: "ttl st = limit" "max_sessions st = bound"
    using assms(1) by (simp_all add: store_inv_def)
  let ?live = "\<lambda>now. evictExpiredLocked now st"
  have live: "wf_store (?live now)" "table_of (?live now) = table_live limit now (table_of st)"
    "table_find sid (table_live limit now (table_of st)) = map_option (\<lambda>p. the (sessions (?live now) p)) (ids (?live now) sid)" for now sid
    using wf_evictExpired [OF wf] table_evictExpired [OF wf] table_find_id [OF wf_evictExpired [OF wf]]
    by (simp_all add: same)
  show ?thesis
  proof (cases x)
    case (OpGet now sid)
    show ?thesis
    proof (cases "ids (?live now) sid")
      case None
      with OpGet assms(3) live same show ?thesis by (auto simp: Get_def Let_def store_inv_def)
    next
      case (Some p)
      have "sessions (move_to_front now p (?live now)) = sessions (?live now)" by (simp add: move_to_front_def)
      moreover have "ttl (move_to_front now p (?live now)) = limit"
        "max_sessions (move_to_front now p (?live now)) = bound" by (simp_all add: move_to_front_def same)
      ultimately show ?thesis
        using OpGet Some assms(3) live table_move [OF live(1) Some, of now] not_closed_in_table [OF live(1) Some]
          wf_move_to_front [OF live(1) ids_in_lru [OF live(1) Some], of now]
        by (auto simp: Get_def Let_def store_inv_def)
    qed
  next
    case (OpTouch now sid)
    show ?thesis
    proof (cases "ids (?live now) sid")
      case None
      with OpTouch assms(3) live same show ?thesis by (auto simp: touch_def Let_def store_inv_def)
    next
      case (Some p)
      have "ttl (move_to_front now p (?live now)) = limit"
        "max_sessions (move_to_front now p (?live now)) = bound" by (simp_all add: move_to_front_def same)
      then show ?thesis
        using OpTouch Some assms(3) live table_move [OF live(1) Some, of now] not_closed_in_table [OF live(1) Some]
          wf_move_to_front [OF live(1) ids_in_lru [OF live(1) Some], of now]
        by (auto simp: touch_def Let_def store_inv_def)
    qed
  next
    case (OpDelete sid)
    have "ttl (Delete sid st) = limit \<and> max_sessions (Delete sid st) = bound"
      by (simp add: Delete_def same split: option.split)
    with OpDelete assms(3) table_Delete [OF wf, of sid] wf_Delete [OF wf, of sid] show ?thesis
      by (auto simp: store_inv_def)
  next
    case (OpPrune key)
    with assms(3) table_PruneSkill [OF wf, of key] wf_PruneSkill [OF wf, of key] same show ?thesis
      by (auto simp: store_inv_def PruneSkill_def prune_lru)
  next
    case (OpNew now sid n)
    then have "ids (?live now) sid = None" using assms(2) ids_shrink_evictExpired [of st now]
      by (auto simp: ids_shrink_def)
    note new = table_new [OF live(1) this, of now n]
    obtain p where push: "push_session now sid n (?live now) = (p, st')"
      using OpNew assms(3) live(1) evictOverLimit_id by (metis exec_store.simps(5) prod.collapse prod.inject)
    note e = push_session_effect [OF live(1) \<open>ids (?live now) sid = None\<close> push]
    have w: "wf_table (?live now)" using live(1) by (simp add: wf_store_def)
    have "ttl st' = limit \<and> max_sessions st' = bound"
      using push evictOverLimit_lru [OF wf_push_table [OF live(1) \<open>ids (?live now) sid = None\<close>, of n now]]
      by (auto simp: push_session_def Let_def same)
    with OpNew assms(3) new push e live show ?thesis by (simp add: store_inv_def same)
  qed
qed

interpretation store_table: simulation exec_store "\<lambda>x r a b. table_step limit bound x a = (r, b)"
  new_id "store_inv limit bound" table_of for limit bound
proof unfold_locales
  fix st x r st' assume "store_inv limit bound st" "new_id x st" "exec_store x st = (r, st')"
  from store_step [OF this] show "store_inv limit bound st'" by blast
next
  fix st x r st' assume "store_inv limit bound st" "new_id x st" "exec_store x st = (r, st')"
  from store_step [OF this] show "table_step limit bound x (table_of st) = (r, table_of st')" by simp
qed

definition default_ttl :: "int \<Rightarrow> int" where
  "default_ttl t = (if t \<le> 0 then 24 * 60 * 60 * 1000000000 else t)"

definition default_sessions :: "int \<Rightarrow> int" where
  "default_sessions m = (if m \<le> 0 then 4096 else m)"

text \<open>
  C6. The store implements the table of sessions: every sequence of lookups, touches, deletions,
  prunings and new sessions on a new store gives the answers the table gives and ends in the table's
  state - sessions in the order of their last use, idle ones dropped from the end by every lookup and
  new session, a new one in front of as many others as the bound leaves room for - provided that
  identifiers of new sessions are not in use.
\<close>

theorem store_refines_table:
  assumes "admissible new_id exec_store ops (NewStore t m a)"
  shows "exec_all (table_step (default_ttl t) (default_sessions m)) ops []
    = (fst (exec_all exec_store ops (NewStore t m a)),
       table_of (snd (exec_all exec_store ops (NewStore t m a))))"
proof -
  obtain rs st where run: "exec_all exec_store ops (NewStore t m a) = (rs, st)" by force
  have inv: "store_inv (default_ttl t) (default_sessions m) (NewStore t m a)"
    by (simp add: store_inv_def) (simp add: NewStore_def default_ttl_def default_sessions_def)
  from store_table.exec_all_spec [OF inv assms run, THEN conjunct2]
  have "exec_all (table_step (default_ttl t) (default_sessions m)) ops (table_of (NewStore t m a))
      = (rs, table_of st)" by (rule spec_all_fun)
  with run show ?thesis by (simp add: table_of_def NewStore_def)
qed

text \<open>The second session pushes out none, the third the least recently used one.\<close>

theorem store_refines_table_witness:
  "map (\<lambda>(t, s). (t, s_id s)) (table_of (snd (exec_all exec_store
       [OpNew 0 ''a'' 8, OpNew 5 ''b'' 8, OpGet 7 ''a'', OpNew 9 ''c'' 8] (NewStore 10 2 8))))
   = [(9, ''c''), (7, ''a'')]"
proof -
  let ?ops = "[OpNew 0 ''a'' 8, OpNew 5 ''b'' 8, OpGet 7 ''a'', OpNew 9 ''c'' 8]"
  have "admissible new_id exec_store ?ops (NewStore 10 2 8)" by code_simp
  from store_refines_table [OF this]
  have "table_of (snd (exec_all exec_store ?ops (NewStore 10 2 8)))
      = snd (exec_all (table_step (default_ttl 10) (default_sessions 2)) ?ops [])" by simp
  moreover have "map (\<lambda>(t, s). (t, s_id s))
      (snd (exec_all (table_step (default_ttl 10) (default_sessions 2)) ?ops []))
    = [(9, ''c''), (7, ''a'')]" by code_simp
  ultimately show ?thesis by simp
qed

end
