(* ===== verification/Document.thy ===== *)
theory Document
  imports Artifact
begin

text \<open>
  \<open>document.go\<close>: parsing a materialised SKILL.md, validating a document, rendering one, and
  writing the canonical form. What comes from outside is a record of functions: go-yaml's
  \<open>Unmarshal\<close> and \<open>Marshal\<close>, and the quoting verb \<open>%q\<close>, whose output is only shown.
\<close>

record doc_env =
  env_unmarshal :: "string \<Rightarrow> go_error + frontmatter"
  env_marshal :: "frontmatter \<Rightarrow> go_error + string"
  env_quote :: "string \<Rightarrow> string"

definition map_err :: "('e \<Rightarrow> 'f) \<Rightarrow> 'e + 'a \<Rightarrow> 'f + 'a" where
  "map_err f r = map_sum f id r"

lemma map_err_simps [simp]:
  "map_err f (Inl e) = Inl (f e)" "map_err f (Inr x) = Inr x"
  "map_err f r = Inr x \<longleftrightarrow> r = Inr x"
  by (cases r; simp add: map_err_def)+

section \<open>Limits\<close>

definition MaxSkillDocumentBytes :: nat where "MaxSkillDocumentBytes = 2097152"
definition maxSkillNameBytes :: nat where "maxSkillNameBytes = 64"
definition maxSkillDescriptionBytes :: nat where "maxSkillDescriptionBytes = 1024"
definition maxSkillDisplayNameBytes :: nat where "maxSkillDisplayNameBytes = 256"
definition maxSkillArguments :: nat where "maxSkillArguments = 64"
definition maxSkillArgumentBytes :: nat where "maxSkillArgumentBytes = 4096"
definition maxSkillTags :: nat where "maxSkillTags = 64"
definition maxSkillTagBytes :: nat where "maxSkillTagBytes = 128"

definition propKeyName :: string where "propKeyName = ''name''"

text \<open>\<open>len(content) > MaxSkillDocumentBytes\<close>; evaluated with binary numbers.\<close>

definition exceeds_document_limit :: "string \<Rightarrow> bool" where
  "exceeds_document_limit content \<longleftrightarrow> MaxSkillDocumentBytes < length content"

lemma exceeds_document_limit_code [code]:
  "exceeds_document_limit content \<longleftrightarrow> (2097152 :: int) < int (length content)"
  by (auto simp: exceeds_document_limit_def MaxSkillDocumentBytes_def)

section \<open>Names, descriptions, headings\<close>

definition lower_digit :: "char \<Rightarrow> bool" where
  "lower_digit c \<longleftrightarrow> (97 \<le> byte c \<and> byte c \<le> 122) \<or> (48 \<le> byte c \<and> byte c \<le> 57)"

text \<open>\<open>^[a-z0-9](?:[a-z0-9-]{0,62}[a-z0-9])?$\<close>\<close>

definition skillDocumentNamePattern :: "string \<Rightarrow> bool" where
  "skillDocumentNamePattern s =
     (case s of [] \<Rightarrow> False
      | c # r \<Rightarrow> lower_digit c \<and>
          (r = [] \<or> (length (butlast r) \<le> 62
                    \<and> list_all (\<lambda>d. lower_digit d \<or> d = CHR ''-'') (butlast r)
                    \<and> lower_digit (last r))))"

definition validateSkillDocumentName :: "string \<Rightarrow> go_error + unit" where
  "validateSkillDocumentName value =
     (if value = [] then Inl (Msg ''frontmatter.name is required'')
      else if value \<noteq> trim_space value then
        Inl (Msg ''frontmatter.name has leading or trailing whitespace'')
      else if maxSkillNameBytes < length value \<or> \<not> skillDocumentNamePattern value
              \<or> contains value ''--'' then
        Inl (Msg ''frontmatter.name must be a lowercase hyphenated name of at most 64 bytes without consecutive hyphens'')
      else Inr ())"

definition validateSkillDocumentDescription :: "string \<Rightarrow> go_error + unit" where
  "validateSkillDocumentDescription value =
     (if value = [] then Inl (Msg ''frontmatter.description is required'')
      else if value \<noteq> trim_space value then
        Inl (Msg ''frontmatter.description has leading or trailing whitespace'')
      else if maxSkillDescriptionBytes < length value then
        Inl (Msg ''frontmatter.description exceeds %d bytes'')
      else Inr ())"

fun first_heading :: "string list \<Rightarrow> string" where
  "first_heading [] = []"
| "first_heading (line # ls) =
     (case cut_prefix (trim_space line) ''# '' of
        Some value \<Rightarrow> trim_space value
      | None \<Rightarrow> first_heading ls)"

definition firstSkillDocumentHeading :: "string \<Rightarrow> string" where
  "firstSkillDocumentHeading body = first_heading (split_nl body)"

text \<open>The loop of \<open>truncateValidUTF8\<close> drops bytes from the end until the rest is valid.\<close>

function drop_to_valid :: "string \<Rightarrow> string" where
  "drop_to_valid s = (if valid_utf8 s then s else drop_to_valid (butlast s))"
  by pat_completeness auto
termination
proof (relation "measure length")
  fix s assume "\<not> valid_utf8 s"
  then have "s \<noteq> []" by auto
  then show "(butlast s, s) \<in> measure length" by simp
qed simp

declare drop_to_valid.simps [simp del]

definition truncateValidUTF8 :: "string \<Rightarrow> nat \<Rightarrow> string" where
  "truncateValidUTF8 value maximum =
     (if maximum = 0 \<or> length value \<le> maximum then value
      else drop_to_valid (take maximum value))"

definition uniqueSkillDocumentWarnings :: "string list \<Rightarrow> string list" where
  "uniqueSkillDocumentWarnings ws = dedup (filter (\<lambda>w. w \<noteq> []) (map trim_space ws))"

section \<open>Deep copies\<close>

fun cloneSkillDocumentValue :: "gval \<Rightarrow> gval" where
  "cloneSkillDocumentValue (VMap m) = VMap (map (\<lambda>(k, v). (k, cloneSkillDocumentValue v)) m)"
| "cloneSkillDocumentValue (VAnyMap m) = VAnyMap (map (\<lambda>(k, v). (k, cloneSkillDocumentValue v)) m)"
| "cloneSkillDocumentValue (VList vs) = VList (map cloneSkillDocumentValue vs)"
| "cloneSkillDocumentValue (VStrList ss) = VStrList ([] @ ss)"
| "cloneSkillDocumentValue (VArgs as) = VArgs ([] @ as)"
| "cloneSkillDocumentValue v = v"

definition cloneSkillDocumentMap :: "frontmatter \<Rightarrow> frontmatter" where
  "cloneSkillDocumentMap m = map (\<lambda>(k, v). (k, cloneSkillDocumentValue v)) m"

lemma cloneSkillDocumentValue_id [simp]: "cloneSkillDocumentValue v = v"
  by (induction v rule: cloneSkillDocumentValue.induct)
    (auto intro!: map_idI simp: split_beta)

lemma cloneSkillDocumentMap_id [simp]: "cloneSkillDocumentMap m = m"
  by (simp add: cloneSkillDocumentMap_def)

section \<open>Frontmatter\<close>

text \<open>
  \<open>reader.ReadString('\n')\<close>: the line with its newline, the unread rest, and whether the end
  was reached before a newline.
\<close>

fun read_line :: "string \<Rightarrow> string \<times> string \<times> bool" where
  "read_line [] = ([], [], True)"
| "read_line (c # s) =
     (if c = NL then ([NL], s, False)
      else (case read_line s of (line, rest, eof) \<Rightarrow> (c # line, rest, eof)))"

lemma read_line_shorter: "read_line s = (line, rest, False) \<Longrightarrow> length rest < length s"
  by (induction s arbitrary: line) (auto split: if_splits prod.splits)

definition frontmatter_line :: "string \<Rightarrow> string" where
  "frontmatter_line line = trim_space (trim_right_set line [CR, NL])"

definition is_delimiter :: "string \<Rightarrow> bool" where
  "is_delimiter line \<longleftrightarrow> frontmatter_line line = ''---'' \<or> frontmatter_line line = ''...''"

text \<open>The loop that collects frontmatter lines up to the closing delimiter.\<close>

function scan_frontmatter :: "string \<Rightarrow> string \<Rightarrow> go_error + (string \<times> string)" where
  "scan_frontmatter acc s =
     (case read_line s of (line, rest, eof) \<Rightarrow>
        if is_delimiter line then Inr (acc, rest)
        else if eof then Inl (Msg ''SKILL.md has unterminated YAML frontmatter'')
        else scan_frontmatter (acc @ line) rest)"
  by pat_completeness auto
termination
  by (relation "measure (\<lambda>(acc, s). length s)") (auto dest: read_line_shorter [OF sym])

declare scan_frontmatter.simps [simp del]

definition splitSkillDocumentFrontmatter :: "string \<Rightarrow> go_error + (string \<times> string)" where
  "splitSkillDocumentFrontmatter content =
     (case read_line content of (first, rest, eof) \<Rightarrow>
        if frontmatter_line first \<noteq> ''---''
        then Inl (Msg ''SKILL.md requires YAML frontmatter'')
        else scan_frontmatter [] rest)"

text \<open>\<open>properties[key]\<close>: a missing key reads as nil.\<close>

definition lookup :: "frontmatter \<Rightarrow> string \<Rightarrow> gval" where
  "lookup properties key = (case map_of properties key of None \<Rightarrow> VNil | Some v \<Rightarrow> v)"

definition requiredSkillDocumentString ::
  "frontmatter \<Rightarrow> string \<Rightarrow> go_error + (string \<times> string list)" where
  "requiredSkillDocumentString properties key =
     (case map_of properties key of
        None \<Rightarrow> Inl (Msg ''frontmatter.%s is required'')
      | Some raw \<Rightarrow>
          (case raw of
             VStr value \<Rightarrow>
               (let trimmed = trim_space value in
                if trimmed = value then Inr (value, [])
                else Inr (trimmed,
                  [''frontmatter.'' @ key @ '' had leading or trailing whitespace removed'']))
           | _ \<Rightarrow> Inl (Msg ''frontmatter.%s must be a string'')))"

definition parseSkillDocumentInsert :: "doc_env \<Rightarrow> gval \<Rightarrow> skill_insert \<times> string list" where
  "parseSkillDocumentInsert env raw =
     (case raw of
        VNil \<Rightarrow> (SkillInsertInstructions, [])
      | VStr value \<Rightarrow>
          (case NormalizeSkillInsert value of (ins, supported) \<Rightarrow>
             if supported then (ins, [])
             else (SkillInsertInstructions,
               [''unsupported frontmatter.insert value '' @ env_quote env value
                @ ''; defaulted to instructions'']))
      | _ \<Rightarrow> (SkillInsertInstructions,
          [''frontmatter.insert must be a string; defaulted to instructions'']))"

fun string_keys :: "(gval \<times> gval) list \<Rightarrow> frontmatter option" where
  "string_keys [] = Some []"
| "string_keys ((VStr k, v) # m) = map_option (\<lambda>m'. (k, v) # m') (string_keys m)"
| "string_keys ((_, v) # m) = None"

definition skillDocumentStringMap :: "gval \<Rightarrow> frontmatter option" where
  "skillDocumentStringMap value =
     (case value of VMap m \<Rightarrow> Some m | VAnyMap m \<Rightarrow> string_keys m | _ \<Rightarrow> None)"

definition indexed_warning :: "string \<Rightarrow> nat \<Rightarrow> string \<Rightarrow> string" where
  "indexed_warning field index rest = ''frontmatter.'' @ field @ ''['' @ show_nat index @ '']'' @ rest"

definition optionalSkillArgumentText ::
  "frontmatter \<Rightarrow> string \<Rightarrow> nat \<Rightarrow> string list \<Rightarrow> string \<times> string list" where
  "optionalSkillArgumentText properties key index warnings =
     (case lookup properties key of
        VNil \<Rightarrow> ([], warnings)
      | VStr value \<Rightarrow>
          (if maxSkillArgumentBytes < length value then
             (truncateValidUTF8 value maxSkillArgumentBytes,
              warnings @ [indexed_warning ''arguments'' index
                (CHR ''.'' # key @ '' was truncated to '' @ show_nat maxSkillArgumentBytes @ '' bytes'')])
           else (value, warnings))
      | _ \<Rightarrow> ([], warnings @ [indexed_warning ''arguments'' index
                (CHR ''.'' # key @ '' was ignored because it is not a string'')]))"

text \<open>One item of the \<open>arguments\<close> list: \<open>None\<close> is the \<open>continue\<close> of an item of the wrong shape.\<close>

definition argument_item ::
  "nat \<Rightarrow> gval \<Rightarrow> string list \<Rightarrow> skill_argument option \<times> string list" where
  "argument_item index item warnings =
     (case item of
        VStr value \<Rightarrow>
          (Some \<lparr>arg_name = trim_space value, arg_description = [], arg_default = []\<rparr>, warnings)
      | _ \<Rightarrow>
          (case skillDocumentStringMap item of
             None \<Rightarrow> (None, warnings @ [indexed_warning ''arguments'' index
                '' was ignored because it is not an object or string''])
           | Some properties \<Rightarrow>
               (case lookup properties propKeyName of
                  VStr name \<Rightarrow>
                    (let (description, warnings) =
                           optionalSkillArgumentText properties ''description'' index warnings;
                         (def, warnings) =
                           optionalSkillArgumentText properties ''default'' index warnings
                     in (Some \<lparr>arg_name = trim_space name, arg_description = description,
                               arg_default = def\<rparr>, warnings))
                | _ \<Rightarrow> (None, warnings @ [indexed_warning ''arguments'' index ''.name is invalid'']))))"

definition truncated_warning :: "string \<Rightarrow> nat \<Rightarrow> string" where
  "truncated_warning field limit =
     ''frontmatter.'' @ field @ '' was truncated to '' @ show_nat limit @ '' entries''"

fun arguments_loop ::
  "nat \<Rightarrow> gval list \<Rightarrow> skill_argument list \<Rightarrow> string set \<Rightarrow> string list
   \<Rightarrow> skill_argument list \<times> string list" where
  "arguments_loop index [] output seen warnings = (output, warnings)"
| "arguments_loop index (item # items) output seen warnings =
     (if maxSkillArguments \<le> length output then
        (output, warnings @ [truncated_warning ''arguments'' maxSkillArguments])
      else (case argument_item index item warnings of
          (None, warnings) \<Rightarrow> arguments_loop (Suc index) items output seen warnings
        | (Some argument, warnings) \<Rightarrow>
            if \<not> IsValidSkillArgumentName (arg_name argument) then
              arguments_loop (Suc index) items output seen
                (warnings @ [indexed_warning ''arguments'' index ''.name is invalid''])
            else if arg_name argument \<in> seen then
              arguments_loop (Suc index) items output seen
                (warnings @ [''duplicate argument ignored: '' @ arg_name argument])
            else arguments_loop (Suc index) items (output @ [argument])
                   (insert (arg_name argument) seen) warnings))"

definition parseSkillDocumentArguments :: "gval \<Rightarrow> skill_argument list \<times> string list" where
  "parseSkillDocumentArguments raw =
     (case raw of
        VNil \<Rightarrow> ([], [])
      | VList items \<Rightarrow> arguments_loop 0 items [] {} []
      | VStrList items \<Rightarrow> arguments_loop 0 (map VStr items) [] {} []
      | VStr value \<Rightarrow> arguments_loop 0 [VStr value] [] {}
          [''frontmatter.arguments string was treated as a one-item list'']
      | _ \<Rightarrow> ([], [''frontmatter.arguments must be a list of objects or strings'']))"

fun tags_loop ::
  "nat \<Rightarrow> gval list \<Rightarrow> string list \<Rightarrow> string set \<Rightarrow> string list \<Rightarrow> string list \<times> string list" where
  "tags_loop index [] output seen warnings = (output, warnings)"
| "tags_loop index (item # items) output seen warnings =
     (if maxSkillTags \<le> length output then
        (output, warnings @ [truncated_warning ''tags'' maxSkillTags])
      else (case item of
          VStr raw \<Rightarrow>
            (let value = trim_space raw in
             if value = [] then
               tags_loop (Suc index) items output seen
                 (warnings @ [indexed_warning ''tags'' index '' was ignored because it is empty''])
             else if maxSkillTagBytes < length value then
               tags_loop (Suc index) items output seen
                 (warnings @ [indexed_warning ''tags'' index
                    ('' was ignored because it exceeds '' @ show_nat maxSkillTagBytes @ '' bytes'')])
             else if value \<in> seen then tags_loop (Suc index) items output seen warnings
             else tags_loop (Suc index) items (output @ [value]) (insert value seen) warnings)
        | _ \<Rightarrow>
            tags_loop (Suc index) items output seen
              (warnings @ [indexed_warning ''tags'' index
                 '' was ignored because it is not a string''])))"

definition parseSkillDocumentTags :: "gval \<Rightarrow> string list \<times> string list" where
  "parseSkillDocumentTags raw =
     (case raw of
        VNil \<Rightarrow> ([], [])
      | VList items \<Rightarrow> tags_loop 0 items [] {} []
      | VStrList items \<Rightarrow> tags_loop 0 (map VStr items) [] {} []
      | VStr value \<Rightarrow> tags_loop 0 [VStr value] [] {}
          [''frontmatter.tags string was treated as a one-item list'']
      | _ \<Rightarrow> ([], [''frontmatter.tags was ignored because it is not a list or string'']))"

section \<open>Parsing\<close>

text \<open>The body with LF line ends and without leading empty lines.\<close>

definition normalize_body :: "string \<Rightarrow> string" where
  "normalize_body body =
     trim_left_set (replace_all [CR] [NL] (replace_all [CR, NL] [NL] body)) [NL]"

definition document_display_name :: "string \<Rightarrow> string \<Rightarrow> string \<times> string list" where
  "document_display_name name body =
     (let displayName = firstSkillDocumentHeading body;
          displayName = (if displayName = [] then name else displayName)
      in if maxSkillDisplayNameBytes < length displayName
         then (truncateValidUTF8 displayName maxSkillDisplayNameBytes,
               [''display name was truncated to '' @ show_nat maxSkillDisplayNameBytes @ '' bytes''])
         else (displayName, []))"

definition utf8_bom :: string where
  "utf8_bom = [CHR 0xEF, CHR 0xBB, CHR 0xBF]"

text \<open>Everything \<open>ParseSkillDocument\<close> does with the decoded properties.\<close>

definition document_of_properties ::
  "doc_env \<Rightarrow> frontmatter \<Rightarrow> string \<Rightarrow> string \<Rightarrow> string list
   \<Rightarrow> go_error + (skill_document \<times> string list)" where
  "document_of_properties env properties raw_body expected_name warnings =
     and_then (requiredSkillDocumentString properties propKeyName) (\<lambda>(name, nameWarnings).
     and_then (validateSkillDocumentName name) (\<lambda>_.
     and_then (requiredSkillDocumentString properties ''description'') (\<lambda>(description, descWarnings).
     and_then (validateSkillDocumentDescription description) (\<lambda>_.
     and_then (guard_err (trim_space expected_name \<noteq> [] \<and> name \<noteq> trim_space expected_name)
                 (Msg ''frontmatter.name %q must match expected name %q'')) (\<lambda>_.
       let (ins, insertWarnings) = parseSkillDocumentInsert env (lookup properties ''insert'');
           (arguments, argumentWarnings) =
             parseSkillDocumentArguments (lookup properties ''arguments'');
           (tags, tagWarnings) = parseSkillDocumentTags (lookup properties ''tags'');
           body = normalize_body raw_body;
           bodyWarnings = (if trim_space body = []
             then [''SKILL.md body is empty; the skill may still provide resources or scripts'']
             else []);
           (displayName, displayWarnings) = document_display_name name body
       in Inr (\<lparr>doc_name = name, doc_display_name = displayName, doc_description = description,
                doc_insert = ins, doc_arguments = arguments, doc_tags = tags,
                doc_markdown_body = body,
                doc_raw_frontmatter = cloneSkillDocumentMap properties\<rparr>,
              uniqueSkillDocumentWarnings
                (warnings @ nameWarnings @ descWarnings @ insertWarnings @ argumentWarnings
                 @ tagWarnings @ bodyWarnings @ displayWarnings)))))))"

definition ParseSkillDocument ::
  "doc_env \<Rightarrow> string \<Rightarrow> string \<Rightarrow> go_error + (skill_document \<times> string list)" where
  "ParseSkillDocument env content expected_name =
     and_then (guard_err (exceeds_document_limit content)
                 (Msg ''SKILL.md exceeds %d bytes'')) (\<lambda>_.
     and_then (guard_err (\<not> valid_utf8 content)
                 (Msg ''SKILL.md must contain valid UTF-8'')) (\<lambda>_.
     and_then (guard_err (NUL \<in> set content) (Msg ''SKILL.md contains a NUL byte'')) (\<lambda>_.
       let (content, warnings) =
             (case cut_prefix content utf8_bom of
                Some after \<Rightarrow> (after, [''UTF-8 BOM was removed''])
              | None \<Rightarrow> (content, []))
       in and_then (splitSkillDocumentFrontmatter content) (\<lambda>(frontmatter, body).
          and_then (map_err (\<lambda>e. Wrapf ''decode SKILL.md frontmatter: %w'' [e])
                      (env_unmarshal env frontmatter)) (\<lambda>properties.
            document_of_properties env properties body expected_name warnings)))))"

section \<open>Validation\<close>

fun validate_arguments :: "string set \<Rightarrow> skill_argument list \<Rightarrow> go_error + unit" where
  "validate_arguments seen [] = Inr ()"
| "validate_arguments seen (argument # args) =
     (if arg_name argument \<noteq> trim_space (arg_name argument)
         \<or> \<not> IsValidSkillArgumentName (arg_name argument)
      then Inl (Msg ''arguments[%d].name is invalid'')
      else if arg_name argument \<in> seen then Inl (Msg ''duplicate argument %q'')
      else if maxSkillArgumentBytes < length (arg_description argument)
              \<or> maxSkillArgumentBytes < length (arg_default argument)
      then Inl (Msg ''arguments[%d] description or default exceeds %d bytes'')
      else validate_arguments (insert (arg_name argument) seen) args)"

fun validate_tags :: "string set \<Rightarrow> string list \<Rightarrow> go_error + unit" where
  "validate_tags seen [] = Inr ()"
| "validate_tags seen (tag # tags) =
     (if tag = [] \<or> tag \<noteq> trim_space tag then
        Inl (Msg ''tags[%d] must be non-empty and trimmed'')
      else if maxSkillTagBytes < length tag then Inl (Msg ''tags[%d] exceeds %d bytes'')
      else if tag \<in> seen then Inl (Msg ''duplicate tag %q'')
      else validate_tags (insert tag seen) tags)"

definition validate_display_name :: "string \<Rightarrow> go_error + unit" where
  "validate_display_name d =
     (if d \<noteq> [] \<and> trim_space d \<noteq> d then
        Inl (Msg ''displayName has leading or trailing whitespace'')
      else if d \<noteq> [] \<and> maxSkillDisplayNameBytes < length d then
        Inl (Msg ''displayName exceeds %d bytes'')
      else Inr ())"

definition ValidateSkillDocument :: "skill_document \<Rightarrow> go_error + unit" where
  "ValidateSkillDocument document =
     and_then (validateSkillDocumentName (doc_name document)) (\<lambda>_.
     and_then (validateSkillDocumentDescription (doc_description document)) (\<lambda>_.
     and_then (validate_display_name (doc_display_name document)) (\<lambda>_.
     and_then (guard_err (\<not> snd (NormalizeSkillInsert (doc_insert document)))
                 (Msg ''unsupported insert value %q'')) (\<lambda>_.
     and_then (guard_err (maxSkillArguments < length (doc_arguments document))
                 (Msg ''arguments exceeds %d entries'')) (\<lambda>_.
     and_then (validate_arguments {} (doc_arguments document)) (\<lambda>_.
     and_then (guard_err (maxSkillTags < length (doc_tags document))
                 (Msg ''tags exceeds %d entries'')) (\<lambda>_.
     and_then (validate_tags {} (doc_tags document)) (\<lambda>_.
     and_then (guard_err (\<not> valid_utf8 (doc_markdown_body document))
                 (Msg ''markdownBody must contain valid UTF-8'')) (\<lambda>_.
     guard_err (NUL \<in> set (doc_markdown_body document))
       (Msg ''markdownBody contains a NUL byte''))))))))))"

section \<open>Rendering and writing\<close>

definition invalid_document :: "go_error \<Rightarrow> go_error" where
  "invalid_document e = Wrapf ''%w: invalid Skill document: %w'' [Sentinel ErrInvalidArgument, e]"

definition RenderSkillDocument ::
  "skill_document \<Rightarrow> (string \<rightharpoonup> string) \<Rightarrow> go_error + render_skill_out" where
  "RenderSkillDocument document arguments =
     and_then (map_err invalid_document (ValidateSkillDocument document)) (\<lambda>_.
       case NormalizeSkillInsert (doc_insert document) of (ins, ok) \<Rightarrow>
       if \<not> ok then Inl (invalid_arg ''%w: invalid insert behavior %q'')
       else
         let rendered = RenderSkillBody (doc_markdown_body document) (doc_arguments document) arguments;
             displayName = (if doc_display_name document = [] then doc_name document
                            else doc_display_name document)
         in Inr \<lparr>ro_name = doc_name document, ro_description = doc_description document,
                 ro_display_name = displayName, ro_insert = ins, ro_tags = doc_tags document,
                 ro_resources = empty_resources, ro_text = rr_text rendered,
                 ro_arguments = doc_arguments document,
                 ro_applied_arguments = rr_applied_arguments rendered,
                 ro_raw_frontmatter = cloneSkillDocumentMap (doc_raw_frontmatter document),
                 ro_warnings = rr_warnings rendered\<rparr>)"

definition argument_properties :: "skill_argument \<Rightarrow> frontmatter" where
  "argument_properties a =
     [(propKeyName, VStr (arg_name a))]
     @ (if arg_description a \<noteq> [] then [(''description'', VStr (arg_description a))] else [])
     @ (if arg_default a \<noteq> [] then [(''default'', VStr (arg_default a))] else [])"

text \<open>The property map that \<open>MarshalSkillDocument\<close> hands to the YAML encoder.\<close>

definition document_properties :: "skill_document \<Rightarrow> frontmatter" where
  "document_properties document =
     (let p0 = cloneSkillDocumentMap (doc_raw_frontmatter document);
          p1 = AList.update propKeyName (VStr (doc_name document)) p0;
          p2 = AList.update ''description'' (VStr (doc_description document)) p1;
          p3 = AList.update ''insert'' (VStr (fst (NormalizeSkillInsert (doc_insert document)))) p2;
          p4 = (if doc_arguments document = [] then AList.delete ''arguments'' p3
                else AList.update ''arguments''
                  (VMapList (map argument_properties (doc_arguments document))) p3)
      in if doc_tags document = [] then AList.delete ''tags'' p4
         else AList.update ''tags'' (VStrList (doc_tags document)) p4)"

text \<open>The body that is written: normalised, with a heading for a display name that has none.\<close>

definition marshal_body :: "skill_document \<Rightarrow> string" where
  "marshal_body document =
     (let body = normalize_body (doc_markdown_body document);
          displayName = trim_space (doc_display_name document)
      in if firstSkillDocumentHeading body = [] \<and> displayName \<noteq> []
            \<and> displayName \<noteq> doc_name document
         then (if body = [] then ''# '' @ displayName
               else ''# '' @ displayName @ [NL, NL] @ body)
         else body)"

definition marshal_text :: "string \<Rightarrow> string \<Rightarrow> string" where
  "marshal_text frontmatter body =
     ''---'' @ [NL] @ trim_space frontmatter @ [NL] @ ''---'' @ [NL]
     @ (if body = [] then []
        else [NL] @ body @ (if has_suffix body [NL] then [] else [NL]))"

definition MarshalSkillDocument :: "doc_env \<Rightarrow> skill_document \<Rightarrow> go_error + string" where
  "MarshalSkillDocument env document =
     and_then (map_err invalid_document (ValidateSkillDocument document)) (\<lambda>_.
     and_then (map_err (\<lambda>e. Wrapf ''encode SKILL.md frontmatter: %w'' [e])
                 (env_marshal env (document_properties document))) (\<lambda>frontmatter.
       let raw = marshal_text frontmatter (marshal_body document)
       in if exceeds_document_limit raw
          then Inl (Msg ''encoded SKILL.md exceeds %d bytes'')
          else Inr raw))"

end
