(* ===== verification/Document_Correct.thy ===== *)
theory Document_Correct
  imports Document
begin

text \<open>
  What \<open>document.go\<close> guarantees: the bounds of truncation, the shape of parsed arguments and
  tags, that a parsed document passes validation, what is rejected, and that writing a
  document and parsing it again gives its canonical form.
\<close>

section \<open>Truncation\<close>

lemma drop_to_valid_prefix: "prefix (drop_to_valid s) s"
proof (induction s rule: drop_to_valid.induct)
  case (1 s)
  then show ?case
    by (cases "valid_utf8 s")
      (auto simp: drop_to_valid.simps [of s] intro: prefix_order.trans prefixeq_butlast)
qed

lemma drop_to_valid_valid: "valid_utf8 (drop_to_valid s)"
proof (induction s rule: drop_to_valid.induct)
  case (1 s)
  then show ?case by (cases "valid_utf8 s") (auto simp: drop_to_valid.simps [of s])
qed

lemma drop_to_valid_longest:
  "prefix t s \<Longrightarrow> valid_utf8 t \<Longrightarrow> length t \<le> length (drop_to_valid s)"
proof (induction s rule: drop_to_valid.induct)
  case (1 s)
  show ?case
  proof (cases "valid_utf8 s")
    case True
    with 1(2) show ?thesis by (simp add: drop_to_valid.simps [of s] prefix_length_le)
  next
    case False
    with 1(2,3) have "prefix t (butlast s)"
      by (metis append_Nil2 append_butlast_last_id butlast.simps(1) prefix_snoc)
    with 1 False show ?thesis by (simp add: drop_to_valid.simps [of s])
  qed
qed

lemma truncate_le: "maximum \<noteq> 0 \<Longrightarrow> length (truncateValidUTF8 val maximum) \<le> maximum"
  using prefix_length_le [OF drop_to_valid_prefix [of "take maximum val"]]
  by (auto simp: truncateValidUTF8_def)

lemma truncate_prefix: "prefix (truncateValidUTF8 val maximum) val"
  using drop_to_valid_prefix [of "take maximum val"] take_is_prefix [of maximum val]
  by (auto simp: truncateValidUTF8_def intro: prefix_order.trans)

text \<open>
  C33. Truncation to a byte limit keeps a prefix of the text, stays within the limit, cuts
  between runes, and gives away at most three bytes: a valid text that is too long is cut to
  at least \<open>maximum - 3\<close> bytes.
\<close>

theorem truncateValidUTF8_bounds:
  assumes "valid_utf8 val" and "0 < maximum"
  shows "prefix (truncateValidUTF8 val maximum) val
    \<and> valid_utf8 (truncateValidUTF8 val maximum)
    \<and> length (truncateValidUTF8 val maximum) \<le> maximum
    \<and> min (length val) (maximum - 3) \<le> length (truncateValidUTF8 val maximum)"
proof (cases "length val \<le> maximum")
  case True
  with assms show ?thesis by (auto simp: truncateValidUTF8_def)
next
  case False
  then obtain m where m: "m \<le> 3" "m \<le> maximum" "valid_utf8 (take (maximum - m) val)"
    using valid_utf8_take_near [OF assms(1), of maximum] by auto
  have "prefix (take (maximum - m) val) (take maximum val)"
    by (metis min_def take_is_prefix take_take diff_le_self)
  from drop_to_valid_longest [OF this m(3)] False m(1)
  have "maximum - 3 \<le> length (drop_to_valid (take maximum val))" by simp
  with assms False truncate_le [of maximum val] truncate_prefix [of val maximum]
  show ?thesis by (auto simp: truncateValidUTF8_def drop_to_valid_valid)
qed

theorem truncateValidUTF8_bounds_witness:
  "length (truncateValidUTF8 (''abc'' @ [CHR 0xE2, CHR 0x82, CHR 0xAC]) 5) \<le> 5"
  using truncateValidUTF8_bounds [of "''abc'' @ [CHR 0xE2, CHR 0x82, CHR 0xAC]" 5]
  by (auto simp: valid_utf8.simps rune_size_def second_ok_def cont_byte_def byte_def)

section \<open>Arguments and tags\<close>

text \<open>What a valid argument list and a valid tag list are.\<close>

definition argument_ok :: "skill_argument \<Rightarrow> bool" where
  "argument_ok a \<longleftrightarrow> IsValidSkillArgumentName (arg_name a)
     \<and> length (arg_description a) \<le> maxSkillArgumentBytes
     \<and> length (arg_default a) \<le> maxSkillArgumentBytes"

definition tag_ok :: "string \<Rightarrow> bool" where
  "tag_ok t \<longleftrightarrow> t \<noteq> [] \<and> trim_space t = t \<and> length t \<le> maxSkillTagBytes"

lemma validate_arguments_iff:
  "validate_arguments seen args = Inr u \<longleftrightarrow>
     list_all argument_ok args \<and> distinct (map arg_name args) \<and> arg_name ` set args \<inter> seen = {}"
  by (induction seen args rule: validate_arguments.induct) (auto simp: argument_ok_def)

lemma validate_tags_iff:
  "validate_tags seen tags = Inr u \<longleftrightarrow> list_all tag_ok tags \<and> distinct tags \<and> set tags \<inter> seen = {}"
  by (induction seen tags rule: validate_tags.induct) (auto simp: tag_ok_def)

lemma optional_text_length:
  "optionalSkillArgumentText properties key index ws = (t, ws') \<Longrightarrow>
     length t \<le> maxSkillArgumentBytes"
  using truncate_le [of maxSkillArgumentBytes]
  by (auto simp: optionalSkillArgumentText_def maxSkillArgumentBytes_def
      split: gval.splits if_splits)

lemma argument_item_bounds:
  "argument_item index item ws = (Some a, ws') \<Longrightarrow>
     length (arg_description a) \<le> maxSkillArgumentBytes
     \<and> length (arg_default a) \<le> maxSkillArgumentBytes"
  by (auto simp: argument_item_def Let_def split_beta
      split: gval.splits option.splits
      intro: optional_text_length [OF surjective_pairing])

lemma arguments_loop_ok:
  assumes "arguments_loop index items out seen ws = (args, ws')"
    and "list_all argument_ok out" "distinct (map arg_name out)"
    and "seen = arg_name ` set out" "length out \<le> maxSkillArguments"
  shows "list_all argument_ok args \<and> distinct (map arg_name args)
    \<and> length args \<le> maxSkillArguments \<and> prefix out args"
  using assms
proof (induction index items out seen ws rule: arguments_loop.induct)
  case (2 index item items out seen ws)
  show ?case
  proof (cases "maxSkillArguments \<le> length out")
    case True
    with 2 show ?thesis by auto
  next
    case room: False
    obtain arg ws1 where item: "argument_item index item ws = (arg, ws1)" by fastforce
    show ?thesis
    proof (cases arg)
      case None
      with 2 item room show ?thesis by simp
    next
      case (Some a)
      let ?bad = "\<not> IsValidSkillArgumentName (arg_name a) \<or> arg_name a \<in> seen"
      show ?thesis
      proof (cases ?bad)
        case True
        with 2 item room Some show ?thesis by (auto split: if_splits)
      next
        case False
        have "argument_ok a"
          using False argument_item_bounds item Some by (auto simp: argument_ok_def)
        with "2.IH"(4) [OF room item [symmetric] Some] "2.prems" item room Some False
        have "list_all argument_ok args \<and> distinct (map arg_name args)
            \<and> length args \<le> maxSkillArguments \<and> prefix (out @ [a]) args"
          by auto
        then show ?thesis by (meson append_prefixD)
      qed
    qed
  qed
qed auto

text \<open>One turn of the tag loop: an item that is skipped, and one that is kept.\<close>

definition skipped_tag :: "gval \<Rightarrow> string set \<Rightarrow> bool" where
  "skipped_tag item seen \<longleftrightarrow>
     (case item of VStr raw \<Rightarrow> \<not> tag_ok (trim_space raw) \<or> trim_space raw \<in> seen | _ \<Rightarrow> True)"

lemma tags_loop_skip:
  assumes "length out < maxSkillTags" and "skipped_tag item seen"
  shows "\<exists>ws'. tags_loop index (item # items) out seen ws = tags_loop (Suc index) items out seen ws'"
  using assms by (cases item) (auto simp: skipped_tag_def tag_ok_def Let_def)

lemma tags_loop_keep:
  assumes "length out < maxSkillTags" and "tag_ok (trim_space raw)" and "trim_space raw \<notin> seen"
  shows "tags_loop index (VStr raw # items) out seen ws
    = tags_loop (Suc index) items (out @ [trim_space raw]) (insert (trim_space raw) seen) ws"
  using assms by (simp add: tag_ok_def Let_def)

lemma tag_item_cases:
  obtains (skip) "skipped_tag item seen"
  | (keep) raw where "item = VStr raw" "tag_ok (trim_space raw)" "trim_space raw \<notin> seen"
  by (cases item) (auto simp: skipped_tag_def)

lemma tags_loop_ok:
  assumes "tags_loop index items out seen ws = (tags, ws')"
    and "list_all tag_ok out" "distinct out" "seen = set out" "length out \<le> maxSkillTags"
  shows "list_all tag_ok tags \<and> distinct tags \<and> length tags \<le> maxSkillTags"
  using assms
proof (induction items arbitrary: index out seen ws)
  case (Cons item items)
  show ?case
  proof (cases "length out < maxSkillTags")
    case room: True
    show ?thesis
    proof (cases item seen rule: tag_item_cases)
      case skip
      with tags_loop_skip [OF room] Cons.prems(1) obtain ws1
        where "tags_loop (Suc index) items out seen ws1 = (tags, ws')" by metis
      then show ?thesis by (rule Cons.IH) (use Cons.prems in auto)
    next
      case (keep raw)
      with tags_loop_keep [OF room] Cons.prems(1)
      have "tags_loop (Suc index) items (out @ [trim_space raw]) (insert (trim_space raw) seen) ws
          = (tags, ws')" by metis
      then show ?thesis by (rule Cons.IH) (use Cons.prems keep room in auto)
    qed
  qed (use Cons.prems in auto)
qed auto

lemma parse_arguments_ok:
  assumes "parseSkillDocumentArguments raw = (args, ws)"
  shows "list_all argument_ok args \<and> distinct (map arg_name args) \<and> length args \<le> maxSkillArguments"
  using assms arguments_loop_ok [of 0 _ "[]" "{}" _ args ws]
  by (auto simp: parseSkillDocumentArguments_def split: gval.splits simp del: arguments_loop.simps)

lemma parse_tags_ok:
  assumes "parseSkillDocumentTags raw = (tags, ws)"
  shows "list_all tag_ok tags \<and> distinct tags \<and> length tags \<le> maxSkillTags"
  using assms tags_loop_ok [of 0 _ "[]" "{}" _ tags ws]
  by (auto simp: parseSkillDocumentTags_def split: gval.splits simp del: tags_loop.simps)

text \<open>The strings among the items of a list, in order.\<close>

fun strings_of :: "gval list \<Rightarrow> string list" where
  "strings_of [] = []"
| "strings_of (VStr s # vs) = s # strings_of vs"
| "strings_of (_ # vs) = strings_of vs"

definition keepable_tags :: "gval list \<Rightarrow> string list" where
  "keepable_tags items =
     filter (\<lambda>t. t \<noteq> [] \<and> length t \<le> maxSkillTagBytes) (map trim_space (strings_of items))"

lemma keepable_tags_simps [simp]:
  "keepable_tags [] = []"
  "keepable_tags (VStr s # items) =
     (if trim_space s \<noteq> [] \<and> length (trim_space s) \<le> maxSkillTagBytes
      then trim_space s # keepable_tags items else keepable_tags items)"
  "\<nexists>s. item = VStr s \<Longrightarrow> keepable_tags (item # items) = keepable_tags items"
  by (cases item; simp add: keepable_tags_def)+

lemma keepable_tags_skip:
  "skipped_tag item (set seen) \<Longrightarrow>
     dedup_from seen (keepable_tags (item # items)) = dedup_from seen (keepable_tags items)"
  by (cases item) (auto simp: skipped_tag_def tag_ok_def)

lemma keepable_tags_keep:
  "tag_ok (trim_space raw) \<Longrightarrow>
     keepable_tags (VStr raw # items) = trim_space raw # keepable_tags items"
  by (simp add: tag_ok_def)

lemma tags_loop_first:
  "length out \<le> maxSkillTags \<Longrightarrow>
     fst (tags_loop index items out (set out) ws) =
       out @ take (maxSkillTags - length out) (dedup_from out (keepable_tags items))"
proof (induction items arbitrary: index out ws)
  case (Cons item items)
  show ?case
  proof (cases "length out < maxSkillTags")
    case room: True
    show ?thesis
    proof (cases item "set out" rule: tag_item_cases)
      case skip
      with tags_loop_skip [OF room] Cons show ?thesis
        by (metis keepable_tags_skip)
    next
      case (keep raw)
      have "fst (tags_loop index (item # items) out (set out) ws)
          = fst (tags_loop (Suc index) items (out @ [trim_space raw]) (set (out @ [trim_space raw])) ws)"
        using tags_loop_keep [OF room keep(2,3)] keep(1) by simp
      also have "\<dots> = (out @ [trim_space raw]) @ take (maxSkillTags - length (out @ [trim_space raw]))
          (dedup_from (out @ [trim_space raw]) (keepable_tags items))"
        by (rule Cons.IH) (use room in simp)
      also have "dedup_from (out @ [trim_space raw]) (keepable_tags items)
          = dedup_from (trim_space raw # out) (keepable_tags items)"
        by (rule dedup_from_cong_set) auto
      finally show ?thesis
        using keep room by (simp add: keepable_tags_keep take_Cons' del: keepable_tags_simps)
    qed
  qed (use Cons.prems in auto)
qed simp

text \<open>
  The tags of a list are its strings, trimmed, without empty and over-long ones, each kept
  at its first occurrence, and cut to the first 64.
\<close>

theorem parseSkillDocumentTags_spec:
  "fst (parseSkillDocumentTags (VList items)) = take 64 (dedup (keepable_tags items))"
  using tags_loop_first [of "[]" 0 items "[]"]
  by (simp add: parseSkillDocumentTags_def maxSkillTags_def)

text \<open>
  A repeated tag is dropped without any warning: a list of the same valid tag twice gives
  the tag once and no warning, although duplicates of arguments are reported.
\<close>

theorem parseSkillDocumentTags_duplicate_silent:
  "parseSkillDocumentTags (VList [VStr ''a'', VStr ''a'']) = ([''a''], [])
   \<and> snd (parseSkillDocumentArguments (VList [VStr ''a'', VStr ''a'']))
       = [''duplicate argument ignored: a'']"
  by code_simp

section \<open>Splitting off the frontmatter\<close>

lemma read_line_spec:
  "read_line s = (line, rest, eof) \<Longrightarrow>
     s = line @ rest
     \<and> (if eof then rest = [] \<and> NL \<notin> set line else \<exists>l. line = l @ [NL] \<and> NL \<notin> set l)"
proof (induction s arbitrary: line)
  case (Cons c s)
  show ?case
  proof (cases "c = NL")
    case False
    with Cons obtain l where "read_line s = (l, rest, eof)" "line = c # l"
      by (auto split: prod.splits)
    with Cons.IH [of l] False show ?thesis
      by (fastforce split: if_splits intro: exI [of _ "c # _"])
  qed (use Cons.prems in auto)
qed auto

lemma read_line_append: "NL \<notin> set l \<Longrightarrow> read_line (l @ NL # s) = (l @ [NL], s, False)"
  by (induction l) auto

text \<open>A suffix that starts after a newline, or the empty end.\<close>

definition at_line_start :: "string \<Rightarrow> string \<Rightarrow> bool" where
  "at_line_start content body \<longleftrightarrow> body = [] \<or> (\<exists>pre. content = pre @ NL # body)"

lemma at_line_start_prepend: "at_line_start s body \<Longrightarrow> at_line_start (pre @ s) body"
  by (auto simp: at_line_start_def)

lemma scan_frontmatter_body: "scan_frontmatter acc s = Inr (fm, body) \<Longrightarrow> at_line_start s body"
proof (induction acc s rule: scan_frontmatter.induct)
  case (1 acc s)
  obtain line rest eof where rl: "read_line s = (line, rest, eof)" by (cases "read_line s")
  note spec = read_line_spec [OF rl]
  show ?case
  proof (cases "is_delimiter line")
    case True
    with 1(2) rl have "body = rest" by (simp add: scan_frontmatter.simps [of acc s])
    with spec show ?thesis by (cases eof) (auto simp: at_line_start_def)
  next
    case False
    with 1(2) rl have "\<not> eof" "scan_frontmatter (acc @ line) rest = Inr (fm, body)"
      by (auto simp: scan_frontmatter.simps [of acc s] split: if_splits)
    with 1(1) [OF rl [symmetric] refl False] have "at_line_start rest body" by simp
    with spec show ?thesis by (auto intro: at_line_start_prepend)
  qed
qed

lemma split_frontmatter_body:
  assumes "splitSkillDocumentFrontmatter content = Inr (fm, body)"
  shows "at_line_start content body"
proof -
  obtain line rest eof where rl: "read_line content = (line, rest, eof)" by (cases "read_line content")
  with assms have "scan_frontmatter [] rest = Inr (fm, body)"
    by (auto simp: splitSkillDocumentFrontmatter_def split: if_splits)
  then have "at_line_start rest body" by (rule scan_frontmatter_body)
  with read_line_spec [OF rl] show ?thesis by (auto intro: at_line_start_prepend)
qed

lemma at_line_start_valid:
  "at_line_start content body \<Longrightarrow> valid_utf8 content \<Longrightarrow> valid_utf8 body"
  by (auto simp: at_line_start_def valid_utf8_split byte_def)

lemma at_line_start_set: "at_line_start content body \<Longrightarrow> set body \<subseteq> set content"
  by (auto simp: at_line_start_def)

section \<open>Bodies\<close>

lemma valid_utf8_drop_ascii: "is_ascii m \<Longrightarrow> valid_utf8 (m @ s) = valid_utf8 s"
  by (simp add: valid_utf8_append valid_utf8_is_ascii)

lemma ascii_line_ends [simp]: "is_ascii [NL]" "is_ascii [CR]" "is_ascii [CR, NL]"
  by (simp_all add: byte_def)

lemma trim_left_nl_valid: "valid_utf8 s \<Longrightarrow> valid_utf8 (trim_left_set s [NL])"
  by (induction s) (auto simp: trim_left_set_def byte_def)

lemma normalize_body_valid: "valid_utf8 body \<Longrightarrow> valid_utf8 (normalize_body body)"
  by (simp add: normalize_body_def trim_left_nl_valid valid_utf8_replace_all
      del: is_ascii_simps)

lemma normalize_body_set: "set (normalize_body body) \<subseteq> insert NL (set body)"
proof -
  have "set (normalize_body body) \<subseteq> set (replace_all [CR] [NL] (replace_all [CR, NL] [NL] body))"
    unfolding normalize_body_def by (rule set_mono_suffix [OF trim_left_set_suffix])
  also have "\<dots> \<subseteq> insert NL (set (replace_all [CR, NL] [NL] body))"
    using set_replace_all [of "[CR]" "[NL]"] by simp
  also have "\<dots> \<subseteq> insert NL (set body)"
    using set_replace_all [of "[CR, NL]" "[NL]"] by auto
  finally show ?thesis .
qed



lemma normalize_body_id:
  "CR \<notin> set body \<Longrightarrow> body = [] \<or> hd body \<noteq> NL \<Longrightarrow> normalize_body body = body"
  by (auto simp: normalize_body_def replace_all_absent trim_left_set_id)

section \<open>Headings\<close>

lemma first_heading_trim: "trim_space (first_heading ls) = first_heading ls"
  by (induction ls) (auto split: option.splits)

lemma heading_trim [simp]: "trim_space (firstSkillDocumentHeading b) = firstSkillDocumentHeading b"
  by (simp add: firstSkillDocumentHeading_def first_heading_trim)

section \<open>A parsed document is valid\<close>

lemma ValidateSkillDocument_iff:
  "ValidateSkillDocument d = Inr u \<longleftrightarrow>
     validateSkillDocumentName (doc_name d) = Inr ()
     \<and> validateSkillDocumentDescription (doc_description d) = Inr ()
     \<and> trim_space (doc_display_name d) = doc_display_name d
     \<and> length (doc_display_name d) \<le> maxSkillDisplayNameBytes
     \<and> snd (NormalizeSkillInsert (doc_insert d))
     \<and> length (doc_arguments d) \<le> maxSkillArguments
     \<and> list_all argument_ok (doc_arguments d) \<and> distinct (map arg_name (doc_arguments d))
     \<and> length (doc_tags d) \<le> maxSkillTags \<and> list_all tag_ok (doc_tags d) \<and> distinct (doc_tags d)
     \<and> valid_utf8 (doc_markdown_body d) \<and> NUL \<notin> set (doc_markdown_body d)"
  by (auto simp: ValidateSkillDocument_def validate_arguments_iff validate_tags_iff
      validate_display_name_def)

lemma validate_name_trimmed: "validateSkillDocumentName n = Inr () \<Longrightarrow> trim_space n = n \<and> n \<noteq> []"
  by (auto simp: validateSkillDocumentName_def split: if_splits)

lemma parse_insert_ok: "snd (NormalizeSkillInsert (fst (parseSkillDocumentInsert env raw)))"
proof (cases raw)
  case (VStr v)
  then show ?thesis
    using NormalizeSkillInsert_idem [of v]
    by (cases "NormalizeSkillInsert v") (simp add: parseSkillDocumentInsert_def)
qed (simp_all add: parseSkillDocumentInsert_def)

text \<open>What a successful parse goes through.\<close>

lemma ParseSkillDocument_Inr:
  assumes "ParseSkillDocument env content expected = Inr (d, ws)"
  obtains content' w fm body properties where
    "\<not> exceeds_document_limit content" "valid_utf8 content" "NUL \<notin> set content"
    "(content', w) = (case cut_prefix content utf8_bom of
        Some after \<Rightarrow> (after, [''UTF-8 BOM was removed'']) | None \<Rightarrow> (content, []))"
    "splitSkillDocumentFrontmatter content' = Inr (fm, body)"
    "env_unmarshal env fm = Inr properties"
    "document_of_properties env properties body expected w = Inr (d, ws)"
  using assms
  by (auto simp: ParseSkillDocument_def Let_def split: prod.splits option.splits)

lemma required_string_trimmed:
  "requiredSkillDocumentString properties key = Inr (v, ws) \<Longrightarrow> trim_space v = v"
  by (auto simp: requiredSkillDocumentString_def Let_def split: option.splits gval.splits if_splits)

lemma document_of_properties_Inr:
  assumes "document_of_properties env properties body expected w = Inr (d, ws)"
  shows "validateSkillDocumentName (doc_name d) = Inr ()
    \<and> validateSkillDocumentDescription (doc_description d) = Inr ()
    \<and> (trim_space expected = [] \<or> doc_name d = trim_space expected)
    \<and> doc_insert d = fst (parseSkillDocumentInsert env (lookup properties ''insert''))
    \<and> doc_arguments d = fst (parseSkillDocumentArguments (lookup properties ''arguments''))
    \<and> doc_tags d = fst (parseSkillDocumentTags (lookup properties ''tags''))
    \<and> doc_markdown_body d = normalize_body body
    \<and> doc_display_name d = fst (document_display_name (doc_name d) (normalize_body body))
    \<and> doc_raw_frontmatter d = properties"
  using assms
  by (auto simp: document_of_properties_def Let_def split_beta)

lemma bom_suffix:
  assumes "(content', w) = (case cut_prefix content utf8_bom of
      Some after \<Rightarrow> (after, [''UTF-8 BOM was removed'']) | None \<Rightarrow> (content, []))"
    and "valid_utf8 content"
  shows "valid_utf8 content' \<and> set content' \<subseteq> set content"
proof (cases "prefix utf8_bom content")
  case True
  then obtain t where t: "content = utf8_bom @ t" by (auto simp: prefix_def)
  have "valid_utf8 utf8_bom" by code_simp
  with t assms show ?thesis by (auto simp: cut_prefix_def valid_utf8_append)
qed (use assms in \<open>auto simp: cut_prefix_def\<close>)

lemma parsed_body_ok:
  assumes "ParseSkillDocument env content expected = Inr (d, ws)"
  shows "valid_utf8 (doc_markdown_body d) \<and> NUL \<notin> set (doc_markdown_body d)"
  using assms
proof (rule ParseSkillDocument_Inr)
  fix content' w fm body properties
  assume ok: "valid_utf8 content" "NUL \<notin> set content"
    and cut: "(content', w) = (case cut_prefix content utf8_bom of
        Some after \<Rightarrow> (after, [''UTF-8 BOM was removed'']) | None \<Rightarrow> (content, []))"
    and split: "splitSkillDocumentFrontmatter content' = Inr (fm, body)"
    and doc: "document_of_properties env properties body expected w = Inr (d, ws)"
  from bom_suffix [OF cut ok(1)] split_frontmatter_body [OF split] ok(2)
  have "valid_utf8 body" "NUL \<notin> set body"
    using at_line_start_valid at_line_start_set by blast+
  with document_of_properties_Inr [OF doc] normalize_body_valid normalize_body_set [of body]
  show ?thesis by auto
qed

text \<open>
  C22. A document that parses is valid: provided its first heading is within the 256 bytes of a
  display name, \<open>ValidateSkillDocument\<close> accepts what \<open>ParseSkillDocument\<close> returns, so it can
  be rendered and written back.
\<close>

theorem ParseSkillDocument_valid:
  assumes "ParseSkillDocument env content expected = Inr (d, ws)"
    and "length (firstSkillDocumentHeading (doc_markdown_body d)) \<le> maxSkillDisplayNameBytes"
  shows "ValidateSkillDocument d = Inr ()"
  using assms(1)
proof (rule ParseSkillDocument_Inr)
  fix content' w fm body properties
  assume doc: "document_of_properties env properties body expected w = Inr (d, ws)"
  note d = document_of_properties_Inr [OF doc]
  have args: "list_all argument_ok (doc_arguments d) \<and> distinct (map arg_name (doc_arguments d))
      \<and> length (doc_arguments d) \<le> maxSkillArguments"
    using d parse_arguments_ok [OF surjective_pairing] by simp
  have tags: "list_all tag_ok (doc_tags d) \<and> distinct (doc_tags d)
      \<and> length (doc_tags d) \<le> maxSkillTags"
    using d parse_tags_ok [OF surjective_pairing] by simp
  have "length (doc_name d) \<le> maxSkillDisplayNameBytes"
    using d by (auto simp: validateSkillDocumentName_def maxSkillNameBytes_def
        maxSkillDisplayNameBytes_def split: if_splits)
  then have "trim_space (doc_display_name d) = doc_display_name d
      \<and> length (doc_display_name d) \<le> maxSkillDisplayNameBytes"
    using d assms(2) validate_name_trimmed by (auto simp: document_display_name_def Let_def)
  with d args tags parsed_body_ok [OF assms(1)] show ?thesis
    by (simp add: ValidateSkillDocument_iff parse_insert_ok)
qed

text \<open>A concrete environment: one fixed property list, encoded as one line.\<close>

definition demo_env :: "frontmatter \<Rightarrow> doc_env" where
  "demo_env properties =
     \<lparr>env_unmarshal = (\<lambda>s. Inr properties),
      env_marshal = (\<lambda>p. Inr (''name: demo'' @ [NL])),
      env_quote = (\<lambda>s. s)\<rparr>"

definition demo_properties :: frontmatter where
  "demo_properties = [(''name'', VStr ''demo''), (''description'', VStr ''d'')]"

definition demo_content :: string where
  "demo_content = ''---'' @ [NL] @ ''name: demo'' @ [NL] @ ''---'' @ [NL] @ ''# Demo'' @ [NL] @ ''Hi'' @ [NL]"

theorem ParseSkillDocument_valid_witness:
  "\<exists>d ws. ParseSkillDocument (demo_env demo_properties) demo_content [] = Inr (d, ws)
     \<and> ValidateSkillDocument d = Inr ()"
proof -
  define r where "r = projr (ParseSkillDocument (demo_env demo_properties) demo_content [])"
  have r: "ParseSkillDocument (demo_env demo_properties) demo_content [] = Inr (fst r, snd r)"
    unfolding r_def by code_simp
  have "length (firstSkillDocumentHeading (doc_markdown_body (fst r))) \<le> maxSkillDisplayNameBytes"
    unfolding r_def by code_simp
  from ParseSkillDocument_valid [OF r this] r show ?thesis by blast
qed

text \<open>
  C34. What a successful parse rules out: content over the size limit, invalid UTF-8, NUL
  bytes, a name that is not lowercase, hyphenated and at most 64 bytes long or that differs
  from the expected one, a blank or over-long description.
\<close>

theorem ParseSkillDocument_rejects:
  assumes "ParseSkillDocument env content expected = Inr (d, ws)"
  shows "length content \<le> 2097152 \<and> valid_utf8 content \<and> NUL \<notin> set content
    \<and> skillDocumentNamePattern (doc_name d) \<and> length (doc_name d) \<le> 64
    \<and> \<not> contains (doc_name d) ''--''
    \<and> (trim_space expected = [] \<or> doc_name d = trim_space expected)
    \<and> doc_description d \<noteq> [] \<and> trim_space (doc_description d) = doc_description d
    \<and> length (doc_description d) \<le> 1024"
  using assms
proof (rule ParseSkillDocument_Inr)
  fix content' w fm body properties
  assume c: "\<not> exceeds_document_limit content" "valid_utf8 content" "NUL \<notin> set content"
    and doc: "document_of_properties env properties body expected w = Inr (d, ws)"
  from document_of_properties_Inr [OF doc] c show ?thesis
    by (auto simp: exceeds_document_limit_def MaxSkillDocumentBytes_def validateSkillDocumentName_def
        validateSkillDocumentDescription_def maxSkillNameBytes_def maxSkillDescriptionBytes_def
        split: if_splits)
qed

theorem ParseSkillDocument_rejects_witness:
  "valid_utf8 demo_content \<and> NUL \<notin> set demo_content"
proof -
  have "ParseSkillDocument (demo_env demo_properties) demo_content ''demo'' =
      Inr (fst (projr (ParseSkillDocument (demo_env demo_properties) demo_content ''demo'')),
           snd (projr (ParseSkillDocument (demo_env demo_properties) demo_content ''demo'')))"
    by code_simp
  from ParseSkillDocument_rejects [OF this] show ?thesis by blast
qed

section \<open>Writing and parsing again\<close>






text \<open>Scanning frontmatter whose lines are no delimiters.\<close>

lemma frontmatter_line_nl: "frontmatter_line (l @ [NL]) = frontmatter_line l"
  by (simp add: frontmatter_line_def trim_right_set_def)

lemma is_delimiter_nl: "is_delimiter (l @ [NL]) = is_delimiter l"
  by (simp add: is_delimiter_def frontmatter_line_nl)

lemma scan_frontmatter_line:
  "NL \<notin> set l \<Longrightarrow> scan_frontmatter acc (l @ NL # s) =
     (if is_delimiter l then Inr (acc, s) else scan_frontmatter (acc @ l @ [NL]) s)"
  by (simp add: scan_frontmatter.simps [of acc "l @ NL # s"] read_line_append is_delimiter_nl)

lemma split_nl_first:
  assumes "NL \<in> set t" obtains l u where "t = l @ NL # u" "NL \<notin> set l" "split_nl t = l # split_nl u"
proof -
  from assms obtain l u where "t = l @ NL # u" "NL \<notin> set l" by (metis split_list_first)
  with that split_nl_append show thesis by blast
qed

lemma scan_frontmatter_lines:
  "\<forall>l \<in> set (split_nl t). \<not> is_delimiter l \<Longrightarrow>
     scan_frontmatter acc (t @ NL # s) = scan_frontmatter (acc @ t @ [NL]) s"
proof (induction "length t" arbitrary: t acc rule: less_induct)
  case less
  show ?case
  proof (cases "NL \<in> set t")
    case True
    then obtain l u where t: "t = l @ NL # u" "NL \<notin> set l" "split_nl t = l # split_nl u"
      by (rule split_nl_first)
    with less.prems have "scan_frontmatter acc (t @ NL # s)
        = scan_frontmatter (acc @ l @ [NL]) (u @ NL # s)"
      using scan_frontmatter_line [of l acc "u @ NL # s"] by simp
    also have "\<dots> = scan_frontmatter ((acc @ l @ [NL]) @ u @ [NL]) s"
      by (rule less.hyps) (use less.prems t in simp_all)
    finally show ?thesis using t(1) by simp
  next
    case False
    with less.prems show ?thesis
      using scan_frontmatter_line [of t acc s] by (simp add: split_nl_single)
  qed
qed

lemma split_frontmatter_marshal:
  assumes "\<forall>l \<in> set (split_nl t). \<not> is_delimiter l"
  shows "splitSkillDocumentFrontmatter (''---'' @ [NL] @ t @ [NL] @ ''---'' @ [NL] @ s)
    = Inr (t @ [NL], s)"
proof -
  have dash: "frontmatter_line ''---'' = ''---''" by code_simp
  then have d: "is_delimiter ''---''" by (simp add: is_delimiter_def)
  have "read_line (''---'' @ NL # t @ NL # ''---'' @ NL # s) = (''---'' @ [NL], t @ NL # ''---'' @ NL # s, False)"
    by (rule read_line_append) simp
  moreover have "scan_frontmatter [] (t @ NL # ''---'' @ NL # s) = Inr (t @ [NL], s)"
    using scan_frontmatter_lines [OF assms, of "[]" "''---'' @ NL # s"]
      scan_frontmatter_line [of "''---''" "t @ [NL]" s] d by simp
  moreover have "frontmatter_line (''---'' @ [NL]) = ''---''"
    using dash by (simp only: frontmatter_line_nl)
  ultimately show ?thesis by (simp add: splitSkillDocumentFrontmatter_def)
qed

section \<open>Long headings\<close>

definition long_heading :: string where
  "long_heading = replicate 255 (CHR ''a'') @ '' b''"

lemma set_long_heading: "set long_heading = {CHR ''a'', CHR '' '', CHR ''b''}"
  by (auto simp: long_heading_def)

lemma long_heading_ascii: "is_ascii long_heading"
  by (auto simp: is_ascii_def set_long_heading byte_def)

lemma long_heading_trim:
  "trim_space long_heading = long_heading" "trim_space (''# '' @ long_heading) = ''# '' @ long_heading"
proof -
  have "hd long_heading = CHR ''a''" "last long_heading = CHR ''b''" "long_heading \<noteq> []"
    by (simp_all add: long_heading_def hd_append)
  then show "trim_space long_heading = long_heading"
    "trim_space (''# '' @ long_heading) = ''# '' @ long_heading"
    by (simp_all add: trim_space_solid solid_def byte_def)
qed

lemma long_heading_display:
  "document_display_name n (''# '' @ long_heading) =
     (replicate 255 (CHR ''a'') @ '' '', [''display name was truncated to '' @ show_nat 256 @ '' bytes''])"
proof -
  have "NL \<notin> set (''# '' @ long_heading)" by (simp add: set_long_heading)
  then have "split_nl (''# '' @ long_heading) = [''# '' @ long_heading]" by (rule split_nl_single)
  then have h: "firstSkillDocumentHeading (''# '' @ long_heading) = long_heading"
    using long_heading_trim by (simp add: firstSkillDocumentHeading_def cut_prefix_def)
  have t: "take 256 long_heading = replicate 255 (CHR ''a'') @ '' ''"
    by (simp add: long_heading_def)
  have "is_ascii (take 256 long_heading)"
    using long_heading_ascii by (auto simp: is_ascii_def dest: in_set_takeD)
  then have "drop_to_valid (take 256 long_heading) = take 256 long_heading"
    by (subst drop_to_valid.simps) (simp add: valid_utf8_is_ascii)
  moreover have "length long_heading = 257" "long_heading \<noteq> []" by (simp_all add: long_heading_def)
  ultimately show ?thesis
    using h t by (simp add: document_display_name_def maxSkillDisplayNameBytes_def truncateValidUTF8_def)
qed

lemma trailing_space_not_trimmed: "trim_space (s @ '' '') \<noteq> s @ '' ''"
proof -
  have "[CHR '' ''] \<in> set (map rev ws_runes)" by (simp add: ws_runes_def)
  then have "starts_with (map rev ws_runes) (rev (s @ '' ''))"
    unfolding starts_with_def by (intro bexI [of _ "[CHR '' '']"]) simp_all
  then show ?thesis using trim_space_id_iff by blast
qed

text \<open>
  Without that proviso validity fails: a heading of 255 letters, a space and another
  letter is truncated right after the space, so the display name of the parsed document ends
  in white space and the document is rejected when it is rendered or written.
\<close>

theorem ParseSkillDocument_long_heading:
  "case ParseSkillDocument (demo_env demo_properties)
      (''---'' @ [NL] @ ''name: demo'' @ [NL] @ ''---'' @ [NL] @ ''# '' @ long_heading) [] of
     Inl e \<Rightarrow> False
   | Inr (d, ws) \<Rightarrow> ValidateSkillDocument d = Inl (Msg ''displayName has leading or trailing whitespace'')"
proof -
  let ?content = "''---'' @ [NL] @ ''name: demo'' @ [NL] @ ''---'' @ [NL] @ ''# '' @ long_heading"
  have split: "splitSkillDocumentFrontmatter ?content = Inr (''name: demo'' @ [NL], ''# '' @ long_heading)"
    by (rule split_frontmatter_marshal) code_simp
  have guards: "\<not> exceeds_document_limit ?content" "is_ascii ?content" "NUL \<notin> set ?content"
    using long_heading_ascii
    by (simp_all add: exceeds_document_limit_def MaxSkillDocumentBytes_def long_heading_def
        byte_def is_ascii_def)
  have bom: "cut_prefix ?content utf8_bom = None"
    by (simp add: cut_prefix_def utf8_bom_def)
  have body: "normalize_body (''# '' @ long_heading) = ''# '' @ long_heading"
    by (rule normalize_body_id) (simp_all add: set_long_heading)
  have pre: "requiredSkillDocumentString demo_properties propKeyName = Inr (''demo'', [])"
    "validateSkillDocumentName ''demo'' = Inr ()"
    "requiredSkillDocumentString demo_properties ''description'' = Inr (''d'', [])"
    "validateSkillDocumentDescription ''d'' = Inr ()"
    by code_simp+
  have ParseSkillDocument: "\<exists>d ws. ParseSkillDocument (demo_env demo_properties) ?content [] = Inr (d, ws)
      \<and> doc_name d = ''demo'' \<and> doc_description d = ''d''
      \<and> doc_display_name d = replicate 255 (CHR ''a'') @ '' ''"
    using guards bom split
    by (simp add: ParseSkillDocument_def valid_utf8_is_ascii demo_env_def document_of_properties_def
        pre body long_heading_display Let_def split_beta del: append_Cons append.simps)
  then obtain d ws where d: "ParseSkillDocument (demo_env demo_properties) ?content [] = Inr (d, ws)"
    "doc_name d = ''demo''" "doc_description d = ''d''"
    "doc_display_name d = replicate 255 (CHR ''a'') @ '' ''" by blast
  then have "ValidateSkillDocument d = Inl (Msg ''displayName has leading or trailing whitespace'')"
    using trailing_space_not_trimmed
    by (simp add: ValidateSkillDocument_def pre validate_display_name_def)
  with d(1) show ?thesis by (simp only: sum.case prod.case)
qed

section \<open>The round trip\<close>




lemma ws_runes_tail_high: "p \<in> set ws_runes \<Longrightarrow> c \<in> set (butlast p) \<Longrightarrow> 128 \<le> byte c"
  by (auto simp: ws_runes_def byte_def)

text \<open>An ASCII byte before a trimmed text keeps its end trimmed.\<close>

lemma not_ends_with_append:
  assumes "\<not> starts_with (map rev ws_runes) (rev d)" and "d \<noteq> []" and "byte c < 128"
  shows "\<not> starts_with (map rev ws_runes) (rev d @ c # s)"
proof
  assume "starts_with (map rev ws_runes) (rev d @ c # s)"
  then obtain p where p: "p \<in> set ws_runes" "p \<noteq> []" "prefix (rev p) (rev d @ c # s)"
    by (auto simp: starts_with_def)
  from assms(1) p(1,2) have "\<not> prefix (rev p) (rev d)" by (auto simp: starts_with_def)
  with p(3) obtain q where q: "rev p = rev d @ q" "q \<noteq> []" "prefix q (c # s)"
    by (auto simp: prefix_append)
  then have "p = rev q @ d" by (metis rev_append rev_rev_ident)
  moreover from q have "hd q = c" by (cases q) auto
  ultimately have "c \<in> set (butlast p)" using assms(2) q(2) by (auto simp: butlast_append)
  with ws_runes_tail_high [OF p(1)] assms(3) show False by force
qed

lemma heading_line_trim:
  assumes "trim_space d = d" and "d \<noteq> []"
  shows "trim_space (''# '' @ d) = ''# '' @ d"
proof -
  from assms(1) have "\<not> starts_with (map rev ws_runes) (rev d)" by (simp add: trim_space_id_iff)
  then have "\<not> starts_with (map rev ws_runes) (rev d @ CHR '' '' # ''#'')"
    by (rule not_ends_with_append) (use assms(2) in \<open>simp_all add: byte_def\<close>)
  moreover have "\<not> starts_with ws_runes (''# '' @ d)"
    using not_starts_with_solid [of "CHR ''#''"] by (simp add: solid_def byte_def)
  ultimately show ?thesis by (simp add: trim_space_id_iff)
qed

lemma heading_inserted:
  assumes "trim_space d = d" and "d \<noteq> []" and "NL \<notin> set d"
  shows "firstSkillDocumentHeading (''# '' @ d @ NL # s) = d"
    and "firstSkillDocumentHeading (''# '' @ d) = d"
proof -
  have "NL \<notin> set (''# '' @ d)" using assms(3) by simp
  then have "split_nl ((''# '' @ d) @ NL # s) = (''# '' @ d) # split_nl s"
    and "split_nl (''# '' @ d) = [''# '' @ d]"
    by (rule split_nl_append, rule split_nl_single)
  then show "firstSkillDocumentHeading (''# '' @ d @ NL # s) = d"
    and "firstSkillDocumentHeading (''# '' @ d) = d"
    using heading_line_trim [OF assms(1,2)] assms(1)
    by (simp_all add: firstSkillDocumentHeading_def cut_prefix_def)
qed















text \<open>The expected name only decides whether the parse succeeds.\<close>

lemma properties_expected:
  assumes "document_of_properties env properties body [] w = Inr (d, ws)"
    and "trim_space expected \<in> {[], doc_name d}"
  shows "document_of_properties env properties body expected w = Inr (d, ws)"
proof -
  from assms(1) obtain name nws where name: "requiredSkillDocumentString properties propKeyName = Inr (name, nws)"
    by (auto simp: document_of_properties_def)
  from assms(1) name have "doc_name d = name"
    by (auto simp: document_of_properties_def Let_def split_beta)
  with assms(2) have "guard_err (trim_space expected \<noteq> [] \<and> name \<noteq> trim_space expected) e = Inr ()" for e :: go_error
    by auto
  with assms(1) name show ?thesis by (simp only: document_of_properties_def and_then_Inr prod.case) simp
qed

lemma parse_expected:
  assumes "ParseSkillDocument env content [] = Inr (d, ws)" and "trim_space expected \<in> {[], doc_name d}"
  shows "ParseSkillDocument env content expected = Inr (d, ws)"
  using assms(1)
proof (rule ParseSkillDocument_Inr)
  fix content' w fm body properties
  assume ok: "\<not> exceeds_document_limit content" "valid_utf8 content" "NUL \<notin> set content"
    and cut: "(content', w) = (case cut_prefix content utf8_bom of
        Some after \<Rightarrow> (after, [''UTF-8 BOM was removed'']) | None \<Rightarrow> (content, []))"
    and fm: "splitSkillDocumentFrontmatter content' = Inr (fm, body)" "env_unmarshal env fm = Inr properties"
    and doc: "document_of_properties env properties body [] w = Inr (d, ws)"
  from properties_expected [OF doc assms(2)] ok fm cut [symmetric] show ?thesis
    by (simp add: ParseSkillDocument_def)
qed



definition demo_document :: skill_document where
  "demo_document =
     \<lparr>doc_name = ''demo'', doc_display_name = ''Demo'', doc_description = ''d'', doc_insert = [],
      doc_arguments = [], doc_tags = [''x''], doc_markdown_body = ''Hi'', doc_raw_frontmatter = []\<rparr>"

definition demo_written :: frontmatter where
  "demo_written = [(''name'', VStr ''demo''), (''description'', VStr ''d''),
     (''insert'', VStr ''instructions''), (''tags'', VList [VStr ''x''])]"




text \<open>
  The proviso on the display name is needed: validation accepts a display name with a NUL
  byte, the writer puts it into the heading, and the parser rejects the written bytes.
\<close>

theorem MarshalSkillDocument_nul_display_name:
  "case MarshalSkillDocument (demo_env demo_written)
      (demo_document\<lparr>doc_display_name := [CHR ''a'', NUL, CHR ''b'']\<rparr>) of
     Inl e \<Rightarrow> False
   | Inr raw \<Rightarrow> ParseSkillDocument (demo_env demo_written) raw []
       = Inl (Msg ''SKILL.md contains a NUL byte'')"
  by code_simp

end
