(* ===== verification/File_Paths.thy ===== *)
theory File_Paths
  imports Spec_Types
begin

text \<open>
  The part of Go's \<open>path/filepath\<close> that the file-system provider uses, for systems with slash
  separators (where \<open>FromSlash\<close> and \<open>ToSlash\<close> are the identity and no path has a volume name):
  lexical cleaning, joining, base names, relative paths, and the walk over a directory tree.
\<close>

section \<open>Cleaning\<close>

abbreviation SLASH :: char where "SLASH \<equiv> CHR ''/''"

fun components :: "string \<Rightarrow> string list" where
  "components [] = [[]]"
| "components (c # s) =
     (if c = SLASH then [] # components s
      else (case components s of [] \<Rightarrow> [[c]] | w # ws \<Rightarrow> (c # w) # ws))"

fun join_slash :: "string list \<Rightarrow> string" where
  "join_slash [] = []"
| "join_slash [w] = w"
| "join_slash (w # v # ws) = w @ SLASH # join_slash (v # ws)"

text \<open>One path element on the stack of kept elements, innermost first.\<close>

definition clean_step :: "bool \<Rightarrow> string list \<Rightarrow> string \<Rightarrow> string list" where
  "clean_step rooted st w =
     (if w = [] \<or> w = ''.'' then st
      else if w = ''..'' then
        (case st of
           [] \<Rightarrow> if rooted then [] else [''..'']
         | v # vs \<Rightarrow> if v = ''..'' then ''..'' # st else vs)
      else w # st)"

definition clean_words :: "bool \<Rightarrow> string list \<Rightarrow> string list" where
  "clean_words rooted ws = rev (foldl (clean_step rooted) [] ws)"

definition IsAbs :: "string \<Rightarrow> bool" where
  "IsAbs p \<longleftrightarrow> p \<noteq> [] \<and> hd p = SLASH"

definition Clean :: "string \<Rightarrow> string" where
  "Clean p =
     (let body = join_slash (clean_words (IsAbs p) (components p))
      in if IsAbs p then SLASH # body else if body = [] then ''.'' else body)"

definition VolumeName :: "string \<Rightarrow> string" where
  "VolumeName p = []"

text \<open>\<open>filepath.Join\<close> of two elements; empty ones are ignored.\<close>

definition Join :: "string \<Rightarrow> string \<Rightarrow> string" where
  "Join a b =
     (if a = [] \<and> b = [] then [] else if a = [] then Clean b else if b = [] then Clean a
      else Clean (a @ SLASH # b))"

definition Base :: "string \<Rightarrow> string" where
  "Base p =
     (if p = [] then ''.''
      else let q = trim_right_set p [SLASH] in
        if q = [] then [SLASH] else last (components q))"

text \<open>\<open>filepath.Abs\<close>; \<open>cwd\<close> is what \<open>os.Getwd\<close> returns.\<close>

definition Abs :: "go_error + string \<Rightarrow> string \<Rightarrow> go_error + string" where
  "Abs cwd p = (if IsAbs p then Inr (Clean p) else and_then cwd (\<lambda>wd. Inr (Join wd p)))"

text \<open>\<open>filepath.Rel\<close>: up from the base to the common part, then down to the target.\<close>

fun strip_common :: "string list \<Rightarrow> string list \<Rightarrow> string list \<times> string list" where
  "strip_common (a # as) (b # bs) = (if a = b then strip_common as bs else (a # as, b # bs))"
| "strip_common as bs = (as, bs)"

definition path_words :: "string \<Rightarrow> string list" where
  "path_words p = filter (\<lambda>w. w \<noteq> []) (components p)"

definition Rel :: "string \<Rightarrow> string \<Rightarrow> go_error + string" where
  "Rel basepath targpath =
     (let base = Clean basepath; targ = Clean targpath in
      if targ = base then Inr ''.''
      else let base1 = (if base = ''.'' then [] else base) in
        if IsAbs base1 \<noteq> IsAbs targ then Inl (Msg ''Rel: can't make relative'')
        else (case strip_common (path_words base1) (path_words targ) of (up, down) \<Rightarrow>
          if up \<noteq> [] \<and> hd up = ''..'' then Inl (Msg ''Rel: can't make relative'')
          else Inr (join_slash (map (\<lambda>_. ''..'') up @ down))))"

section \<open>Cleaning is idempotent\<close>

lemma components_not_Nil [simp]: "components s \<noteq> []"
  by (cases s) (auto split: list.splits)

lemma components_plain: "SLASH \<notin> set w \<Longrightarrow> components w = [w]"
  by (induction w) auto

lemma components_append: "SLASH \<notin> set w \<Longrightarrow> components (w @ SLASH # s) = w # components s"
  by (induction w) auto

lemma components_no_slash: "w \<in> set (components s) \<Longrightarrow> SLASH \<notin> set w"
proof (induction s arbitrary: w)
  case (Cons c s)
  obtain v vs where v: "components s = v # vs" by (cases "components s") auto
  with Cons.prems Cons.IH [of v] Cons.IH [of w] show ?case by (auto split: if_splits)
qed simp

lemma components_join:
  "ws \<noteq> [] \<Longrightarrow> \<forall>w \<in> set ws. SLASH \<notin> set w \<Longrightarrow> components (join_slash ws) = ws"
  by (induction ws rule: join_slash.induct) (simp_all add: components_plain components_append)

definition clean_word :: "string \<Rightarrow> bool" where
  "clean_word w \<longleftrightarrow> w \<noteq> [] \<and> w \<noteq> ''.'' \<and> SLASH \<notin> set w"

text \<open>Clean paths: names only, after leading parent steps if the path is relative.\<close>

definition clean_form :: "bool \<Rightarrow> string list \<Rightarrow> bool" where
  "clean_form rooted ws \<longleftrightarrow> list_all clean_word ws
     \<and> (\<exists>n rest. ws = replicate n ''..'' @ rest \<and> ''..'' \<notin> set rest \<and> (rooted \<longrightarrow> n = 0))"

lemma clean_form_Nil [simp]: "clean_form r []"
  by (simp add: clean_form_def)

lemma clean_step_up: "\<not> r \<Longrightarrow> clean_step r (replicate n ''..'') ''..'' = replicate (Suc n) ''..''"
  by (cases n) (simp_all add: clean_step_def)

lemma clean_form_ups: "\<not> r \<Longrightarrow> clean_form r (replicate n ''..'')"
proof -
  have "list_all clean_word (replicate n ''..'')" by (simp add: list_all_iff clean_word_def)
  then show "\<not> r \<Longrightarrow> ?thesis" unfolding clean_form_def by (metis append_Nil2 empty_iff list.set(1))
qed

lemma clean_step_form:
  assumes "clean_form r (rev st)" and "SLASH \<notin> set w"
  shows "clean_form r (rev (clean_step r st w))"
proof -
  from assms(1) obtain n rest where st: "rev st = replicate n ''..'' @ rest" "''..'' \<notin> set rest"
    "r \<longrightarrow> n = 0" and words: "list_all clean_word (rev st)" unfolding clean_form_def by blast
  consider (skip) "w = [] \<or> w = ''.''" | (up) "w = ''..''"
    | (name) "w \<noteq> []" "w \<noteq> ''.''" "w \<noteq> ''..''" by blast
  then show ?thesis
  proof cases
    case skip
    with assms(1) show ?thesis by (simp add: clean_step_def)
  next
    case name
    with assms(2) have "clean_word w" by (simp add: clean_word_def)
    with name st words show ?thesis
      by (auto simp: clean_step_def clean_form_def intro!: exI [of _ n] exI [of _ "rest @ [w]"])
  next
    case up
    show ?thesis
    proof (cases rest rule: rev_cases)
      case Nil
      with st have "st = replicate n ''..''" by (metis append_Nil2 rev_replicate rev_rev_ident)
      with up st(3) show ?thesis
        using clean_form_ups [of r "Suc n"] clean_step_up [of r n]
        by (cases r) (simp_all add: clean_step_def del: replicate_Suc)
    next
      case (snoc rest' v)
      with st have s: "st = v # rev (replicate n ''..'' @ rest')" "v \<noteq> ''..''"
        by (auto simp: rev_swap)
      with up st snoc words show ?thesis
        by (auto simp: clean_step_def clean_form_def intro!: exI [of _ n] exI [of _ rest'])
    qed
  qed
qed

lemma clean_words_form:
  assumes "\<forall>w \<in> set ws. SLASH \<notin> set w"
  shows "clean_form r (clean_words r ws)"
proof -
  have "clean_form r (rev st) \<Longrightarrow> \<forall>w \<in> set ws. SLASH \<notin> set w \<Longrightarrow>
      clean_form r (rev (foldl (clean_step r) st ws))" for st
    by (induction ws arbitrary: st) (simp_all add: clean_step_form)
  from this [of "[]"] assms show ?thesis by (simp add: clean_words_def)
qed

lemma clean_words_id:
  assumes "clean_form r ws"
  shows "clean_words r ws = ws"
proof -
  from assms obtain n rest where ws: "ws = replicate n ''..'' @ rest" "''..'' \<notin> set rest"
    "r \<longrightarrow> n = 0" and words: "list_all clean_word ws" unfolding clean_form_def by blast
  have up: "foldl (clean_step r) [] (replicate n ''..'') = replicate n ''..''" if "\<not> r \<or> n = 0" for n
  proof -
    have "foldl (clean_step r) (replicate m ''..'') (replicate n ''..'') = replicate (m + n) ''..''"
      if "\<not> r" for m
    proof (induction n arbitrary: m)
      case (Suc n)
      have "foldl (clean_step r) (replicate m ''..'') (replicate (Suc n) ''..'')
          = foldl (clean_step r) (replicate (Suc m) ''..'') (replicate n ''..'')"
        using clean_step_up [OF that, of m] by simp
      with Suc.IH [of "Suc m"] show ?case by simp
    qed simp
    from this [of 0] that show ?thesis by auto
  qed
  have names: "foldl (clean_step r) st rest = rev rest @ st"
    if "list_all clean_word rest" "''..'' \<notin> set rest" for st rest
    using that by (induction rest arbitrary: st) (auto simp: clean_step_def clean_word_def)
  show ?thesis
    using ws up [of n] names [of rest "replicate n ''..''"] words by (auto simp: clean_words_def)
qed

lemma join_slash_hd: "ws \<noteq> [] \<Longrightarrow> list_all clean_word ws \<Longrightarrow> join_slash ws \<noteq> [] \<and> hd (join_slash ws) \<noteq> SLASH"
proof -
  have hd: "hd w \<noteq> SLASH" if "clean_word w" for w
    using that by (metis clean_word_def hd_in_set)
  show "ws \<noteq> [] \<Longrightarrow> list_all clean_word ws \<Longrightarrow> ?thesis"
    using hd by (cases ws rule: join_slash.cases) (auto simp: clean_word_def hd_append)
qed

lemma Clean_IsAbs: "IsAbs (Clean p) \<longleftrightarrow> IsAbs p"
proof -
  let ?ws = "clean_words (IsAbs p) (components p)"
  have "clean_form (IsAbs p) ?ws" using clean_words_form components_no_slash by blast
  then have "?ws \<noteq> [] \<Longrightarrow> hd (join_slash ?ws) \<noteq> SLASH" using join_slash_hd by (auto simp: clean_form_def)
  then show ?thesis by (cases "?ws = []") (auto simp: Clean_def IsAbs_def Let_def)
qed

lemma clean_words_skip: "clean_words r ([] # ws) = clean_words r ws"
  by (simp add: clean_words_def clean_step_def)

theorem Clean_idem: "Clean (Clean p) = Clean p"
proof -
  let ?r = "IsAbs p"
  let ?ws = "clean_words ?r (components p)"
  have form: "clean_form ?r ?ws" using clean_words_form components_no_slash by blast
  then have id: "clean_words ?r ?ws = ?ws" by (rule clean_words_id)
  have comp: "?ws \<noteq> [] \<Longrightarrow> components (join_slash ?ws) = ?ws"
    using form by (intro components_join) (auto simp: clean_form_def list_all_iff clean_word_def)
  show ?thesis
  proof (cases ?r)
    case True
    have "clean_words True (components (SLASH # join_slash ?ws)) = ?ws"
    proof (cases "?ws = []")
      case ws: True
      show ?thesis unfolding ws by code_simp
    next
      case ws: False
      have "components (SLASH # join_slash ?ws) = [] # ?ws" using comp [OF ws] by simp
      then show ?thesis using id True by (simp add: clean_words_skip)
    qed
    then show ?thesis using True Clean_IsAbs [of p] by (simp add: Clean_def Let_def)
  next
    case False
    show ?thesis
    proof (cases "?ws = []")
      case True
      with False have c: "Clean p = ''.''" by (simp add: Clean_def)
      show ?thesis unfolding c by code_simp
    next
      case ws: False
      then have "join_slash ?ws \<noteq> []" using form join_slash_hd by (auto simp: clean_form_def)
      with False ws id comp Clean_IsAbs [of p] show ?thesis by (simp add: Clean_def Let_def)
    qed
  qed
qed

section \<open>Absolute clean paths\<close>

definition path_names :: "string list \<Rightarrow> bool" where
  "path_names ws \<longleftrightarrow> list_all (\<lambda>w. clean_word w \<and> w \<noteq> ''..'') ws"

definition abs_path :: "string list \<Rightarrow> string" where
  "abs_path ws = SLASH # join_slash ws"

lemma path_names_simps [simp]:
  "path_names []"
  "path_names (w # ws) \<longleftrightarrow> clean_word w \<and> w \<noteq> ''..'' \<and> path_names ws"
  "path_names (vs @ ws) \<longleftrightarrow> path_names vs \<and> path_names ws"
  by (auto simp: path_names_def)

lemma path_names_form: "path_names ws \<longleftrightarrow> clean_form True ws"
  by (auto simp: path_names_def clean_form_def list_all_iff)

lemma path_names_plain: "path_names ws \<Longrightarrow> w \<in> set ws \<Longrightarrow> w \<noteq> [] \<and> SLASH \<notin> set w"
  by (auto simp: path_names_def list_all_iff clean_word_def)

lemma components_abs_path:
  assumes "path_names ws"
  shows "components (abs_path ws) = [] # (if ws = [] then [[]] else ws)"
  using components_join [of ws] path_names_plain [OF assms] by (auto simp: abs_path_def)

lemma IsAbs_abs_path [simp]: "IsAbs (abs_path ws)"
  by (simp add: IsAbs_def abs_path_def)

lemma clean_words_Nil: "clean_words r [] = []"
  by (simp add: clean_words_def)

lemma Clean_of_components:
  "IsAbs p \<Longrightarrow> components p = [] # (if ws = [] then [[]] else ws) \<Longrightarrow> path_names ws \<Longrightarrow>
     Clean p = abs_path ws"
  using clean_words_id [of True ws]
  by (cases "ws = []")
    (simp_all add: Clean_def abs_path_def clean_words_skip clean_words_Nil path_names_form)

lemma Clean_abs_path [simp]: "path_names ws \<Longrightarrow> Clean (abs_path ws) = abs_path ws"
  by (rule Clean_of_components) (simp_all add: components_abs_path)

lemma clean_abs_path:
  assumes "IsAbs p" and "Clean p = p"
  obtains ws where "path_names ws" "p = abs_path ws"
proof -
  let ?ws = "clean_words True (components p)"
  have "clean_form True ?ws" using clean_words_form components_no_slash by blast
  moreover have "p = abs_path ?ws" using assms by (simp add: Clean_def abs_path_def)
  ultimately show ?thesis using that path_names_form by blast
qed

lemma components_join_more:
  "ws \<noteq> [] \<Longrightarrow> \<forall>w \<in> set ws. SLASH \<notin> set w \<Longrightarrow> SLASH \<notin> set n \<Longrightarrow>
     components (join_slash ws @ SLASH # n) = ws @ [n]"
  by (induction ws rule: join_slash.induct) (simp_all add: components_append components_plain)

lemma Join_abs_path:
  assumes "path_names ws" and "path_names [n]"
  shows "Join (abs_path ws) n = abs_path (ws @ [n])"
proof (cases "ws = []")
  case True
  have "clean_words True [[], [], n] = [n]"
    using assms(2) by (auto simp: clean_words_def clean_step_def clean_word_def)
  with True assms(2) show ?thesis
    by (simp add: Join_def abs_path_def Clean_def IsAbs_def clean_word_def components_plain)
next
  case False
  have "components (abs_path ws @ SLASH # n) = [] # (ws @ [n])"
    using components_join_more [OF False, of n] path_names_plain [OF assms(1)] path_names_plain [OF assms(2)]
    by (simp add: abs_path_def)
  moreover have "IsAbs (abs_path ws @ SLASH # n)" by (simp add: IsAbs_def abs_path_def)
  ultimately have "Clean (abs_path ws @ SLASH # n) = abs_path (ws @ [n])"
    using assms by (intro Clean_of_components) simp_all
  moreover have "n \<noteq> []" using assms(2) by (simp add: clean_word_def)
  ultimately show ?thesis by (simp add: Join_def abs_path_def)
qed

lemma path_words_abs_path: "path_names ws \<Longrightarrow> path_words (abs_path ws) = ws"
  using path_names_plain [of ws]
  by (auto simp: path_words_def components_abs_path filter_id_conv)

lemma strip_common_prefix: "strip_common ws (ws @ us) = ([], us)"
  by (induction ws) (auto elim: strip_common.elims)

lemma abs_path_inj: "path_names vs \<Longrightarrow> path_names ws \<Longrightarrow> abs_path vs = abs_path ws \<Longrightarrow> vs = ws"
  by (metis path_words_abs_path)

lemma Rel_abs_path:
  assumes "path_names (ws @ us)"
  shows "Rel (abs_path ws) (abs_path (ws @ us)) = Inr (if us = [] then ''.'' else join_slash us)"
proof -
  have "abs_path ws \<noteq> ''.''" by (simp add: abs_path_def)
  moreover have "us \<noteq> [] \<Longrightarrow> abs_path (ws @ us) \<noteq> abs_path ws"
    using abs_path_inj [of "ws @ us" ws] assms by auto
  ultimately show ?thesis
    using assms by (auto simp: Rel_def Let_def path_words_abs_path strip_common_prefix)
qed

lemma solid_SLASH [simp]: "solid SLASH"
  by (simp add: solid_def byte_def)

lemma strip_runes_keeps: "c \<in> set s \<Longrightarrow> \<forall>p \<in> set ps. c \<notin> set p \<Longrightarrow> c \<in> set (strip_runes ps s)"
proof (induction ps s rule: strip_runes.induct)
  case (1 ps s)
  show ?case
  proof (cases "find (\<lambda>p. p \<noteq> [] \<and> prefix p s) ps")
    case None
    with "1.prems" show ?thesis by (simp add: strip_runes.simps [of ps s])
  next
    case (Some p)
    then have p: "p \<in> set ps" "prefix p s" by (auto simp: find_Some_iff)
    with "1.prems" have "c \<in> set (drop (length p) s)" by (auto simp: prefix_def)
    with "1.IH" Some "1.prems" show ?thesis by (simp add: strip_runes.simps [of ps s])
  qed
qed

lemma trim_space_keeps: "solid c \<Longrightarrow> c \<in> set s \<Longrightarrow> c \<in> set (trim_space s)"
  using set_ws_runes_solid [of c]
  by (auto simp: trim_space_def trim_right_space_def trim_left_space_def intro!: strip_runes_keeps)

lemma IsAbs_not_blank: "IsAbs p \<Longrightarrow> trim_space p \<noteq> []"
  using trim_space_keeps [of SLASH p] by (cases p) (auto simp: IsAbs_def)

section \<open>Walking a directory tree\<close>

text \<open>
  A directory as \<open>os.ReadDir\<close> sees it during one walk: the entries in lexical order, each with
  its type bits, the answer of its \<open>Info\<close> method, and, for a directory, the entries inside it and
  the error that reading it ends with.
\<close>

datatype file_kind = Regular | Directory | Symlink | Other

datatype dir_entry =
  DirEntry (de_name: string) (de_kind: file_kind) (de_info: "go_error + file_kind")
    (de_children: "dir_entry list") (de_read_error: "go_error option")

text \<open>What a callback returns when it is not nil.\<close>

datatype walk_stop = SkipDir | Stop go_error

type_synonym 's walk_fn = "string \<Rightarrow> dir_entry option \<Rightarrow> go_error option \<Rightarrow> 's \<Rightarrow> walk_stop option \<times> 's"

definition skip_own :: "dir_entry \<Rightarrow> walk_stop option \<Rightarrow> walk_stop option" where
  "skip_own d r = (if r = Some SkipDir \<and> de_kind d = Directory then None else r)"

text \<open>
  \<open>walkDir\<close> and its loop over the entries of a directory: a \<open>SkipDir\<close> that an entry returns ends
  the loop over its siblings, any other result that is not nil ends the walk.
\<close>

fun walk_entry :: "'s walk_fn \<Rightarrow> string \<Rightarrow> dir_entry \<Rightarrow> 's \<Rightarrow> walk_stop option \<times> 's"
  and walk_entries :: "'s walk_fn \<Rightarrow> string \<Rightarrow> dir_entry list \<Rightarrow> 's \<Rightarrow> walk_stop option \<times> 's" where
  "walk_entry fn path (DirEntry name kind info children rerr) s =
     (let d = DirEntry name kind info children rerr in
      case fn path (Some d) None s of (r, s1) \<Rightarrow>
        if r \<noteq> None \<or> kind \<noteq> Directory then (skip_own d r, s1)
        else (case rerr of
            None \<Rightarrow> walk_entries fn path children s1
          | Some e \<Rightarrow>
              (case fn path (Some d) (Some e) s1 of (r2, s2) \<Rightarrow>
                 if r2 \<noteq> None then (skip_own d r2, s2) else walk_entries fn path children s2)))"
| "walk_entries fn path [] s = (None, s)"
| "walk_entries fn path (d # ds) s =
     (case walk_entry fn (Join path (de_name d)) d s of (r, s1) \<Rightarrow>
        (case r of
           None \<Rightarrow> walk_entries fn path ds s1
         | Some SkipDir \<Rightarrow> (None, s1)
         | Some (Stop e) \<Rightarrow> (Some (Stop e), s1)))"

text \<open>\<open>filepath.WalkDir\<close>; \<open>start\<close> is what \<open>os.Lstat\<close> finds at the root.\<close>

definition WalkDir :: "go_error + dir_entry \<Rightarrow> string \<Rightarrow> 's walk_fn \<Rightarrow> 's \<Rightarrow> go_error option \<times> 's" where
  "WalkDir start root fn s =
     (case (case start of Inl e \<Rightarrow> fn root None (Some e) s | Inr d \<Rightarrow> walk_entry fn root d s) of
        (Some (Stop e), s1) \<Rightarrow> (Some e, s1)
      | (_, s1) \<Rightarrow> (None, s1))"

end
