(* ===== verification/Fs_Provider.thy ===== *)
theory Fs_Provider
  imports Document_Correct Runtime File_Paths
begin

text \<open>
  \<open>fsskillprovider/provider.go\<close>: skills that are directories of the file system. What the provider
  asks of the operating system is the record \<open>os\<close>, whose functions are the answers that hold
  during one call; the tools of \<open>llmtools-go\<close> are the record \<open>llmtools\<close>. Paths are those of systems
  with slash separators (theory \<open>File_Paths\<close>).
\<close>

section \<open>The outside\<close>

text \<open>
  An opened file is the bytes it yields and the error it ends with, if that is not the end of the
  file. \<open>os_error_text\<close> is the \<open>Error\<close> method as the verb \<open>%v\<close> shows it.
\<close>

datatype open_file = OpenFile (of_bytes: string) (of_error: "go_error option")

record os =
  os_goos :: string
  os_getwd :: "go_error + string"
  os_eval_symlinks :: "string \<Rightarrow> go_error + string"
  os_stat :: "string \<Rightarrow> go_error + file_kind"
  os_lstat :: "string \<Rightarrow> go_error + file_kind"
  os_open :: "string \<Rightarrow> go_error + open_file"
  os_tree :: "string \<Rightarrow> go_error + dir_entry"
  os_error_text :: "go_error \<Rightarrow> string"

text \<open>\<open>io.ReadAll(io.LimitReader(f, n))\<close>: an error beyond the limit is never seen.\<close>

fun read_limited :: "nat \<Rightarrow> open_file \<Rightarrow> go_error + string" where
  "read_limited n (OpenFile b e) =
     (if n \<le> length b then Inr (take n b)
      else (case e of None \<Rightarrow> Inr b | Some err \<Rightarrow> Inl err))"

datatype exec_policy = ExecPolicy string

record run_script_policy =
  rp_allowed_extensions :: "string list"
  rp_rest :: string

record run_script_call =
  rc_path :: string
  rc_args :: "string list"
  rc_env :: "string \<rightharpoonup> string"
  rc_work_dir :: string

type_synonym fs_tool = "ctx \<Rightarrow> string \<Rightarrow> string \<Rightarrow> go_error + tool_output list"
type_synonym exec_tool = "ctx \<Rightarrow> run_script_call \<Rightarrow> go_error + run_script_out option"

text \<open>
  \<open>fstool.NewFSTool\<close> with allowed roots and a base directory, \<open>exectool.NewExecTool\<close> with the two
  policies as well. A result of \<open>RunScript\<close> has the fields of \<open>run_script_out\<close>.
\<close>

record llmtools =
  DefaultExecutionPolicy :: exec_policy
  DefaultRunScriptPolicy :: run_script_policy
  NormalizeRunScriptPolicy :: "run_script_policy \<Rightarrow> go_error + run_script_policy"
  NewFSTool :: "string list \<Rightarrow> string \<Rightarrow> go_error + fs_tool"
  NewExecTool :: "string list \<Rightarrow> string \<Rightarrow> exec_policy \<Rightarrow> run_script_policy \<Rightarrow> go_error + exec_tool"

section \<open>Construction\<close>

definition Type :: string where "Type = ''fs''"
definition goosWindows :: string where "goosWindows = ''windows''"
definition skillFileName :: string where "skillFileName = ''SKILL.md''"
definition maxSkillMDBytes :: nat where "maxSkillMDBytes = MaxSkillDocumentBytes"

definition defaultAllowedScriptsExtensionWin :: "string list" where
  "defaultAllowedScriptsExtensionWin = [''.ps1'', ''.py'']"

definition defaultAllowedScriptsExtensionNonWin :: "string list" where
  "defaultAllowedScriptsExtensionNonWin = [''.sh'', ''.py'']"

record fs_config =
  runScriptsEnabled :: bool
  execPolicy :: exec_policy
  runScriptPolicy :: run_script_policy
  allowedScriptExt :: "string list"
  allowedScriptExtSet :: bool

type_synonym fs_option = "fs_config \<Rightarrow> go_error + fs_config"

definition WithRunScripts :: "bool \<Rightarrow> fs_option" where
  "WithRunScripts enabled = (\<lambda>p. Inr (p\<lparr>runScriptsEnabled := enabled\<rparr>))"

definition WithExecutionPolicy :: "exec_policy \<Rightarrow> fs_option" where
  "WithExecutionPolicy policy = (\<lambda>p. Inr (p\<lparr>execPolicy := policy\<rparr>))"

definition WithRunScriptPolicy :: "llmtools \<Rightarrow> run_script_policy \<Rightarrow> fs_option" where
  "WithRunScriptPolicy lt policy =
     (\<lambda>p. and_then (NormalizeRunScriptPolicy lt policy) (\<lambda>norm. Inr (p\<lparr>runScriptPolicy := norm\<rparr>)))"

fun normalize_exts :: "string list \<Rightarrow> string list" where
  "normalize_exts [] = []"
| "normalize_exts (x # exts) =
     (let e = to_lower (trim_space x) in
      if e = [] then normalize_exts exts
      else (if prefix ''.'' e then e else ''.'' @ e) # normalize_exts exts)"

definition WithAllowedScriptExtensions :: "string list \<Rightarrow> fs_option" where
  "WithAllowedScriptExtensions exts =
     (\<lambda>p. Inr (p\<lparr>allowedScriptExt := normalize_exts exts, allowedScriptExtSet := True\<rparr>))"

definition isWindows :: "string \<Rightarrow> bool" where
  "isWindows goos \<longleftrightarrow> goos = goosWindows"

definition apply_extension_policy :: "string \<Rightarrow> fs_config \<Rightarrow> fs_config" where
  "apply_extension_policy goos p =
     (let set_exts = (\<lambda>x. p\<lparr>runScriptPolicy := (runScriptPolicy p)\<lparr>rp_allowed_extensions := x\<rparr>\<rparr>) in
      if allowedScriptExtSet p then set_exts (allowedScriptExt p)
      else if rp_allowed_extensions (runScriptPolicy p) = [] then
        (if isWindows goos then set_exts defaultAllowedScriptsExtensionWin
         else set_exts defaultAllowedScriptsExtensionNonWin)
      else p)"

definition New :: "llmtools \<Rightarrow> string \<Rightarrow> fs_option option list \<Rightarrow> go_error + fs_config" where
  "New lt goos opts =
     and_then (apply_options opts
         \<lparr>runScriptsEnabled = False, execPolicy = DefaultExecutionPolicy lt,
          runScriptPolicy = DefaultRunScriptPolicy lt, allowedScriptExt = [],
          allowedScriptExtSet = False\<rparr>) (\<lambda>p.
     let p = apply_extension_policy goos p in
     and_then (NormalizeRunScriptPolicy lt (runScriptPolicy p)) (\<lambda>norm.
     Inr (p\<lparr>runScriptPolicy := norm\<rparr>)))"

section \<open>Roots and files\<close>

text \<open>\<open>userLocationError\<close>; its message quotes the location the caller gave.\<close>

definition userLocationError :: "string \<Rightarrow> go_error option \<Rightarrow> go_error" where
  "userLocationError input err =
     (case err of
        None \<Rightarrow> Wrapf (''invalid skill location '' @ input) []
      | Some e \<Rightarrow> Wrapf (''invalid skill location '' @ input) [e])"

definition location_error :: "string \<Rightarrow> go_error \<Rightarrow> go_error" where
  "location_error input err =
     Wrapf ''%w: %w'' [Sentinel ErrInvalidArgument, userLocationError input (Some err)]"

definition canonicalRoot :: "os \<Rightarrow> string \<Rightarrow> go_error + string" where
  "canonicalRoot w p =
     (let root = trim_space p in
      and_then (guard_err (root = []) (invalid_arg ''%w: empty path'')) (\<lambda>_.
      and_then (guard_err (NUL \<in> set root) (invalid_arg ''%w: path contains NUL byte'')) (\<lambda>_.
      let clean = Clean root in
      and_then (guard_err (isWindows (os_goos w) \<and> VolumeName clean \<noteq> [] \<and> \<not> IsAbs clean)
          (invalid_arg ''%w: windows drive-relative paths like %q are not supported'')) (\<lambda>_.
      (case Abs (os_getwd w) clean of
         Inl e \<Rightarrow> Inl (location_error p e)
       | Inr abs0 \<Rightarrow>
           let abs = (case os_eval_symlinks w abs0 of
                        Inr resolved \<Rightarrow> if trim_space resolved \<noteq> [] then resolved else abs0
                      | Inl _ \<Rightarrow> abs0) in
           (case os_stat w abs of
              Inl e \<Rightarrow> Inl (location_error p e)
            | Inr st \<Rightarrow>
                if st \<noteq> Directory then Inl (invalid_arg ''%w: not a directory: %q'')
                else Inr abs))))))"

definition readAllLimitedAndDigest ::
  "os \<Rightarrow> (string \<Rightarrow> string) \<Rightarrow> string \<Rightarrow> go_error + string \<times> string" where
  "readAllLimitedAndDigest w hx path =
     (case os_open w path of
        Inl e \<Rightarrow> Inl (Wrapf ''open %s: %w'' [e])
      | Inr f \<Rightarrow>
          (case read_limited (maxSkillMDBytes + 1) f of
             Inl e \<Rightarrow> Inl (Wrapf ''read %s: %w'' [e])
           | Inr data \<Rightarrow>
               if maxSkillMDBytes < length data then Inl (Msg ''SKILL.md too large (max %d bytes)'')
               else Inr (data, hx data)))"

text \<open>The same without the number in unary, for evaluation.\<close>

lemma readAllLimitedAndDigest_code [code]:
  "readAllLimitedAndDigest w hx path =
     (case os_open w path of
        Inl e \<Rightarrow> Inl (Wrapf ''open %s: %w'' [e])
      | Inr f \<Rightarrow>
          if (2097153 :: int) \<le> int (length (of_bytes f))
          then Inl (Msg ''SKILL.md too large (max %d bytes)'')
          else (case of_error f of
              Some e \<Rightarrow> Inl (Wrapf ''read %s: %w'' [e])
            | None \<Rightarrow> Inr (of_bytes f, hx (of_bytes f))))"
proof (cases "os_open w path")
  case (Inr f)
  then show ?thesis
    by (cases f)
      (auto simp: readAllLimitedAndDigest_def maxSkillMDBytes_def MaxSkillDocumentBytes_def
        split: option.split)
qed (simp add: readAllLimitedAndDigest_def)

text \<open>The check before SKILL.md is read; a failing \<open>Lstat\<close> is left to the read.\<close>

definition check_skill_md :: "os \<Rightarrow> string \<Rightarrow> go_error + unit" where
  "check_skill_md w path =
     (case os_lstat w path of
        Inl _ \<Rightarrow> Inr ()
      | Inr kind \<Rightarrow>
          if kind = Symlink then Inl (Msg ''SKILL.md must not be a symlink'')
          else if kind \<noteq> Regular then Inl (Msg ''SKILL.md must be a regular file'')
          else Inr ())"

fun uniqueStrings_loop :: "string list \<Rightarrow> string list \<Rightarrow> string list \<Rightarrow> string list" where
  "uniqueStrings_loop seen out [] = out"
| "uniqueStrings_loop seen out (x # xs) =
     (let s = trim_space x in
      if s = [] then uniqueStrings_loop seen out xs
      else if s \<in> set seen then uniqueStrings_loop seen out xs
      else uniqueStrings_loop (s # seen) (out @ [s]) xs)"

definition uniqueStrings :: "string list \<Rightarrow> string list" where
  "uniqueStrings xs = uniqueStrings_loop [] [] xs"

section \<open>Resources\<close>

definition resourceRelLocation :: "string \<Rightarrow> string \<Rightarrow> string" where
  "resourceRelLocation root path =
     (case Rel root path of
        Inl _ \<Rightarrow> ''.''
      | Inr rel \<Rightarrow> if trim_space rel = [] then ''.'' else rel)"

record scan_state =
  sc_info :: skill_resource_info
  sc_warnings :: "string list"

definition skip_warning :: "os \<Rightarrow> doc_env \<Rightarrow> string \<Rightarrow> go_error \<Rightarrow> string" where
  "skip_warning w env rel e =
     ''resource scan skipped '' @ env_quote env rel @ '': '' @ os_error_text w e"

definition add_resource :: "string \<Rightarrow> skill_resource_info \<Rightarrow> skill_resource_info" where
  "add_resource rel info =
     info\<lparr>res_total_count := res_total_count info + 1,
       res_locations := (if length (res_locations info) < MaxSkillResourceLocations
                         then res_locations info @ [rel] else res_locations info)\<rparr>"

text \<open>The function that \<open>indexSkillResources\<close> gives to \<open>WalkDir\<close>.\<close>

definition scan_entry :: "os \<Rightarrow> doc_env \<Rightarrow> ctx \<Rightarrow> string \<Rightarrow> scan_state walk_fn" where
  "scan_entry w env c root path od walkErr s =
     (case c of
        Some e \<Rightarrow> (Some (Stop e), s)
      | None \<Rightarrow>
          let rel = resourceRelLocation root path in
          (case walkErr of
             Some e \<Rightarrow>
               (case od of
                  Some d \<Rightarrow> if de_kind d = Directory then Some SkipDir else None
                | None \<Rightarrow> None,
                s\<lparr>sc_warnings := sc_warnings s @ [skip_warning w env rel e]\<rparr>)
           | None \<Rightarrow>
               (None,
                case od of
                  None \<Rightarrow> s
                | Some d \<Rightarrow>
                    if rel = ''.'' \<or> rel = skillFileName \<or> de_kind d = Symlink \<or> de_kind d = Directory
                    then s
                    else (case de_info d of
                        Inl e \<Rightarrow> s\<lparr>sc_warnings := sc_warnings s @ [skip_warning w env rel e]\<rparr>
                      | Inr kind \<Rightarrow>
                          if kind \<noteq> Regular then s
                          else s\<lparr>sc_info := add_resource rel (sc_info s)\<rparr>))))"

definition finish_resources :: "skill_resource_info \<Rightarrow> skill_resource_info" where
  "finish_resources info =
     info\<lparr>res_has_resources := res_total_count info > 0,
       res_more_locations := res_total_count info > length (res_locations info)\<rparr>"

definition indexSkillResources ::
  "os \<Rightarrow> doc_env \<Rightarrow> ctx \<Rightarrow> string \<Rightarrow> go_error + skill_resource_info \<times> string list" where
  "indexSkillResources w env c rootDir =
     and_then (ctx_check c) (\<lambda>_.
     let root = trim_space rootDir in
     and_then (guard_err (root = []) (invalid_arg ''%w: empty rootDir'')) (\<lambda>_.
     (case WalkDir (os_tree w root) root (scan_entry w env c root)
             \<lparr>sc_info = empty_resources, sc_warnings = []\<rparr> of
        (Some e, _) \<Rightarrow> Inl e
      | (None, s) \<Rightarrow> Inr (finish_resources (sc_info s), uniqueStrings (sc_warnings s)))))"

section \<open>Indexing and loading\<close>

record skillDirIndex =
  di_name :: string
  di_description :: string
  di_display_name :: string
  di_insert :: skill_insert
  di_arguments :: "skill_argument list"
  di_tags :: "string list"
  di_resources :: skill_resource_info
  di_props :: frontmatter
  di_warnings :: "string list"
  di_digest :: string

abbreviation wrap_with :: "string \<Rightarrow> go_error + 'a \<Rightarrow> go_error + 'a" where
  "wrap_with m \<equiv> map_err (\<lambda>e. Wrapf m [e])"

definition indexSkillDir ::
  "os \<Rightarrow> doc_env \<Rightarrow> (string \<Rightarrow> string) \<Rightarrow> ctx \<Rightarrow> string \<Rightarrow> go_error + skillDirIndex" where
  "indexSkillDir w env hx c rootDir =
     and_then (wrap_with ''indexSkillDir: %w'' (ctx_check c)) (\<lambda>_.
     let root = trim_space rootDir in
     and_then (guard_err (root = []) (invalid_arg ''%w: empty rootDir'')) (\<lambda>_.
     let skillMDPath = Join root skillFileName in
     and_then (check_skill_md w skillMDPath) (\<lambda>_.
     and_then (wrap_with ''indexSkillDir: %w'' (readAllLimitedAndDigest w hx skillMDPath)) (\<lambda>(b, sha).
     and_then (wrap_with ''indexSkillDir: %w'' (ParseSkillDocument env b (Base root)))
       (\<lambda>(document, parseWarnings).
     and_then (wrap_with ''indexSkillDir: %w'' (indexSkillResources w env c root))
       (\<lambda>(resources, resourceWarnings).
     Inr \<lparr>di_name = doc_name document, di_description = doc_description document,
       di_display_name = doc_display_name document, di_insert = doc_insert document,
       di_arguments = doc_arguments document, di_tags = doc_tags document,
       di_resources = resources, di_props = doc_raw_frontmatter document,
       di_warnings = uniqueStrings (parseWarnings @ resourceWarnings),
       di_digest = ''sha256:'' @ sha\<rparr>))))))"

definition loadSkillBody ::
  "os \<Rightarrow> doc_env \<Rightarrow> (string \<Rightarrow> string) \<Rightarrow> ctx \<Rightarrow> string \<Rightarrow> go_error + string" where
  "loadSkillBody w env hx c rootDir =
     and_then (wrap_with ''loadSkillBody: %w'' (ctx_check c)) (\<lambda>_.
     let root = trim_space rootDir in
     and_then (guard_err (root = []) (invalid_arg ''%w: empty rootDir'')) (\<lambda>_.
     let skillMDPath = Join root skillFileName in
     and_then (check_skill_md w skillMDPath) (\<lambda>_.
     and_then (wrap_with ''loadSkillBody: %w'' (readAllLimitedAndDigest w hx skillMDPath)) (\<lambda>(b, sha).
     and_then (wrap_with ''loadSkillBody: %w'' (ParseSkillDocument env b (Base root)))
       (\<lambda>(document, ws). Inr (doc_markdown_body document))))))"

section \<open>The provider\<close>

definition check_key_type :: "ctx \<Rightarrow> provider_skill_key \<Rightarrow> go_error + unit" where
  "check_key_type c key =
     and_then (ctx_check c) (\<lambda>_.
       guard_err (key_type key \<noteq> Type) (invalid_arg ''%w: wrong provider type: %q''))"

definition index_record_of :: "skill_def \<Rightarrow> string \<Rightarrow> skillDirIndex \<Rightarrow> index_record" where
  "index_record_of d root meta =
     \<lparr>idx_key = \<lparr>key_type = def_type d, key_name = def_name d, key_location = root\<rparr>,
      idx_name = di_name meta, idx_description = di_description meta,
      idx_display_name = di_display_name meta, idx_insert = di_insert meta,
      idx_arguments = di_arguments meta, idx_tags = di_tags meta, idx_resources = di_resources meta,
      idx_raw_frontmatter = di_props meta, idx_warnings = di_warnings meta,
      idx_digest = di_digest meta, idx_skill_body = []\<rparr>"

definition Index ::
  "os \<Rightarrow> doc_env \<Rightarrow> (string \<Rightarrow> string) \<Rightarrow> ctx \<Rightarrow> skill_def \<Rightarrow> go_error + index_record" where
  "Index w env hx c d =
     and_then (ctx_check c) (\<lambda>_.
     and_then (guard_err (trim_space (def_type d) = [])
         (invalid_arg ''%w: def.type is required'')) (\<lambda>_.
     and_then (guard_err (def_type d \<noteq> Type) (invalid_arg ''%w: wrong provider type: %q'')) (\<lambda>_.
     and_then (guard_err (trim_space (def_name d) = [])
         (invalid_arg ''%w: def.name is required'')) (\<lambda>_.
     and_then (guard_err (trim_space (def_location d) = [])
         (invalid_arg ''%w: def.location is required'')) (\<lambda>_.
     and_then (canonicalRoot w (def_location d)) (\<lambda>root.
     and_then (indexSkillDir w env hx c root) (\<lambda>meta.
     and_then (guard_err (di_name meta \<noteq> def_name d)
         (invalid_arg ''%w: key.name=%q does not match SKILL.md frontmatter.name=%q'')) (\<lambda>_.
     Inr (index_record_of d root meta)))))))))"

definition LoadBody ::
  "os \<Rightarrow> doc_env \<Rightarrow> (string \<Rightarrow> string) \<Rightarrow> ctx \<Rightarrow> provider_skill_key \<Rightarrow> go_error + string" where
  "LoadBody w env hx c key =
     and_then (check_key_type c key) (\<lambda>_.
     and_then (canonicalRoot w (key_location key)) (loadSkillBody w env hx c))"

definition ReadResource ::
  "os \<Rightarrow> llmtools \<Rightarrow> ctx \<Rightarrow> provider_skill_key \<Rightarrow> string \<Rightarrow> string \<Rightarrow> go_error + tool_output list" where
  "ReadResource w lt c key resourceLocation encoding =
     and_then (check_key_type c key) (\<lambda>_.
     and_then (canonicalRoot w (key_location key)) (\<lambda>root.
     and_then (guard_err (trim_space resourceLocation = [])
         (invalid_arg ''%w: resource location is required'')) (\<lambda>_.
     let enc = (if trim_space encoding = [] then ReadResourceEncodingText else encoding) in
     and_then (guard_err (enc \<noteq> ReadResourceEncodingText \<and> enc \<noteq> ReadResourceEncodingBinary)
         (invalid_arg ''%w: unknown encoding: %q'')) (\<lambda>_.
     and_then (NewFSTool lt [root] root) (\<lambda>ft. ft c resourceLocation enc)))))"

definition RunScript ::
  "os \<Rightarrow> llmtools \<Rightarrow> fs_config \<Rightarrow> ctx \<Rightarrow> provider_skill_key \<Rightarrow> string \<Rightarrow> string list
   \<Rightarrow> (string \<rightharpoonup> string) \<Rightarrow> string \<Rightarrow> go_error + run_script_out" where
  "RunScript w lt p c key scriptLocation args envs workdir =
     and_then (check_key_type c key) (\<lambda>_.
     and_then (guard_err (\<not> runScriptsEnabled p) (Sentinel ErrRunScriptUnsupported)) (\<lambda>_.
     and_then (canonicalRoot w (key_location key)) (\<lambda>root.
     let sp = trim_space scriptLocation in
     and_then (guard_err (sp = []) (invalid_arg ''%w: script location is required'')) (\<lambda>_.
     and_then (NewExecTool lt [root] root (execPolicy p) (runScriptPolicy p)) (\<lambda>et.
     and_then (et c \<lparr>rc_path = sp, rc_args = args, rc_env = envs, rc_work_dir = workdir\<rparr>) (\<lambda>res.
     (case res of
        None \<Rightarrow> Inl (Msg ''runscript returned nil result'')
      | Some out \<Rightarrow> Inr (out\<lparr>rs_location := sp\<rparr>))))))))"

definition fs_provider :: "os \<Rightarrow> llmtools \<Rightarrow> doc_env \<Rightarrow> (string \<Rightarrow> string) \<Rightarrow> fs_config \<Rightarrow> provider" where
  "fs_provider w lt env hx p =
     \<lparr>p_type = Type, p_index = Index w env hx, p_load_body = LoadBody w env hx,
      p_read_resource = ReadResource w lt, p_run_script = RunScript w lt p\<rparr>"

end
