(* ===== verification/Fs_Resources.thy ===== *)
theory Fs_Resources
  imports Fs_Provider
begin

text \<open>
  What the resource scan of the file-system provider computes: the log of a walk as a function of
  the directory tree, and \<open>indexSkillResources\<close> as the summary of that log.
\<close>

section \<open>Distinct warnings\<close>

lemma uniqueStrings_loop_eq:
  "uniqueStrings_loop seen out xs
   = out @ dedup_from seen (filter (\<lambda>s. s \<noteq> []) (map trim_space xs))"
  by (induction seen out xs rule: uniqueStrings_loop.induct) (simp_all add: Let_def)

lemma uniqueStrings_eq: "uniqueStrings xs = dedup (filter (\<lambda>s. s \<noteq> []) (map trim_space xs))"
  by (simp add: uniqueStrings_def uniqueStrings_loop_eq)

lemma uniqueStrings_distinct [simp]: "distinct (uniqueStrings xs)"
  by (simp add: uniqueStrings_eq)

lemma uniqueStrings_idem: "uniqueStrings (uniqueStrings xs) = uniqueStrings xs"
proof -
  have "set (uniqueStrings xs) \<subseteq> {s. s \<noteq> [] \<and> trim_space s = s}"
    by (auto simp: uniqueStrings_eq)
  then have "map trim_space (uniqueStrings xs) = uniqueStrings xs"
    "filter (\<lambda>s. s \<noteq> []) (uniqueStrings xs) = uniqueStrings xs"
    by (auto simp: filter_id_conv intro!: map_idI)
  then have "uniqueStrings (uniqueStrings xs) = dedup (uniqueStrings xs)"
    by (simp only: uniqueStrings_eq [of "uniqueStrings xs"])
  then show ?thesis by simp
qed

section \<open>The log of a walk\<close>

datatype scan_event = Found string | Problem string go_error

text \<open>The name of the entry with the given names below the root; a blank name is shown as a dot.\<close>

definition rel_name :: "string list \<Rightarrow> string" where
  "rel_name us = (if us = [] \<or> trim_space (join_slash us) = [] then ''.'' else join_slash us)"

fun entry_events :: "string list \<Rightarrow> dir_entry \<Rightarrow> scan_event list" where
  "entry_events us (DirEntry name kind info children rerr) =
     (if kind = Directory then
        (case rerr of
           None \<Rightarrow> concat (map (\<lambda>d. entry_events (us @ [de_name d]) d) children)
         | Some e \<Rightarrow> [Problem (rel_name us) e])
      else if kind = Symlink \<or> rel_name us = ''.'' \<or> rel_name us = skillFileName then []
      else (case info of
          Inl e \<Rightarrow> [Problem (rel_name us) e]
        | Inr k \<Rightarrow> if k = Regular then [Found (rel_name us)] else []))"

definition tree_events :: "go_error + dir_entry \<Rightarrow> scan_event list" where
  "tree_events start = (case start of Inl e \<Rightarrow> [Problem ''.'' e] | Inr d \<Rightarrow> entry_events [] d)"

fun names_ok :: "dir_entry \<Rightarrow> bool" where
  "names_ok (DirEntry name kind info children rerr) \<longleftrightarrow>
     (\<forall>d \<in> set children. path_names [de_name d] \<and> names_ok d)"

fun log_event :: "os \<Rightarrow> doc_env \<Rightarrow> scan_event \<Rightarrow> scan_state \<Rightarrow> scan_state" where
  "log_event w env (Found rel) s = s\<lparr>sc_info := add_resource rel (sc_info s)\<rparr>"
| "log_event w env (Problem rel e) s =
     s\<lparr>sc_warnings := sc_warnings s @ [skip_warning w env rel e]\<rparr>"

lemma resourceRelLocation_abs:
  "path_names (ws @ us) \<Longrightarrow> resourceRelLocation (abs_path ws) (abs_path (ws @ us)) = rel_name us"
  by (cases "us = []") (simp_all add: resourceRelLocation_def Rel_abs_path rel_name_def,
      simp add: Rel_abs_path [of ws "[]", simplified])

text \<open>The loop over the entries of a directory, given what the walk of each of them does.\<close>

lemma walk_entries_log:
  assumes "path_names (ws @ us)"
    and "\<And>d s. d \<in> set ds \<Longrightarrow> path_names [de_name d]
      \<and> walk_entry fn (abs_path (ws @ us @ [de_name d])) d s = (None, fold g (f d) s)"
  shows "walk_entries fn (abs_path (ws @ us)) ds s = (None, fold g (concat (map f ds)) s)"
  using assms(2)
proof (induction ds arbitrary: s)
  case (Cons d ds)
  have "Join (abs_path (ws @ us)) (de_name d) = abs_path (ws @ us @ [de_name d])"
    using Join_abs_path [OF assms(1), of "de_name d"] Cons.prems [of d] by simp
  moreover have "walk_entries fn (abs_path (ws @ us)) ds t = (None, fold g (concat (map f ds)) t)" for t
    by (rule Cons.IH, rule Cons.prems) simp
  ultimately show ?case using Cons.prems [of d] by simp
qed simp

lemma scan_entry_visit:
  "scan_entry w env None root path (Some d) None s =
     (let rel = resourceRelLocation root path in
      (None, if rel = ''.'' \<or> rel = skillFileName \<or> de_kind d = Symlink \<or> de_kind d = Directory
        then s
        else (case de_info d of
            Inl e \<Rightarrow> log_event w env (Problem rel e) s
          | Inr kind \<Rightarrow> if kind \<noteq> Regular then s else log_event w env (Found rel) s)))"
  by (simp add: scan_entry_def Let_def split: sum.split)

lemma scan_entry_error:
  "scan_entry w env None root path od (Some e) s =
     (case od of Some d \<Rightarrow> if de_kind d = Directory then Some SkipDir else None | None \<Rightarrow> None,
      log_event w env (Problem (resourceRelLocation root path) e) s)"
  by (simp add: scan_entry_def Let_def)

lemma walk_entry_log:
  "path_names (ws @ us) \<Longrightarrow> names_ok d \<Longrightarrow>
     walk_entry (scan_entry w env None (abs_path ws)) (abs_path (ws @ us)) d s
     = (None, fold (log_event w env) (entry_events us d) s)"
proof (induction d arbitrary: us s)
  case (DirEntry name kind info children rerr)
  let ?fn = "scan_entry w env None (abs_path ws)"
  have inside: "walk_entries ?fn (abs_path (ws @ us)) children t
      = (None, fold (log_event w env) (concat (map (\<lambda>d. entry_events (us @ [de_name d]) d) children)) t)" for t
    using DirEntry by (intro walk_entries_log) auto
  have rel: "resourceRelLocation (abs_path ws) (abs_path (ws @ us)) = rel_name us"
    by (rule resourceRelLocation_abs) (rule DirEntry.prems)
  show ?case
    by (cases "kind = Directory"; cases rerr; cases info)
      (auto simp: scan_entry_visit scan_entry_error rel Let_def skip_own_def inside
        simp del: log_event.simps)
qed

section \<open>The summary\<close>

fun found_of :: "scan_event \<Rightarrow> string option" where
  "found_of (Found rel) = Some rel"
| "found_of (Problem rel e) = None"

fun problem_of :: "os \<Rightarrow> doc_env \<Rightarrow> scan_event \<Rightarrow> string option" where
  "problem_of w env (Found rel) = None"
| "problem_of w env (Problem rel e) = Some (skip_warning w env rel e)"

definition resources_of :: "string list \<Rightarrow> skill_resource_info" where
  "resources_of fs =
     \<lparr>res_has_resources = (fs \<noteq> []), res_total_count = length fs,
      res_locations = take MaxSkillResourceLocations fs,
      res_more_locations = (MaxSkillResourceLocations < length fs)\<rparr>"

lemma log_info:
  "sc_info (fold (log_event w env) es s) = fold add_resource (List.map_filter found_of es) (sc_info s)"
proof (induction es arbitrary: s)
  case (Cons x es)
  then show ?case by (cases x) (simp_all add: map_filter_simps)
qed (simp add: map_filter_simps)

lemma log_warnings:
  "sc_warnings (fold (log_event w env) es s)
   = sc_warnings s @ List.map_filter (problem_of w env) es"
proof (induction es arbitrary: s)
  case (Cons x es)
  then show ?case by (cases x) (simp_all add: map_filter_simps)
qed (simp add: map_filter_simps)

lemma fold_add_resource:
  "fold add_resource fs info =
     info\<lparr>res_total_count := res_total_count info + length fs,
       res_locations := res_locations info @ take (MaxSkillResourceLocations - length (res_locations info)) fs\<rparr>"
proof (induction fs arbitrary: info)
  case (Cons rel fs)
  have "(MaxSkillResourceLocations - n) = Suc (MaxSkillResourceLocations - Suc n)"
    if "n < MaxSkillResourceLocations" for n using that by simp
  with Cons show ?case by (simp add: add_resource_def)
qed simp

lemma finish_fold: "finish_resources (fold add_resource fs empty_resources) = resources_of fs"
  by (auto simp: fold_add_resource finish_resources_def resources_of_def empty_resources_def)

lemma WalkDir_log:
  assumes "path_names ws" and "\<forall>d. start = Inr d \<longrightarrow> names_ok d"
  shows "WalkDir start (abs_path ws) (scan_entry w env None (abs_path ws)) s
    = (None, fold (log_event w env) (tree_events start) s)"
proof (cases start)
  case (Inl e)
  have "resourceRelLocation (abs_path ws) (abs_path ws) = ''.''"
    using resourceRelLocation_abs [of ws "[]"] assms(1) by (simp add: rel_name_def)
  with Inl show ?thesis by (simp add: WalkDir_def scan_entry_error tree_events_def)
next
  case (Inr d)
  with walk_entry_log [of ws "[]" d w env s] assms show ?thesis
    by (simp add: WalkDir_def tree_events_def)
qed

lemma resources_logged:
  assumes "IsAbs root" and "Clean root = root" and "trim_space root = root"
    and "\<forall>d. os_tree w root = Inr d \<longrightarrow> names_ok d"
  shows "indexSkillResources w env None root =
    Inr (resources_of (List.map_filter found_of (tree_events (os_tree w root))),
         uniqueStrings (List.map_filter (problem_of w env) (tree_events (os_tree w root))))"
proof -
  obtain ws where ws: "path_names ws" "root = abs_path ws" using clean_abs_path assms(1,2) by blast
  have "root \<noteq> []" using assms(1) by (auto simp: IsAbs_def)
  with WalkDir_log [OF ws(1) assms(4)] ws(2) assms(3) show ?thesis
    by (simp add: indexSkillResources_def log_info log_warnings finish_fold Let_def)
qed

text \<open>
  C38. The resources of a skill are the regular files below its root, other than its SKILL.md, in
  the lexical order of the walk: the count is exact, the first 1024 relative paths are listed, and
  \<open>moreLocations\<close> tells that some are missing. Symbolic links are not followed; a directory or an
  entry that cannot be read is left out with a warning, and the scan goes on.
\<close>

theorem indexSkillResources_spec:
  assumes "IsAbs root" and "Clean root = root" and "trim_space root = root"
    and "\<forall>d. os_tree w root = Inr d \<longrightarrow> names_ok d"
  shows "indexSkillResources w env None root =
    Inr (resources_of (List.map_filter found_of (tree_events (os_tree w root))),
         uniqueStrings (List.map_filter (problem_of w env) (tree_events (os_tree w root))))"
  using assms by (rule resources_logged)

lemma res_counts [simp]:
  "res_has_resources (resources_of fs) \<longleftrightarrow> fs \<noteq> []"
  "res_total_count (resources_of fs) = length fs"
  "length (res_locations (resources_of fs)) = min (length fs) MaxSkillResourceLocations"
  by (simp_all add: resources_of_def)

definition resources_consistent :: "skill_resource_info \<Rightarrow> bool" where
  "resources_consistent info \<longleftrightarrow>
     length (res_locations info) = min (res_total_count info) MaxSkillResourceLocations
     \<and> (res_more_locations info \<longleftrightarrow> MaxSkillResourceLocations < res_total_count info)
     \<and> (res_has_resources info \<longleftrightarrow> 0 < res_total_count info)"

definition scan_bounded :: "scan_state \<Rightarrow> bool" where
  "scan_bounded s \<longleftrightarrow> length (res_locations (sc_info s))
     = min (res_total_count (sc_info s)) MaxSkillResourceLocations"

lemma scan_entry_bounded: "scan_bounded s \<Longrightarrow> scan_bounded (snd (scan_entry w env c root path od e s))"
  by (auto simp: scan_entry_def scan_bounded_def add_resource_def Let_def
      split: option.split sum.split)

text \<open>A property of the state that the callback keeps is kept by the walk.\<close>

lemma walk_entries_keeps:
  assumes "\<And>d path s. d \<in> set ds \<Longrightarrow> P s \<Longrightarrow> P (snd (walk_entry fn path d s))"
  shows "P s \<Longrightarrow> P (snd (walk_entries fn path ds s))"
  using assms
proof (induction ds arbitrary: s)
  case (Cons d ds)
  obtain r s1 where r: "walk_entry fn (Join path (de_name d)) d s = (r, s1)" by force
  with Cons.prems(1) Cons.prems(2) [of d s "Join path (de_name d)"] have "P s1" by simp
  with Cons.IH [of s1] Cons.prems(2) r show ?case by (simp split: option.split walk_stop.split)
qed simp

lemma walk_entry_keeps:
  assumes fn: "\<And>path od e s. P s \<Longrightarrow> P (snd (fn path od e s))"
  shows "P s \<Longrightarrow> P (snd (walk_entry fn path d s))"
proof (induction d arbitrary: path s)
  case (DirEntry name kind info children rerr)
  let ?d = "DirEntry name kind info children rerr"
  obtain r s1 where r: "fn path (Some ?d) None s = (r, s1)" by force
  with fn DirEntry.prems have s1: "P s1" by (metis snd_conv)
  have inside: "P t \<Longrightarrow> P (snd (walk_entries fn path children t))" for t
    using DirEntry.IH by (rule walk_entries_keeps)
  show ?case
  proof (cases rerr)
    case None
    with r s1 inside show ?thesis by (simp add: Let_def)
  next
    case (Some e)
    obtain r2 s2 where r2: "fn path (Some ?d) (Some e) s1 = (r2, s2)" by force
    with fn s1 have "P s2" by (metis snd_conv)
    with r s1 inside Some r2 show ?thesis by (cases "kind = Directory") (auto simp: Let_def)
  qed
qed

lemma WalkDir_keeps:
  assumes "\<And>path od e s. P s \<Longrightarrow> P (snd (fn path od e s))" and "P s"
  shows "P (snd (WalkDir start root fn s))"
proof -
  let ?walk = "case start of Inl e \<Rightarrow> fn root None (Some e) s | Inr d \<Rightarrow> walk_entry fn root d s"
  obtain r s1 where r: "?walk = (r, s1)" by force
  have "P (snd ?walk)"
    using assms(1) [OF assms(2)] walk_entry_keeps [of P fn, OF assms(1), OF _ assms(2)]
    by (simp split: sum.split)
  with r show ?thesis by (simp add: WalkDir_def split: option.split walk_stop.split)
qed

text \<open>
  C39. Whatever the file system answers, the resource information is consistent: never more than
  1024 locations, all of them when \<open>moreLocations\<close> is not set, and \<open>hasResources\<close> exactly when the
  count is positive; the warnings are pairwise different and not blank.
\<close>

theorem indexSkillResources_consistent:
  assumes "indexSkillResources w env c rootDir = Inr (info, warnings)"
  shows "resources_consistent info \<and> distinct warnings \<and> [] \<notin> set warnings"
proof -
  let ?root = "trim_space rootDir"
  let ?run = "WalkDir (os_tree w ?root) ?root (scan_entry w env c ?root)
    \<lparr>sc_info = empty_resources, sc_warnings = []\<rparr>"
  have "scan_bounded (snd ?run)"
    by (rule WalkDir_keeps, rule scan_entry_bounded) (simp_all add: scan_bounded_def empty_resources_def)
  moreover obtain s where "?run = (None, s)" "info = finish_resources (sc_info s)"
    "warnings = uniqueStrings (sc_warnings s)"
    using assms by (auto simp: indexSkillResources_def Let_def split: prod.splits option.splits)
  ultimately show ?thesis
    by (auto simp: resources_consistent_def scan_bounded_def finish_resources_def uniqueStrings_eq)
qed

section \<open>A concrete skill directory\<close>

definition demo_tree :: dir_entry where
  "demo_tree = DirEntry ''demo'' Directory (Inr Directory)
     [DirEntry ''SKILL.md'' Regular (Inr Regular) [] None,
      DirEntry ''a'' Directory (Inr Directory) [DirEntry ''x.py'' Regular (Inr Regular) [] None] None,
      DirEntry ''link'' Symlink (Inr Symlink) [] None,
      DirEntry ''p'' Directory (Inr Directory) [] (Some (Msg ''permission denied''))] None"

definition demo_os :: os where
  "demo_os =
     \<lparr>os_goos = ''linux'', os_getwd = Inr ''/s'',
      os_eval_symlinks = (\<lambda>p. if p = ''/s/demo'' \<or> p = ''/l'' then Inr ''/s/demo'' else Inl (Msg ''no'')),
      os_stat = (\<lambda>p. if p = ''/s/demo'' then Inr Directory else Inl (Msg ''no'')),
      os_lstat = (\<lambda>p. if p = ''/s/demo/SKILL.md'' then Inr Regular else Inl (Msg ''no'')),
      os_open = (\<lambda>p. if p = ''/s/demo/SKILL.md'' then Inr (OpenFile demo_content None)
                      else Inl (Msg ''no'')),
      os_tree = (\<lambda>p. if p = ''/s/demo'' then Inr demo_tree else Inl (Msg ''no'')),
      os_error_text = (\<lambda>e. case e of Msg m \<Rightarrow> m | _ \<Rightarrow> [])\<rparr>"

theorem indexSkillResources_spec_witness:
  "indexSkillResources demo_os (demo_env []) None ''/s/demo'' =
     Inr (\<lparr>res_has_resources = True, res_total_count = 1, res_locations = [''a/x.py''],
            res_more_locations = False\<rparr>, [''resource scan skipped p: permission denied''])"
proof -
  have "IsAbs ''/s/demo''" "Clean ''/s/demo'' = ''/s/demo''" "trim_space ''/s/demo'' = ''/s/demo''"
    "os_tree demo_os ''/s/demo'' = Inr demo_tree" "names_ok demo_tree"
    by code_simp+
  moreover have "resources_of (List.map_filter found_of (tree_events (Inr demo_tree))) =
      \<lparr>res_has_resources = True, res_total_count = 1, res_locations = [''a/x.py''],
       res_more_locations = False\<rparr>"
    "uniqueStrings (List.map_filter (problem_of demo_os (demo_env [])) (tree_events (Inr demo_tree)))
     = [''resource scan skipped p: permission denied'']"
    by code_simp+
  ultimately show ?thesis
    using indexSkillResources_spec [of "''/s/demo''" demo_os "demo_env []"] by simp
qed

theorem indexSkillResources_consistent_witness:
  "resources_consistent \<lparr>res_has_resources = True, res_total_count = 1,
     res_locations = [''a/x.py''], res_more_locations = False\<rparr>"
proof -
  have "indexSkillResources demo_os (demo_env []) None ''/s/demo'' =
     Inr (\<lparr>res_has_resources = True, res_total_count = 1, res_locations = [''a/x.py''],
            res_more_locations = False\<rparr>, [''resource scan skipped p: permission denied''])"
    by code_simp
  from indexSkillResources_consistent [OF this] show ?thesis by simp
qed

end
