(* ===== verification/Provider_Contract.thy ===== *)
theory Provider_Contract
  imports Catalog_Theorems
begin

text \<open>
  What the catalog relies on in a \<open>spec.SkillProvider\<close>, as two contracts, and what it gives its
  callers on top of a provider that keeps them. Theory \<open>Fs_Provider_Correct\<close> shows that the
  file-system provider keeps both.
\<close>

section \<open>Indexing\<close>

text \<open>
  The checks of \<open>Catalog.Add\<close> as laws: indexing keeps the type and the name of the definition,
  returns a key that is not blank, and an insert hint that is normalised.
\<close>

definition addable :: "skill_def \<Rightarrow> bool" where
  "addable d \<longleftrightarrow> trim_space (def_type d) \<noteq> [] \<and> trim_space (def_name d) \<noteq> []
     \<and> trim_space (def_location d) \<noteq> []"

locale skill_provider =
  fixes p :: provider
  assumes index_type: "p_index p c d = Inr r \<Longrightarrow> key_type (idx_key r) = def_type d"
    and index_name: "p_index p c d = Inr r \<Longrightarrow> key_name (idx_key r) = def_name d"
    and index_location: "p_index p c d = Inr r \<Longrightarrow> trim_space (key_location (idx_key r)) \<noteq> []"
    and index_insert: "p_index p c d = Inr r \<Longrightarrow> NormalizeSkillInsert (idx_insert r) = (idx_insert r, True)"
begin

lemma add_index_iff:
  assumes "res (def_type d) = Some p"
  shows "add_index res c d = Inr idx \<longleftrightarrow> c = None \<and> addable d \<and> p_index p c d = Inr idx"
proof (cases "p_index p c d")
  case (Inl e)
  with assms show ?thesis by (simp add: add_index_def)
next
  case (Inr r)
  note r = index_type [OF Inr] index_name [OF Inr] index_location [OF Inr] index_insert [OF Inr]
  show ?thesis using assms by (auto simp: add_index_def addable_def Inr r)
qed

lemma Add_iff:
  assumes "res (def_type d) = Some p"
  shows "(\<exists>rec. fst (Add hx res c d cat) = Inr rec) \<longleftrightarrow>
    c = None \<and> addable d \<and> ResolveDef d cat = None
    \<and> (\<exists>idx. p_index p c d = Inr idx \<and> GetIndex (idx_key idx) cat = None)"
proof -
  have "Inr idx = add_index res c d \<longleftrightarrow> c = None \<and> addable d \<and> p_index p c d = Inr idx" for idx
    using add_index_iff [where res = res and d = d and c = c and idx = idx] assms by auto
  then show ?thesis
    by (cases "add_index res c d")
      (force simp: Add_def add_locked_def Let_def ResolveDef_def GetIndex_def)+
qed

end

section \<open>Loading\<close>

text \<open>
  Progressive disclosure: an index record has no body yet, and the body of a stable key that
  indexing has returned can be loaded.
\<close>

locale body_provider = skill_provider +
  fixes stable :: "provider_skill_key \<Rightarrow> bool"
  assumes index_body: "p_index p c d = Inr r \<Longrightarrow> idx_skill_body r = []"
    and index_loads: "p_index p c d = Inr r \<Longrightarrow> stable (idx_key r) \<Longrightarrow> \<exists>b. p_load_body p c (idx_key r) = Inr b"
begin

lemma Add_then_EnsureBody:
  assumes "res (def_type d) = Some p" and "no_loads cat"
    and "Add hx res None d cat = (Inr rec, cat')"
    and "p_index p None d = Inr idx" and "stable (idx_key idx)"
  shows "fst (EnsureBody res None (idx_key idx) cat') = p_load_body p None (idx_key idx)
    \<and> (\<exists>b. p_load_body p None (idx_key idx) = Inr b)"
proof -
  from assms(3) obtain idx' where idx': "add_index res None d = Inr idx'"
    "map_of (by_key cat) (idx_key idx') = None" "map_of (by_def cat) d = None"
    and cat': "cat' = recomputeLLMNamesLocked hx (cat\<lparr>by_key := AList.update (idx_key idx')
        \<lparr>e_def = d, e_idx = idx', body_loaded = (idx_skill_body idx' \<noteq> []), llm_name = [],
         body_wait = None, body_err = None\<rparr> (by_key cat),
      by_def := AList.update d (idx_key idx') (by_def cat)\<rparr>)"
    by (rule Add_Inr)
  have same: "idx' = idx" using add_index_iff [where res = res and d = d and c = None and idx = idx'] assms(1,4) idx'(1) by simp
  have quiet: "no_loads cat'"
    using assms(2) by (auto simp: cat' no_loads_def map_of_assign_names split: if_splits)
  have "\<exists>n. map_of (by_key cat') (idx_key idx) = Some \<lparr>e_def = d, e_idx = idx, body_loaded = False,
      llm_name = n, body_wait = None, body_err = None\<rparr>"
    using index_body [OF assms(4)] by (simp add: cat' same map_of_assign_names)
  then show ?thesis
    using EnsureBody_eq [OF quiet, of res "idx_key idx"] index_loads [OF assms(4,5)] assms(1)
      index_type [OF assms(4)]
    by (auto simp: Catalog.load_body_def Let_def)
qed

end

end
