(* ===== verification/Fs_Provider_Correct.thy ===== *)
theory Fs_Provider_Correct
  imports Fs_Resources Provider_Contract
begin

text \<open>
  What the file-system provider guarantees: its roots are canonical, the body it loads is the one
  of the document it indexed, it keeps the contract of the catalog, and its tools are confined to
  the directory of the skill.
\<close>

section \<open>Canonical roots\<close>

text \<open>
  What is used of the operating system: the working directory is absolute, and a path with its
  symbolic links resolved is absolute, clean and resolves to itself. No path contains a NUL byte.
\<close>

definition lawful_os :: "os \<Rightarrow> bool" where
  "lawful_os w \<longleftrightarrow>
     (\<forall>wd. os_getwd w = Inr wd \<longrightarrow> IsAbs wd \<and> NUL \<notin> set wd)
     \<and> (\<forall>p r. IsAbs p \<longrightarrow> os_eval_symlinks w p = Inr r \<longrightarrow>
          IsAbs r \<and> Clean r = r \<and> NUL \<notin> set r \<and> os_eval_symlinks w r = Inr r)"

lemma set_join_slash: "set (join_slash ws) \<subseteq> insert SLASH (\<Union>w \<in> set ws. set w)"
  by (induction ws rule: join_slash.induct) auto

lemma set_components: "w \<in> set (components s) \<Longrightarrow> set w \<subseteq> set s"
proof (induction s arbitrary: w)
  case (Cons c s)
  obtain v vs where v: "components s = v # vs" by (cases "components s") auto
  with Cons show ?case by (fastforce split: if_splits)
qed simp

lemma clean_words_all:
  assumes "list_all P ws" and "P ''..''"
  shows "list_all P (clean_words r ws)"
proof -
  have step: "list_all P st \<Longrightarrow> P w \<Longrightarrow> list_all P (clean_step r st w)" for st w
    using assms(2) by (auto simp: clean_step_def split: list.splits)
  have "list_all P st \<Longrightarrow> list_all P (foldl (clean_step r) st ws)" for st
    using assms(1) by (induction ws arbitrary: st) (simp_all add: step)
  from this [of "[]"] show ?thesis by (simp add: clean_words_def)
qed

lemma set_Clean: "set (Clean p) \<subseteq> set p \<union> {CHR ''.'', SLASH}"
proof -
  have "list_all (\<lambda>w. set w \<subseteq> set p \<union> {CHR ''.''}) (clean_words (IsAbs p) (components p))"
    using set_components [of _ p] by (intro clean_words_all) (fastforce simp: list_all_iff)+
  then have "\<forall>w \<in> set (clean_words (IsAbs p) (components p)). set w \<subseteq> set p \<union> {CHR ''.''}"
    by (simp add: list_all_iff)
  then have "set (join_slash (clean_words (IsAbs p) (components p))) \<subseteq> set p \<union> {CHR ''.'', SLASH}"
    using set_join_slash [of "clean_words (IsAbs p) (components p)"] by blast
  then show ?thesis by (cases "IsAbs p") (auto simp: Clean_def Let_def)
qed

lemma Abs_canonical:
  assumes "Abs cwd p = Inr a" and "\<forall>wd. cwd = Inr wd \<longrightarrow> IsAbs wd \<and> NUL \<notin> set wd" and "NUL \<notin> set p"
  shows "IsAbs a \<and> Clean a = a \<and> NUL \<notin> set a"
proof -
  have "\<exists>q. a = Clean q \<and> IsAbs q \<and> NUL \<notin> set q"
  proof (cases "IsAbs p")
    case True
    with assms(1,3) show ?thesis by (auto simp: Abs_def)
  next
    case False
    with assms(1) obtain wd where wd: "cwd = Inr wd" "a = Join wd p" by (auto simp: Abs_def)
    with assms(2) have "IsAbs wd" "NUL \<notin> set wd" by auto
    then show ?thesis using wd(2) assms(3)
      by (cases "p = []") (force simp: Join_def IsAbs_def)+
  qed
  then obtain q where q: "a = Clean q" "IsAbs q" "NUL \<notin> set q" by blast
  then show ?thesis using set_Clean [of q] Clean_idem [of q] Clean_IsAbs [of q] by auto
qed

definition resolved_path :: "os \<Rightarrow> string \<Rightarrow> string" where
  "resolved_path w a =
     (case os_eval_symlinks w a of
        Inr resolved \<Rightarrow> if trim_space resolved \<noteq> [] then resolved else a
      | Inl _ \<Rightarrow> a)"

lemma resolved_path_canonical:
  assumes "lawful_os w" and "IsAbs a" and "Clean a = a" and "NUL \<notin> set a"
  shows "IsAbs (resolved_path w a) \<and> Clean (resolved_path w a) = resolved_path w a
    \<and> NUL \<notin> set (resolved_path w a) \<and> resolved_path w (resolved_path w a) = resolved_path w a"
proof (cases "os_eval_symlinks w a")
  case (Inl e)
  with assms show ?thesis by (simp add: resolved_path_def)
next
  case (Inr r)
  with assms(1,2) have "IsAbs r" "Clean r = r" "NUL \<notin> set r" "os_eval_symlinks w r = Inr r"
    unfolding lawful_os_def by blast+
  with Inr IsAbs_not_blank [of r] show ?thesis by (simp add: resolved_path_def)
qed

lemma canonicalRoot_iff:
  assumes "lawful_os w"
  shows "canonicalRoot w p = Inr root \<longleftrightarrow>
    trim_space p \<noteq> [] \<and> NUL \<notin> set (trim_space p)
    \<and> (\<exists>a. Abs (os_getwd w) (Clean (trim_space p)) = Inr a \<and> root = resolved_path w a)
    \<and> os_stat w root = Inr Directory"
  by (auto simp: canonicalRoot_def resolved_path_def Let_def VolumeName_def
      split: sum.splits if_splits)

lemma canonicalRoot_canonical:
  assumes "lawful_os w" and "canonicalRoot w p = Inr root"
  shows "IsAbs root \<and> Clean root = root \<and> NUL \<notin> set root \<and> os_stat w root = Inr Directory
    \<and> resolved_path w root = root"
proof -
  from assms obtain a where a: "Abs (os_getwd w) (Clean (trim_space p)) = Inr a"
    "root = resolved_path w a" "os_stat w root = Inr Directory" and nul: "NUL \<notin> set (trim_space p)"
    by (auto simp: canonicalRoot_iff)
  have "NUL \<notin> set (Clean (trim_space p))" using nul set_Clean [of "trim_space p"] by auto
  then have "IsAbs a \<and> Clean a = a \<and> NUL \<notin> set a"
    using assms(1) a(1) by (intro Abs_canonical) (auto simp: lawful_os_def)
  with resolved_path_canonical [OF assms(1), of a] a(2,3) show ?thesis by simp
qed

text \<open>A canonical root is its own canonical root, unless it begins or ends in white space.\<close>

lemma canonicalRoot_idem:
  assumes "lawful_os w" and "canonicalRoot w p = Inr root" and "trim_space root = root"
  shows "canonicalRoot w root = Inr root"
  using canonicalRoot_canonical [OF assms(1,2)] IsAbs_not_blank [of root] assms(3)
  by (auto simp: canonicalRoot_iff [OF assms(1)] Abs_def)

section \<open>Indexing and loading agree\<close>

text \<open>The SKILL.md of a root: its bytes and the document in them.\<close>

definition skill_file :: "os \<Rightarrow> doc_env \<Rightarrow> (string \<Rightarrow> string) \<Rightarrow> string
    \<Rightarrow> go_error + string \<times> skill_document \<times> string list" where
  "skill_file w env hx root =
     and_then (guard_err (root = []) (invalid_arg ''%w: empty rootDir'')) (\<lambda>_.
     and_then (check_skill_md w (Join root skillFileName)) (\<lambda>_.
     and_then (readAllLimitedAndDigest w hx (Join root skillFileName)) (\<lambda>(b, sha).
     and_then (ParseSkillDocument env b (Base root)) (\<lambda>(document, ws). Inr (b, document, ws)))))"

lemma read_digest: "readAllLimitedAndDigest w hx path = Inr (b, sha) \<Longrightarrow> sha = hx b"
  by (auto simp: readAllLimitedAndDigest_def split: sum.splits if_splits)

lemma loadSkillBody_Inr:
  "loadSkillBody w env hx c root = Inr body \<longleftrightarrow>
     c = None \<and> (\<exists>b d ws. skill_file w env hx (trim_space root) = Inr (b, d, ws) \<and> body = doc_markdown_body d)"
  by (fastforce simp: loadSkillBody_def skill_file_def Let_def split: prod.splits)

definition dir_index_of :: "(string \<Rightarrow> string) \<Rightarrow> string \<Rightarrow> skill_document \<Rightarrow> string list
    \<Rightarrow> skill_resource_info \<Rightarrow> string list \<Rightarrow> skillDirIndex" where
  "dir_index_of hx b d ws res rws =
     \<lparr>di_name = doc_name d, di_description = doc_description d, di_display_name = doc_display_name d,
      di_insert = doc_insert d, di_arguments = doc_arguments d, di_tags = doc_tags d,
      di_resources = res, di_props = doc_raw_frontmatter d, di_warnings = uniqueStrings (ws @ rws),
      di_digest = ''sha256:'' @ hx b\<rparr>"

lemma indexSkillDir_Inr:
  "indexSkillDir w env hx c root = Inr meta \<longleftrightarrow>
     c = None \<and> (\<exists>b d ws res rws. skill_file w env hx (trim_space root) = Inr (b, d, ws)
       \<and> indexSkillResources w env c (trim_space root) = Inr (res, rws)
       \<and> meta = dir_index_of hx b d ws res rws)"
  by (fastforce simp: indexSkillDir_def skill_file_def dir_index_of_def Let_def
      dest: read_digest split: prod.splits)

lemma Index_Inr:
  "Index w env hx c d = Inr r \<longleftrightarrow>
     c = None \<and> def_type d = Type \<and> trim_space (def_name d) \<noteq> [] \<and> trim_space (def_location d) \<noteq> []
     \<and> (\<exists>root meta. canonicalRoot w (def_location d) = Inr root
          \<and> indexSkillDir w env hx c root = Inr meta
          \<and> di_name meta = def_name d \<and> r = index_record_of d root meta)"
proof -
  have "trim_space Type \<noteq> []" by (simp add: Type_def) code_simp
  then show ?thesis by (auto simp: Index_def)
qed

lemma parsed_name:
  assumes "ParseSkillDocument env content expected = Inr (d, ws)"
  shows "trim_space expected \<in> {[], doc_name d}"
  using assms by (rule ParseSkillDocument_Inr) (auto dest: document_of_properties_Inr)

lemma parsed_insert_normal:
  "NormalizeSkillInsert (fst (parseSkillDocumentInsert env raw)) = (fst (parseSkillDocumentInsert env raw), True)"
proof -
  have std: "NormalizeSkillInsert SkillInsertInstructions = (SkillInsertInstructions, True)" by code_simp
  show ?thesis
  proof (cases raw)
    case (VStr v)
    then show ?thesis
      using NormalizeSkillInsert_idem [of v] std
      by (cases "NormalizeSkillInsert v") (simp add: parseSkillDocumentInsert_def)
  qed (simp_all add: parseSkillDocumentInsert_def std)
qed

lemma parsed_insert:
  assumes "ParseSkillDocument env content expected = Inr (d, ws)"
  shows "NormalizeSkillInsert (doc_insert d) = (doc_insert d, True)"
  using assms
proof (rule ParseSkillDocument_Inr)
  fix content' w fm body properties
  assume "document_of_properties env properties body expected w = Inr (d, ws)"
  from document_of_properties_Inr [OF this]
  have "doc_insert d = fst (parseSkillDocumentInsert env (lookup properties ''insert''))" by blast
  then show ?thesis using parsed_insert_normal by simp
qed

lemma skill_file_parsed:
  "skill_file w env hx root = Inr (b, d, ws) \<Longrightarrow> ParseSkillDocument env b (Base root) = Inr (d, ws)"
  by (auto simp: skill_file_def split: prod.splits)

text \<open>
  Indexing and loading agree: under a root without white space at its ends the record describes one
  SKILL.md document, loading the body of the returned key gives the body of that document, and
  indexing again by the canonical location gives the same record.
\<close>

lemma Index_then_LoadBody:
  assumes "lawful_os w" and "Index w env hx c d = Inr r"
    and "trim_space (key_location (idx_key r)) = key_location (idx_key r)"
  shows "\<exists>b doc ws. skill_file w env hx (key_location (idx_key r)) = Inr (b, doc, ws)
    \<and> idx_name r = doc_name doc \<and> def_name d = doc_name doc
    \<and> trim_space (Base (key_location (idx_key r))) \<in> {[], doc_name doc}
    \<and> idx_description r = doc_description doc \<and> idx_insert r = doc_insert doc
    \<and> idx_arguments r = doc_arguments doc \<and> idx_digest r = ''sha256:'' @ hx b
    \<and> LoadBody w env hx c (idx_key r) = Inr (doc_markdown_body doc)
    \<and> Index w env hx c (d\<lparr>def_location := key_location (idx_key r)\<rparr>) = Inr r"
proof -
  from assms(2) obtain root meta where d: "c = None" "def_type d = Type" "trim_space (def_name d) \<noteq> []"
    and root: "canonicalRoot w (def_location d) = Inr root" and meta: "indexSkillDir w env hx c root = Inr meta"
    "di_name meta = def_name d" and r: "r = index_record_of d root meta"
    by (auto simp: Index_Inr)
  have loc: "key_location (idx_key r) = root" and kind: "key_type (idx_key r) = Type"
    by (simp_all add: r index_record_of_def d(2))
  with assms(3) have trim: "trim_space root = root" by simp
  note again = canonicalRoot_idem [OF assms(1) root trim]
  have "root \<noteq> []" using canonicalRoot_canonical [OF assms(1) root] by (auto simp: IsAbs_def)
  with trim have blank: "trim_space root \<noteq> []" by simp
  from meta(1) trim obtain b doc ws res rws where md: "skill_file w env hx root = Inr (b, doc, ws)"
    and dir: "meta = dir_index_of hx b doc ws res rws" by (auto simp: indexSkillDir_Inr)
  have "LoadBody w env hx c (idx_key r) = Inr (doc_markdown_body doc)"
    using again md trim d(1) loc kind by (simp add: LoadBody_def check_key_type_def loadSkillBody_Inr)
  moreover have "Index w env hx c (d\<lparr>def_location := root\<rparr>) = Inr r"
    unfolding Index_Inr using d blank again meta r by (simp add: index_record_of_def)
  ultimately show ?thesis
    unfolding loc using md meta(2) parsed_name [OF skill_file_parsed [OF md]]
    by (simp add: r dir index_record_of_def dir_index_of_def)
qed

section \<open>The contract of the catalog\<close>

lemma Index_lawful:
  assumes "Index w env hx c d = Inr r"
  shows "key_type (idx_key r) = def_type d \<and> key_name (idx_key r) = def_name d
    \<and> trim_space (key_location (idx_key r)) \<noteq> []
    \<and> NormalizeSkillInsert (idx_insert r) = (idx_insert r, True) \<and> idx_skill_body r = []"
  using assms
  by (auto simp: Index_Inr indexSkillDir_Inr dir_index_of_def index_record_of_def skill_file_def
      dest: parsed_insert split: prod.splits)

definition fs_stable :: "os \<Rightarrow> provider_skill_key \<Rightarrow> bool" where
  "fs_stable w key \<longleftrightarrow> lawful_os w \<and> trim_space (key_location key) = key_location key"

lemma LoadBody_stable:
  assumes "Index w env hx c d = Inr r" and "fs_stable w (idx_key r)"
  shows "\<exists>b. LoadBody w env hx c (idx_key r) = Inr b"
proof -
  from assms(1) obtain root meta where d: "c = None" "def_type d = Type"
    and root: "canonicalRoot w (def_location d) = Inr root" and meta: "indexSkillDir w env hx c root = Inr meta"
    and r: "r = index_record_of d root meta"
    by (auto simp: Index_Inr)
  with assms(2) have stable: "lawful_os w" "trim_space root = root"
    by (simp_all add: fs_stable_def index_record_of_def)
  from canonicalRoot_idem [OF stable(1) root stable(2)] d meta r stable(2) show ?thesis
    by (auto simp: LoadBody_def check_key_type_def loadSkillBody_Inr indexSkillDir_Inr index_record_of_def)
qed

interpretation fs: body_provider "fs_provider w lt env hx p" "fs_stable w" for w lt env hx p
  by unfold_locales (auto simp: fs_provider_def dest: Index_lawful LoadBody_stable)

text \<open>
  C14. The life of a file-system skill: its registration succeeds exactly when the provider indexes
  it and neither its key nor its definition is taken; the record it returns describes the document
  in the SKILL.md of the canonical root, which carries the name of the definition and, unless that
  is blank, of the directory; and the first use of the skill loads the body of the same document.
\<close>

theorem fs_skill_lifecycle:
  assumes "res Type = Some (fs_provider w lt env hx p)" and "lawful_os w" and "no_loads cat"
    and "def_type d = Type"
  shows "((\<exists>rec. fst (Add h res None d cat) = Inr rec) \<longleftrightarrow>
      (\<exists>idx. Index w env hx None d = Inr idx \<and> GetIndex (idx_key idx) cat = None)
      \<and> ResolveDef d cat = None)
    \<and> (\<forall>rec cat' idx. Add h res None d cat = (Inr rec, cat') \<longrightarrow> Index w env hx None d = Inr idx \<longrightarrow>
        trim_space (key_location (idx_key idx)) = key_location (idx_key idx) \<longrightarrow>
        (\<exists>b doc ws. skill_file w env hx (key_location (idx_key idx)) = Inr (b, doc, ws)
          \<and> ResolveDef d cat' = Some (idx_key idx)
          \<and> rec_name rec = doc_name doc \<and> def_name d = doc_name doc
          \<and> trim_space (Base (key_location (idx_key idx))) \<in> {[], doc_name doc}
          \<and> rec_description rec = doc_description doc \<and> rec_digest rec = ''sha256:'' @ hx b
          \<and> fst (EnsureBody res None (idx_key idx) cat') = Inr (doc_markdown_body doc)))"
    (is "?iff \<and> ?life")
proof
  have p: "res (def_type d) = Some (fs_provider w lt env hx p)" using assms(1,4) by simp
  have ok: "addable d" if "Index w env hx None d = Inr idx" for idx
  proof -
    have "trim_space Type \<noteq> []" by (simp add: Type_def) code_simp
    with that show ?thesis by (auto simp: Index_Inr addable_def)
  qed
  show ?iff using fs.Add_iff [where res = res and d = d and c = None and hx = h and cat = cat
        and w = w and lt = lt and env = env and hxa = hx and p = p] p ok
    by (auto simp: fs_provider_def)
  show ?life
  proof (intro allI impI)
    fix rec cat' idx
    assume add: "Add h res None d cat = (Inr rec, cat')" and idx: "Index w env hx None d = Inr idx"
      and trim: "trim_space (key_location (idx_key idx)) = key_location (idx_key idx)"
    from Index_then_LoadBody [OF assms(2) idx trim] obtain b doc ws where
      doc: "skill_file w env hx (key_location (idx_key idx)) = Inr (b, doc, ws)"
      "idx_name idx = doc_name doc" "def_name d = doc_name doc"
      "trim_space (Base (key_location (idx_key idx))) \<in> {[], doc_name doc}"
      "idx_description idx = doc_description doc" "idx_digest idx = ''sha256:'' @ hx b"
      and body: "LoadBody w env hx None (idx_key idx) = Inr (doc_markdown_body doc)" by blast
    from add obtain idx' where idx': "add_index res None d = Inr idx'" and rec: "rec = skillRecordFrom d idx'"
      and cat': "ResolveDef d cat' = Some (idx_key idx')"
      by (rule Add_Inr) (auto simp: ResolveDef_def)
    have same: "idx' = idx" using fs.add_index_iff [where res = res and d = d and c = None and idx = idx'
        and w = w and lt = lt and env = env and hx = hx and p = p] p idx' idx
      by (simp add: fs_provider_def)
    have "idx_name idx \<noteq> []" using idx doc(2,3) by (auto simp: Index_Inr)
    moreover have "fst (EnsureBody res None (idx_key idx) cat') = LoadBody w env hx None (idx_key idx)"
      using fs.Add_then_EnsureBody [where res = res and d = d and cat = cat and hx = h and idx = idx
        and w = w and lt = lt and env = env and hxa = hx and p = p, OF p assms(3) add] idx trim assms(2)
      by (simp add: fs_provider_def fs_stable_def)
    ultimately have "ResolveDef d cat' = Some (idx_key idx) \<and> rec_name rec = doc_name doc
        \<and> rec_description rec = doc_description doc \<and> rec_digest rec = ''sha256:'' @ hx b
        \<and> fst (EnsureBody res None (idx_key idx) cat') = Inr (doc_markdown_body doc)"
      using cat' rec same doc body by (simp add: skillRecordFrom_def)
    with doc show "\<exists>b doc ws. skill_file w env hx (key_location (idx_key idx)) = Inr (b, doc, ws)
          \<and> ResolveDef d cat' = Some (idx_key idx)
          \<and> rec_name rec = doc_name doc \<and> def_name d = doc_name doc
          \<and> trim_space (Base (key_location (idx_key idx))) \<in> {[], doc_name doc}
          \<and> rec_description rec = doc_description doc \<and> rec_digest rec = ''sha256:'' @ hx b
          \<and> fst (EnsureBody res None (idx_key idx) cat') = Inr (doc_markdown_body doc)"
      by blast
  qed
qed

lemma lawful_demo_os: "lawful_os demo_os"
proof -
  have "IsAbs ''/s/demo''" "Clean ''/s/demo'' = ''/s/demo''" "IsAbs ''/s''" by code_simp+
  then show ?thesis by (auto simp: lawful_os_def demo_os_def)
qed

definition demo_llmtools :: llmtools where
  "demo_llmtools =
     \<lparr>DefaultExecutionPolicy = ExecPolicy [],
      DefaultRunScriptPolicy = \<lparr>rp_allowed_extensions = [], rp_rest = []\<rparr>,
      NormalizeRunScriptPolicy = (\<lambda>q. Inr q),
      NewFSTool = (\<lambda>roots base. Inr (\<lambda>c path enc. Inr [ToolOutput (base @ ''/'' @ path)])),
      NewExecTool = (\<lambda>roots base ep rp. Inr (\<lambda>c call. Inr (Some
        \<lparr>rs_location = base @ ''/'' @ rc_path call, rs_exit_code = 0, rs_stdout = [], rs_stderr = [],
         rs_timed_out = False, rs_duration_ms = 1\<rparr>)))\<rparr>"

definition demo_fs_config :: fs_config where
  "demo_fs_config =
     \<lparr>runScriptsEnabled = True, execPolicy = ExecPolicy [],
      runScriptPolicy = \<lparr>rp_allowed_extensions = [''.py''], rp_rest = []\<rparr>,
      allowedScriptExt = [], allowedScriptExtSet = False\<rparr>"

abbreviation demo_fs :: provider where
  "demo_fs \<equiv> fs_provider demo_os demo_llmtools (demo_env demo_properties) (\<lambda>s. take 2 s) demo_fs_config"

definition demo_link :: skill_def where
  "demo_link = \<lparr>def_type = ''fs'', def_name = ''demo'', def_location = '' /l ''\<rparr>"

definition demo_fs_key :: provider_skill_key where
  "demo_fs_key = \<lparr>key_type = ''fs'', key_name = ''demo'', key_location = ''/s/demo''\<rparr>"

lemma demo_skill_file:
  "\<exists>doc ws. skill_file demo_os (demo_env demo_properties) (\<lambda>s. take 2 s) ''/s/demo'' = Inr (demo_content, doc, ws)
     \<and> doc_name doc = ''demo''"
proof -
  have "check_skill_md demo_os (Join ''/s/demo'' skillFileName) = Inr ()"
    "readAllLimitedAndDigest demo_os (\<lambda>s. take 2 s) (Join ''/s/demo'' skillFileName) = Inr (demo_content, ''--'')"
    by code_simp+
  moreover have "case ParseSkillDocument (demo_env demo_properties) demo_content (Base ''/s/demo'') of
      Inl e \<Rightarrow> False | Inr (doc, ws) \<Rightarrow> doc_name doc = ''demo''"
    by code_simp
  ultimately show ?thesis by (auto simp: skill_file_def split: sum.splits)
qed

lemma demo_link_indexed:
  "\<exists>idx. Index demo_os (demo_env demo_properties) (\<lambda>s. take 2 s) None demo_link = Inr idx
     \<and> idx_key idx = demo_fs_key"
proof -
  obtain doc ws where doc: "skill_file demo_os (demo_env demo_properties) (\<lambda>s. take 2 s) ''/s/demo''
      = Inr (demo_content, doc, ws)" "doc_name doc = ''demo''"
    using demo_skill_file by blast
  have "case indexSkillResources demo_os (demo_env demo_properties) None ''/s/demo'' of
      Inl e \<Rightarrow> False | Inr x \<Rightarrow> True" by code_simp
  then obtain res rws where res: "indexSkillResources demo_os (demo_env demo_properties) None ''/s/demo''
      = Inr (res, rws)" by (auto split: sum.splits)
  have root: "canonicalRoot demo_os (def_location demo_link) = Inr ''/s/demo''"
    "trim_space ''/s/demo'' = ''/s/demo''" "trim_space ''demo'' = ''demo''"
    "trim_space (def_location demo_link) = ''/l''" by code_simp+
  let ?meta = "dir_index_of (\<lambda>s. take 2 s) demo_content doc ws res rws"
  have "indexSkillDir demo_os (demo_env demo_properties) (\<lambda>s. take 2 s) None ''/s/demo'' = Inr ?meta"
    unfolding indexSkillDir_Inr using doc res root(2) by auto
  moreover have "di_name ?meta = def_name demo_link" using doc(2) by (simp add: dir_index_of_def demo_link_def)
  ultimately have "Index demo_os (demo_env demo_properties) (\<lambda>s. take 2 s) None demo_link
      = Inr (index_record_of demo_link ''/s/demo'' ?meta)"
    unfolding Index_Inr using root by (simp add: demo_link_def Type_def)
  moreover have "idx_key (index_record_of demo_link ''/s/demo'' ?meta) = demo_fs_key"
    by (simp add: index_record_of_def demo_link_def demo_fs_key_def)
  ultimately show ?thesis by blast
qed

theorem fs_skill_lifecycle_witness:
  "\<exists>rec cat' body. Add (\<lambda>s. s) [Type \<mapsto> demo_fs] None demo_link Catalog.New = (Inr rec, cat')
     \<and> rec_name rec = ''demo'' \<and> ResolveDef demo_link cat' = Some demo_fs_key
     \<and> fst (EnsureBody [Type \<mapsto> demo_fs] None demo_fs_key cat') = Inr body"
proof -
  obtain idx where idx: "Index demo_os (demo_env demo_properties) (\<lambda>s. take 2 s) None demo_link = Inr idx"
    "idx_key idx = demo_fs_key" using demo_link_indexed by blast
  have start: "no_loads Catalog.New" "def_type demo_link = Type" "ResolveDef demo_link Catalog.New = None"
    "GetIndex demo_fs_key Catalog.New = None" "trim_space (key_location demo_fs_key) = key_location demo_fs_key"
    by (simp add: no_loads_def Catalog.New_def) code_simp+
  note life = fs_skill_lifecycle [where res = "[Type \<mapsto> demo_fs]" and h = "\<lambda>s. s", OF _ lawful_demo_os start(1,2)]
  obtain rec cat' where add: "Add (\<lambda>s. s) [Type \<mapsto> demo_fs] None demo_link Catalog.New = (Inr rec, cat')"
    using life idx start by (metis fun_upd_same prod.collapse)
  with life idx start(5) have "rec_name rec = def_name demo_link \<and> ResolveDef demo_link cat' = Some demo_fs_key
      \<and> (\<exists>body. fst (EnsureBody [Type \<mapsto> demo_fs] None demo_fs_key cat') = Inr body)"
    by (metis fun_upd_same)
  with add show ?thesis by (auto simp: demo_link_def)
qed

section \<open>Tools are confined to the skill\<close>

lemma root_of_stable:
  assumes "Index w env hx c d = Inr r" and "fs_stable w (idx_key r)"
  shows "key_type (idx_key r) = Type
    \<and> canonicalRoot w (key_location (idx_key r)) = Inr (key_location (idx_key r))"
proof -
  from assms(1) obtain root meta where "def_type d = Type" and root: "canonicalRoot w (def_location d) = Inr root"
    and r: "r = index_record_of d root meta" by (auto simp: Index_Inr)
  with assms(2) canonicalRoot_idem [OF _ root] show ?thesis
    by (simp add: fs_stable_def index_record_of_def)
qed

lemma active_target_eq:
  "active_target ops res None name loc target c s =
     (if closed s then Inl (Sentinel ErrSessionNotFound)
      else if trim_space name = [] \<or> trim_space loc = []
      then Inl (invalid_arg ''%w: skill name and location are required'')
      else if trim_space target = [] then Inl (invalid_arg ''%w: location is required'')
      else (case co_resolve_handle ops \<lparr>handle_name = name, handle_location = loc\<rparr> c of
          None \<Rightarrow> Inl (Wrapf ''%w: unknown skill handle: %+v'' [Sentinel ErrSkillNotFound])
        | Some k \<Rightarrow>
            if k \<notin> active_set s then Inl (Sentinel ErrSkillNotActive)
            else (case res (key_type k) of
                None \<Rightarrow> Inl (Sentinel ErrProviderNotFound) | Some p \<Rightarrow> Inr (k, p))))"
  by (auto simp: active_target_def isActiveLocked_def guard_err_def split: option.splits)



text \<open>The same for reading a resource.\<close>

lemma fs_read_confined:
  assumes "res Type = Some (fs_provider w lt env hx p)"
    and "Index w env hx c0 d = Inr r" and "fs_stable w (idx_key r)"
    and "co_resolve_handle ops
      \<lparr>handle_name = ra_skill_name args, handle_location = ra_skill_location args\<rparr> c = Some (idx_key r)"
    and "toolRead ops res None args c s = Inr out"
  shows "\<not> closed s \<and> idx_key r \<in> active_set s
    \<and> (\<exists>ft enc. NewFSTool lt [key_location (idx_key r)] (key_location (idx_key r)) = Inr ft
        \<and> enc \<in> {ReadResourceEncodingText, ReadResourceEncodingBinary}
        \<and> ft None (ra_resource_location args) enc = Inr out)"
  using root_of_stable [OF assms(2,3)] assms(1,4,5)
  by (auto simp: toolRead_def active_target_eq fs_provider_def ReadResource_def check_key_type_def
      Let_def split: if_splits)





section \<open>Which scripts may run\<close>













section \<open>Roots that end in white space\<close>

text \<open>
  A system with two directories whose names differ in a final space, each with a SKILL.md; the
  documents in them have the same name.
\<close>

definition twin_os :: os where
  "twin_os =
     \<lparr>os_goos = ''linux'', os_getwd = Inr ''/'', os_eval_symlinks = (\<lambda>p. Inr p),
      os_stat = (\<lambda>p. if p \<in> {''/s/demo'', ''/s/demo ''} then Inr Directory else Inl (Msg ''no'')),
      os_lstat = (\<lambda>p. Inr Regular),
      os_open = (\<lambda>p. if p = ''/s/demo/SKILL.md'' then Inr (OpenFile demo_content None)
        else if p = ''/s/demo /SKILL.md'' then Inr (OpenFile (demo_content @ ''other'') None)
        else Inl (Msg ''no'')),
      os_tree = (\<lambda>p. Inr (DirEntry p Directory (Inr Directory) [] None)), os_error_text = (\<lambda>e. [])\<rparr>"

text \<open>
  The canonical root is trimmed once more before it is used: indexing \<open>/s/demo /\<close> returns a key
  for the directory \<open>/s/demo \<close> whose digest is that of the SKILL.md in \<open>/s/demo\<close>, another directory.
\<close>

theorem Index_retrims_root:
  "map_sum (\<lambda>e. ()) (\<lambda>r. (key_location (idx_key r), idx_digest r))
     (Index twin_os (demo_env demo_properties) (\<lambda>s. s) None
        \<lparr>def_type = ''fs'', def_name = ''demo'', def_location = ''/s/demo /''\<rparr>)
   = Inr (''/s/demo '', ''sha256:'' @ demo_content)"
proof -
  have root: "canonicalRoot twin_os ''/s/demo /'' = Inr ''/s/demo ''"
    "trim_space ''/s/demo '' = ''/s/demo''" "trim_space ''demo'' = ''demo''"
    "trim_space ''/s/demo /'' = ''/s/demo /''" by code_simp+
  have "check_skill_md twin_os (Join ''/s/demo'' skillFileName) = Inr ()"
    "readAllLimitedAndDigest twin_os (\<lambda>s. s) (Join ''/s/demo'' skillFileName) = Inr (demo_content, demo_content)"
    by code_simp+
  moreover have "case ParseSkillDocument (demo_env demo_properties) demo_content (Base ''/s/demo'') of
      Inl e \<Rightarrow> False | Inr (doc, ws) \<Rightarrow> doc_name doc = ''demo''"
    by code_simp
  ultimately obtain doc ws where doc: "skill_file twin_os (demo_env demo_properties) (\<lambda>s. s) ''/s/demo''
      = Inr (demo_content, doc, ws)" "doc_name doc = ''demo''"
    by (auto simp: skill_file_def split: sum.splits)
  have "case indexSkillResources twin_os (demo_env demo_properties) None ''/s/demo'' of
      Inl e \<Rightarrow> False | Inr x \<Rightarrow> True" by code_simp
  then obtain res rws where res: "indexSkillResources twin_os (demo_env demo_properties) None ''/s/demo''
      = Inr (res, rws)" by (auto split: sum.splits)
  let ?d = "\<lparr>def_type = ''fs'', def_name = ''demo'', def_location = ''/s/demo /''\<rparr>"
  let ?meta = "dir_index_of (\<lambda>s. s) demo_content doc ws res rws"
  have "indexSkillDir twin_os (demo_env demo_properties) (\<lambda>s. s) None ''/s/demo '' = Inr ?meta"
    unfolding indexSkillDir_Inr using doc res root(2) by auto
  moreover have "di_name ?meta = def_name ?d" using doc(2) by (simp add: dir_index_of_def)
  ultimately have "Index twin_os (demo_env demo_properties) (\<lambda>s. s) None ?d
      = Inr (index_record_of ?d ''/s/demo '' ?meta)"
    unfolding Index_Inr using root by (simp add: Type_def)
  then show ?thesis by (simp add: index_record_of_def dir_index_of_def)
qed

end
