(* ===== verification/Fs_Written.thy ===== *)
theory Fs_Written
  imports Fs_Provider_Correct
begin

text \<open>
  From a document to a skill: what \<open>MarshalSkillDocument\<close> writes, put into a directory, is what the
  file-system provider indexes and loads.
\<close>









end
