(* ===== verification/Session_Calls.thy ===== *)
theory Session_Calls
  imports Store_Correct
begin

text \<open>
  Calls on sessions and the removal of a skill as goroutines run them, at the grain of the locks:
  \<open>ActivateKeys\<close>, \<open>toolUnload\<close> and \<open>ActiveKeys\<close> of \<open>session.go\<close> and \<open>tools_impl.go\<close>, and \<open>RemoveSkill\<close> of
  \<open>runtime.go\<close>, which calls \<open>Remove\<close> and then \<open>PruneSkill\<close> (\<open>store.go\<close>). A call is at one of the points
  below; between two of its steps every other goroutine may run. A step is one critical section of
  the catalog or of the store, one section of a session's mutex without catalog calls, or one
  catalog call made while a session's mutex is held. The calls start after their guards, which
  change nothing but the last use of the session.
\<close>

section \<open>Points of a call\<close>

text \<open>
  \<open>Snapshot n\<close>: about to take the mutex, with \<open>n\<close> rounds left. \<open>Ensure\<close>, \<open>Recheck\<close>, \<open>Commit\<close>: in a round
  that read version \<open>v\<close> and computed the next list. \<open>Handles\<close>: in \<open>activeHandlesLocked\<close>, with the mutex
  held. \<open>Collect\<close>, \<open>Prune\<close>, \<open>PruneEnter\<close>, \<open>PruneLock\<close>: in \<open>PruneSkill\<close> and \<open>pruneKey\<close>.
\<close>

datatype call =
    Validate nat string "provider_skill_key list" "provider_skill_key list"
  | Snapshot nat nat string "provider_skill_key list"
  | Ensure nat nat string "provider_skill_key list" "64 word" "provider_skill_key list" "provider_skill_key list"
  | Recheck nat nat string "provider_skill_key list" "64 word" "provider_skill_key list" "provider_skill_key list"
  | Commit nat nat string "provider_skill_key list" "64 word" "provider_skill_key list"
  | Handles nat "provider_skill_key list" "skill_handle list" "provider_skill_key list"
  | Activated "go_error + skill_handle list"
  | Unload nat bool "provider_skill_key list"
  | ListKeys nat
  | ListCheck nat "provider_skill_key list" "provider_skill_key list" "provider_skill_key list"
  | ListPrune nat "provider_skill_key list" "provider_skill_key list"
  | Listed "provider_skill_key list"
  | RemoveCall skill_def
  | Collect provider_skill_key skill_record
  | Prune provider_skill_key skill_record "nat list"
  | PruneEnter provider_skill_key skill_record nat "nat list"
  | PruneLock provider_skill_key skill_record nat "nat list"
  | Removed "go_error + skill_record"

fun finished :: "call \<Rightarrow> bool" where
  "finished (Activated r) = True"
| "finished (Listed ks) = True"
| "finished (Removed r) = True"
| "finished _ = False"

text \<open>The call holds the mutex of a session between its steps.\<close>

fun holds :: "nat \<Rightarrow> call \<Rightarrow> bool" where
  "holds p (Handles q todo out missing) \<longleftrightarrow> q = p"
| "holds p _ \<longleftrightarrow> False"

section \<open>Sections of a session's mutex\<close>

definition snapshot_section ::
  "nat \<Rightarrow> nat \<Rightarrow> string \<Rightarrow> provider_skill_key list \<Rightarrow> session \<Rightarrow> call" where
  "snapshot_section n p m req s =
     (if closed s then Activated (Inl (Sentinel ErrSessionNotFound))
      else
        let nextOrder = next_order m req s in
        if 0 < max_active s \<and> max_active s < int (length nextOrder) then
          Activated (Inl (invalid_arg ''%w: too many active skills (%d > %d)''))
        else Ensure n p m req (state_version s) nextOrder nextOrder)"

definition commit_section ::
  "nat \<Rightarrow> nat \<Rightarrow> string \<Rightarrow> provider_skill_key list \<Rightarrow> 64 word \<Rightarrow> provider_skill_key list \<Rightarrow> session
   \<Rightarrow> call \<times> session" where
  "commit_section n p m req v nextOrder s =
     (if closed s then (Activated (Inl (Sentinel ErrSessionNotFound)), s)
      else if state_version s \<noteq> v then (Snapshot n p m req, s)
      else (Handles p nextOrder [] [],
            s\<lparr>active_set := set nextOrder, active_order := nextOrder,
              state_version := state_version s + 1\<rparr>))"

definition drop_missing :: "provider_skill_key list \<Rightarrow> session \<Rightarrow> session" where
  "drop_missing missing s =
     (if missing \<noteq> [] then
        s\<lparr>active_set := active_set s - set missing,
          active_order := filter (\<lambda>k. k \<notin> set missing) (active_order s),
          state_version := state_version s + 1\<rparr>
      else s)"

definition unload_section :: "bool \<Rightarrow> provider_skill_key list \<Rightarrow> session \<Rightarrow> session" where
  "unload_section all rm s =
     (if all then s\<lparr>active_set := {}, active_order := [], state_version := state_version s + 1\<rparr>
      else
        let newSet = active_set s - set rm in
        s\<lparr>active_set := newSet,
          active_order := filter (\<lambda>k. k \<notin> set rm \<and> k \<in> newSet) (active_order s),
          state_version := state_version s + 1\<rparr>)"

definition prune_section :: "provider_skill_key \<Rightarrow> session \<Rightarrow> session" where
  "prune_section k s =
     (if k \<notin> active_set s then s
      else s\<lparr>active_set := active_set s - {k}, state_version := state_version s + 1,
             active_order := filter (\<lambda>v. v \<noteq> k) (active_order s)\<rparr>)"

definition session_at :: "nat \<Rightarrow> store \<Rightarrow> session" where
  "session_at p st = the (sessions st p)"

definition put_session :: "nat \<Rightarrow> session \<Rightarrow> store \<Rightarrow> store" where
  "put_session p s st = st\<lparr>sessions := (sessions st)(p \<mapsto> s)\<rparr>"

section \<open>Steps of a call\<close>

text \<open>
  \<open>busy p\<close>: another goroutine holds the mutex of the session \<open>p\<close>, so that taking it has to wait
  (\<open>None\<close>). What \<open>EnsureBody\<close> returns is open (\<open>r\<close>); its own critical sections are steps of the
  environment.
\<close>

fun activate_point ::
  "(go_error + string) \<Rightarrow> (nat \<Rightarrow> bool) \<Rightarrow> call \<Rightarrow> catalog \<Rightarrow> store \<Rightarrow> (call \<times> store) option" where
  "activate_point r busy (Validate p m [] req) c st = Some (Snapshot 5 p m req, st)"
| "activate_point r busy (Validate p m (k # ks) req) c st =
     Some (if k \<in> set req then Validate p m ks req
           else (case GetIndex k c of
               None \<Rightarrow> Activated (Inl (Wrapf ''%w: unknown skill key: %+v'' [Sentinel ErrSkillNotFound]))
             | Some idx \<Rightarrow>
                 if fst (NormalizeSkillInsert (idx_insert idx)) \<noteq> SkillInsertInstructions then
                   Activated (Inl (invalid_arg
                     ''%w: only insert=instructions skills can be activated in a session''))
                 else Validate p m ks (req @ [k])), st)"
| "activate_point r busy (Snapshot 0 p m req) c st =
     Some (Activated (Inl (invalid_arg ''%w: concurrent session modification; please retry'')), st)"
| "activate_point r busy (Snapshot (Suc n) p m req) c st =
     (if busy p then None else Some (snapshot_section n p m req (session_at p st), st))"
| "activate_point r busy (Ensure n p m req v nextOrder []) c st =
     Some (Recheck n p m req v nextOrder nextOrder, st)"
| "activate_point r busy (Ensure n p m req v nextOrder (k # ks)) c st =
     Some (case r of Inl e \<Rightarrow> Activated (Inl e) | Inr body \<Rightarrow> Ensure n p m req v nextOrder ks, st)"
| "activate_point r busy (Recheck n p m req v nextOrder []) c st =
     Some (Commit n p m req v nextOrder, st)"
| "activate_point r busy (Recheck n p m req v nextOrder (k # ks)) c st =
     Some (if GetIndex k c = None then Activated (Inl (Sentinel ErrSkillNotFound))
           else Recheck n p m req v nextOrder ks, st)"
| "activate_point r busy (Commit n p m req v nextOrder) c st =
     (if busy p then None
      else (case commit_section n p m req v nextOrder (session_at p st) of
              (x, s) \<Rightarrow> Some (x, put_session p s st)))"
| "activate_point r busy _ c st = None"

fun handles_point :: "call \<Rightarrow> catalog \<Rightarrow> store \<Rightarrow> (call \<times> store) option" where
  "handles_point (Handles p [] out missing) c st =
     Some (Activated (Inr out), put_session p (drop_missing missing (session_at p st)) st)"
| "handles_point (Handles p (k # ks) out missing) c st =
     Some (case HandleForKey k c of
             None \<Rightarrow> Handles p ks out (missing @ [k])
           | Some h \<Rightarrow> Handles p ks (out @ [h]) missing, st)"
| "handles_point _ c st = None"

definition unload_point :: "(nat \<Rightarrow> bool) \<Rightarrow> nat \<Rightarrow> bool \<Rightarrow> provider_skill_key list \<Rightarrow> store
    \<Rightarrow> (call \<times> store) option" where
  "unload_point busy p all rm st =
     (if busy p then None
      else
        let s = unload_section all rm (session_at p st)
        in Some (Handles p (active_order s) [] [], put_session p s st))"

fun list_point :: "(nat \<Rightarrow> bool) \<Rightarrow> call \<Rightarrow> catalog \<Rightarrow> store \<Rightarrow> (call \<times> store) option" where
  "list_point busy (ListKeys p) c st =
     (if busy p then None else Some (ListCheck p (active_order (session_at p st)) [] [], st))"
| "list_point busy (ListCheck p [] out missing) c st =
     Some (if missing \<noteq> [] then ListPrune p out missing else Listed out, st)"
| "list_point busy (ListCheck p (k # ks) out missing) c st =
     Some (if HandleForKey k c = None then ListCheck p ks out (missing @ [k])
           else ListCheck p ks (out @ [k]) missing, st)"
| "list_point busy (ListPrune p out missing) c st =
     (if busy p then None
      else Some (Listed out, put_session p (pruneKeys missing (session_at p st)) st))"
| "list_point busy _ c st = None"

fun prune_point :: "(nat \<Rightarrow> bool) \<Rightarrow> call \<Rightarrow> store \<Rightarrow> (call \<times> store) option" where
  "prune_point busy (Collect key rec) st =
     Some (Prune key rec (filter (\<lambda>p. \<not> session_closed p st) (map fst (lru st))), st)"
| "prune_point busy (Prune key rec []) st = Some (Removed (Inr rec), st)"
| "prune_point busy (Prune key rec (p # ps)) st =
     Some (if session_closed p st then Prune key rec ps else PruneEnter key rec p ps, st)"
| "prune_point busy (PruneEnter key rec p ps) st =
     Some (if session_closed p st then Prune key rec ps else PruneLock key rec p ps, st)"
| "prune_point busy (PruneLock key rec p ps) st =
     (if busy p then None
      else Some (Prune key rec ps, put_session p (prune_section key (session_at p st)) st))"
| "prune_point busy _ st = None"

definition remove_point :: "(string \<Rightarrow> string) \<Rightarrow> skill_def \<Rightarrow> catalog \<Rightarrow> call \<times> catalog" where
  "remove_point hx d c =
     (case Remove hx d c of
        (None, c') \<Rightarrow> (Removed (Inl (Sentinel ErrSkillNotFound)), c')
      | (Some (rec, key), c') \<Rightarrow> (Collect key rec, c'))"

definition advance ::
  "(string \<Rightarrow> string) \<Rightarrow> (go_error + string) \<Rightarrow> (nat \<Rightarrow> bool) \<Rightarrow> call \<Rightarrow> catalog \<Rightarrow> store
   \<Rightarrow> (call \<times> catalog \<times> store) option" where
  "advance hx r busy x c st =
     (case x of
        RemoveCall d \<Rightarrow> (case remove_point hx d c of (y, c') \<Rightarrow> Some (y, c', st))
      | Handles p todo out missing \<Rightarrow> map_option (\<lambda>(y, st'). (y, c, st')) (handles_point x c st)
      | Unload p all rm \<Rightarrow> map_option (\<lambda>(y, st'). (y, c, st')) (unload_point busy p all rm st)
      | ListKeys p \<Rightarrow> map_option (\<lambda>(y, st'). (y, c, st')) (list_point busy x c st)
      | ListCheck p todo out missing \<Rightarrow> map_option (\<lambda>(y, st'). (y, c, st')) (list_point busy x c st)
      | ListPrune p out missing \<Rightarrow> map_option (\<lambda>(y, st'). (y, c, st')) (list_point busy x c st)
      | Collect key rec \<Rightarrow> map_option (\<lambda>(y, st'). (y, c, st')) (prune_point busy x st)
      | Prune key rec ps \<Rightarrow> map_option (\<lambda>(y, st'). (y, c, st')) (prune_point busy x st)
      | PruneEnter key rec p ps \<Rightarrow> map_option (\<lambda>(y, st'). (y, c, st')) (prune_point busy x st)
      | PruneLock key rec p ps \<Rightarrow> map_option (\<lambda>(y, st'). (y, c, st')) (prune_point busy x st)
      | _ \<Rightarrow> map_option (\<lambda>(y, st'). (y, c, st')) (activate_point r busy x c st))"

section \<open>The system\<close>

record race =
  rc_catalog :: catalog
  rc_store :: store
  rc_calls :: "call list"

definition held :: "call list \<Rightarrow> nat \<Rightarrow> bool" where
  "held xs p \<longleftrightarrow> (\<exists>x \<in> set xs. holds p x)"

inductive call_step :: "(string \<Rightarrow> string) \<Rightarrow> race \<Rightarrow> race \<Rightarrow> bool" for hx where
  CallStep: "i < length xs \<Longrightarrow> advance hx r (held xs) (xs ! i) c st = Some (y, c', st') \<Longrightarrow>
    call_step hx \<lparr>rc_catalog = c, rc_store = st, rc_calls = xs\<rparr>
      \<lparr>rc_catalog = c', rc_store = st', rc_calls = xs[i := y]\<rparr>"

text \<open>
  The environment: the critical sections of body loads, registrations of skills, and what the
  store does for other calls (also for the ones above: each touches the store first).
\<close>

inductive catalog_change :: "(string \<Rightarrow> string) \<Rightarrow> catalog \<Rightarrow> catalog \<Rightarrow> bool" for hx where
  LoadEnter: "catalog_change hx c (snd (ensure_enter k c))"
| LoadFinish: "catalog_change hx c (finishBodyLoad k ch r c)"
| Register: "catalog_change hx c (snd (Add hx res ctx d c))"

inductive store_change :: "store \<Rightarrow> store \<Rightarrow> bool" where
  Touch: "store_change st (touch now sid st)"
| Lookup: "store_change st (snd (Get now sid st))"
| Close: "store_change st (Delete sid st)"
| Open: "st1 = evictOverLimitLocked (evictExpiredLocked now st) \<Longrightarrow> ids st1 sid = None \<Longrightarrow>
    store_change st (snd (push_session now sid n st1))"

inductive env_step :: "(string \<Rightarrow> string) \<Rightarrow> race \<Rightarrow> race \<Rightarrow> bool" for hx where
  EnvCatalog: "catalog_change hx c c' \<Longrightarrow>
    env_step hx \<lparr>rc_catalog = c, rc_store = st, rc_calls = xs\<rparr>
      \<lparr>rc_catalog = c', rc_store = st, rc_calls = xs\<rparr>"
| EnvStore: "store_change st st' \<Longrightarrow>
    env_step hx \<lparr>rc_catalog = c, rc_store = st, rc_calls = xs\<rparr>
      \<lparr>rc_catalog = c, rc_store = st', rc_calls = xs\<rparr>"

text \<open>New calls, on sessions that exist.\<close>

fun fresh_call :: "store \<Rightarrow> call \<Rightarrow> bool" where
  "fresh_call st (Validate p m ks req) \<longleftrightarrow> req = [] \<and> sessions st p \<noteq> None"
| "fresh_call st (Unload p all rm) \<longleftrightarrow> sessions st p \<noteq> None"
| "fresh_call st (ListKeys p) \<longleftrightarrow> sessions st p \<noteq> None"
| "fresh_call st (RemoveCall d) \<longleftrightarrow> True"
| "fresh_call st _ \<longleftrightarrow> False"

inductive arrive_step :: "race \<Rightarrow> race \<Rightarrow> bool" where
  Arrive: "fresh_call st x \<Longrightarrow>
    arrive_step \<lparr>rc_catalog = c, rc_store = st, rc_calls = xs\<rparr>
      \<lparr>rc_catalog = c, rc_store = st, rc_calls = xs @ [x]\<rparr>"

definition race_step :: "(string \<Rightarrow> string) \<Rightarrow> race \<Rightarrow> race \<Rightarrow> bool" where
  "race_step hx s t \<longleftrightarrow> call_step hx s t \<or> env_step hx s t \<or> arrive_step s t"

inductive_cases call_stepE: "call_step hx s t"

end
