(* ===== verification/Session_Concurrency.thy ===== *)
theory Session_Concurrency
  imports Session_Calls
begin

text \<open>
  What holds however calls on sessions, removals, loads and registrations interleave: a removed
  skill stays in no open session, every session stays well-formed, one goroutine at a time holds
  a session's mutex, nothing deadlocks, and all calls return.
\<close>

section \<open>What a call still has to do\<close>

text \<open>
  The call will yet look at the skill in the session, or take it out: it is in the handle loop
  that has the skill before it or has missed it, or it removes the skill and has not passed the
  session.
\<close>

fun cares :: "provider_skill_key \<Rightarrow> nat \<Rightarrow> call \<Rightarrow> bool" where
  "cares k p (Handles q todo out missing) \<longleftrightarrow> q = p \<and> k \<in> set todo \<union> set missing"
| "cares k p (Collect key rec) \<longleftrightarrow> key = k"
| "cares k p (Prune key rec ps) \<longleftrightarrow> key = k \<and> p \<in> set ps"
| "cares k p (PruneEnter key rec q ps) \<longleftrightarrow> key = k \<and> p \<in> set (q # ps)"
| "cares k p (PruneLock key rec q ps) \<longleftrightarrow> key = k \<and> p \<in> set (q # ps)"
| "cares k p _ \<longleftrightarrow> False"

definition gone :: "provider_skill_key \<Rightarrow> nat \<Rightarrow> store \<Rightarrow> bool" where
  "gone k p st \<longleftrightarrow> (\<forall>s. sessions st p = Some s \<longrightarrow> closed s \<or> k \<notin> active_set s)"

text \<open>The lists a call carries fit its session.\<close>

definition order_ok :: "store \<Rightarrow> nat \<Rightarrow> provider_skill_key list \<Rightarrow> bool" where
  "order_ok st p xs \<longleftrightarrow> distinct xs \<and>
     (\<exists>s. sessions st p = Some s \<and> (0 < max_active s \<longrightarrow> int (length xs) \<le> max_active s))"

definition present :: "store \<Rightarrow> nat \<Rightarrow> bool" where
  "present st p \<longleftrightarrow> sessions st p \<noteq> None"

fun call_ok :: "store \<Rightarrow> call \<Rightarrow> bool" where
  "call_ok st (Validate p m ks req) \<longleftrightarrow> distinct req \<and> present st p"
| "call_ok st (Snapshot n p m req) \<longleftrightarrow> distinct req \<and> present st p"
| "call_ok st (Ensure n p m req v xs ks) \<longleftrightarrow> distinct req \<and> order_ok st p xs"
| "call_ok st (Recheck n p m req v xs ks) \<longleftrightarrow> distinct req \<and> order_ok st p xs"
| "call_ok st (Commit n p m req v xs) \<longleftrightarrow> distinct req \<and> order_ok st p xs"
| "call_ok st (Handles p ks out missing) \<longleftrightarrow> present st p"
| "call_ok st (Unload p all rm) \<longleftrightarrow> present st p"
| "call_ok st (ListKeys p) \<longleftrightarrow> present st p"
| "call_ok st (ListCheck p ks out missing) \<longleftrightarrow> present st p"
| "call_ok st (ListPrune p out missing) \<longleftrightarrow> present st p"
| "call_ok st (Prune key rec ps) \<longleftrightarrow> (\<forall>p \<in> set ps. present st p)"
| "call_ok st (PruneEnter key rec p ps) \<longleftrightarrow> (\<forall>p \<in> set (p # ps). present st p)"
| "call_ok st (PruneLock key rec p ps) \<longleftrightarrow> (\<forall>p \<in> set (p # ps). present st p)"
| "call_ok st _ \<longleftrightarrow> True"

text \<open>Sessions stay where they are and keep their limit.\<close>

definition sessions_kept :: "store \<Rightarrow> store \<Rightarrow> bool" where
  "sessions_kept st st' \<longleftrightarrow>
     (\<forall>p s. sessions st p = Some s \<longrightarrow> (\<exists>s'. sessions st' p = Some s' \<and> max_active s' = max_active s))"

lemma sessions_keptD:
  "sessions_kept st st' \<Longrightarrow> sessions st p = Some s \<Longrightarrow> \<exists>s'. sessions st' p = Some s' \<and> max_active s' = max_active s"
  by (simp add: sessions_kept_def)

lemma sessions_kept_refl [simp]: "sessions_kept st st"
  by (simp add: sessions_kept_def)

lemma present_kept: "sessions_kept st st' \<Longrightarrow> present st p \<Longrightarrow> present st' p"
  by (auto simp: present_def dest: sessions_keptD)

lemma order_ok_kept: "sessions_kept st st' \<Longrightarrow> order_ok st p xs \<Longrightarrow> order_ok st' p xs"
  by (fastforce simp: order_ok_def dest: sessions_keptD)

lemma call_ok_kept: "sessions_kept st st' \<Longrightarrow> call_ok st x \<Longrightarrow> call_ok st' x"
  by (cases x) (auto intro: order_ok_kept present_kept)

section \<open>The sections of the mutex\<close>

text \<open>An update of a session under its mutex.\<close>

definition section_ok :: "session \<Rightarrow> session \<Rightarrow> bool" where
  "section_ok s s' \<longleftrightarrow>
     wf_session s' \<and> s_id s' = s_id s \<and> closed s' = closed s \<and> max_active s' = max_active s"

lemma section_ok_refl [simp]: "section_ok s s \<longleftrightarrow> wf_session s"
  by (simp add: section_ok_def)

lemma section_ok_filter:
  "wf_session s \<Longrightarrow> section_ok s (s\<lparr>active_set := active_set s - X,
     active_order := filter (\<lambda>k. k \<notin> X) (active_order s), state_version := v\<rparr>)"
  using wf_session_filter by (simp add: section_ok_def)

lemma section_ok_drop [simp]: "wf_session s \<Longrightarrow> section_ok s (drop_missing missing s)"
  by (simp add: drop_missing_def section_ok_filter)

lemma section_ok_prune [simp]: "wf_session s \<Longrightarrow> section_ok s (prune_section k s)"
  by (auto simp: prune_section_def section_ok_def wf_session_def length_filter_int)

lemma section_ok_pruneKeys [simp]: "wf_session s \<Longrightarrow> section_ok s (pruneKeys ks s)"
  by (simp add: pruneKeys_def section_ok_filter)

lemma section_ok_unload [simp]:
  assumes "wf_session s"
  shows "section_ok s (unload_section all rm s)"
proof -
  have "filter (\<lambda>k. k \<notin> set rm \<and> k \<in> active_set s - set rm) (active_order s)
      = filter (\<lambda>k. k \<notin> set rm) (active_order s)"
    using assms by (auto simp: wf_session_def intro: filter_cong)
  then show ?thesis using section_ok_filter [OF assms, where X = "set rm"]
    by (auto simp: unload_section_def Let_def section_ok_def wf_session_def)
qed

lemma section_ok_commit:
  assumes "commit_section n p m req v xs s = (y, s')" and "wf_session s" and "distinct xs"
    and "0 < max_active s \<longrightarrow> int (length xs) \<le> max_active s"
  shows "section_ok s s'"
  using assms by (auto simp: commit_section_def section_ok_def wf_session_def split: if_splits)

lemma active_drop: "k \<in> active_set (drop_missing missing s) \<longleftrightarrow> k \<in> active_set s \<and> k \<notin> set missing"
  by (auto simp: drop_missing_def)

lemma active_prune: "k \<in> active_set (prune_section key s) \<longleftrightarrow> k \<in> active_set s \<and> k \<noteq> key"
  by (auto simp: prune_section_def)

lemma active_pruneKeys: "k \<in> active_set (pruneKeys ks s) \<Longrightarrow> k \<in> active_set s"
  by (auto simp: pruneKeys_def split: if_splits)

lemma active_unload: "wf_session s \<Longrightarrow> k \<in> active_set (unload_section all rm s) \<Longrightarrow> k \<in> active_set s"
  by (auto simp: unload_section_def split: if_splits)

text \<open>The closed test that \<open>pruneKey\<close> makes before it locks.\<close>

lemma pruneKey_section: "pruneKey k s = (if closed s then s else prune_section k s)"
  by (simp add: pruneKey_def prune_section_def)

section \<open>What one step changes\<close>

text \<open>
  A step leaves the store alone or updates one session under its mutex; skills it adds there are
  skills it will look at.
\<close>

definition step_effect :: "store \<Rightarrow> call \<Rightarrow> store \<Rightarrow> bool" where
  "step_effect st y st' \<longleftrightarrow> st' = st \<or>
     (\<exists>p s s'. sessions st p = Some s \<and> st' = put_session p s' st \<and> section_ok s s'
        \<and> (\<forall>k \<in> active_set s'. k \<in> active_set s \<or> cares k p y))"

lemma step_effect_same [simp]: "step_effect st y st"
  by (simp add: step_effect_def)

lemma step_effect_put:
  "sessions st p = Some s \<Longrightarrow> section_ok s s' \<Longrightarrow> (\<And>k. k \<in> active_set s' \<Longrightarrow> k \<in> active_set s \<or> cares k p y) \<Longrightarrow>
     step_effect st y (put_session p s' st)"
  unfolding step_effect_def by blast

lemma sessions_put [simp]: "sessions (put_session p s st) = (sessions st)(p \<mapsto> s)"
  by (simp add: put_session_def)

lemma put_same: "sessions st p = Some s \<Longrightarrow> put_session p s st = st"
  by (simp add: put_session_def fun_upd_idem)

lemma session_at_Some [simp]: "sessions st p = Some s \<Longrightarrow> session_at p st = s"
  by (simp add: session_at_def)

lemma kept_put: "sessions st p = Some s \<Longrightarrow> section_ok s s' \<Longrightarrow> sessions_kept st (put_session p s' st)"
  by (auto simp: sessions_kept_def section_ok_def)

lemma step_effect_kept: "step_effect st y st' \<Longrightarrow> sessions_kept st st'"
  by (auto simp: step_effect_def intro: kept_put)

lemma wf_sessionsD: "wf_store st \<Longrightarrow> sessions st p = Some s \<Longrightarrow> wf_session s"
  using wf_tableD(6) by (auto simp: wf_store_def)

lemma step_effect_wf: "step_effect st y st' \<Longrightarrow> wf_store st \<Longrightarrow> wf_store st'"
  by (auto simp: step_effect_def put_session_def section_ok_def intro: wf_update_session)

text \<open>
  For each kind of step: the effect on the store, the lists of the call after it, and what it
  still cares for.
\<close>

definition point_ok :: "store \<Rightarrow> (nat \<Rightarrow> bool) \<Rightarrow> call \<Rightarrow> call \<Rightarrow> catalog \<Rightarrow> store \<Rightarrow> bool" where
  "point_ok st busy x y c' st' \<longleftrightarrow>
     step_effect st y st' \<and> call_ok st' y
     \<and> (\<forall>k p. cares k p x \<longrightarrow> cares k p y \<or> GetIndex k c' \<noteq> None \<or> gone k p st')
     \<and> (\<forall>p. holds p y \<longrightarrow> holds p x \<or> \<not> busy p)"

lemma order_ok_next:
  assumes "wf_session s" and "sessions st p = Some s" and "distinct req"
    and "\<not> (0 < max_active s \<and> max_active s < int (length (next_order m req s)))"
  shows "order_ok st p (next_order m req s)"
  using assms next_order_distinct [OF assms(1,3)] by (auto simp: order_ok_def)

lemma snapshot_ok:
  assumes "wf_store st" and "call_ok st (Snapshot (Suc n) p m req)"
  shows "point_ok st busy (Snapshot (Suc n) p m req) (snapshot_section n p m req (session_at p st)) c st"
proof -
  from assms(2) obtain s where s: "sessions st p = Some s" by (auto simp: present_def)
  note wf = wf_sessionsD [OF assms(1) s]
  from assms(2) s show ?thesis
    by (auto simp: point_ok_def snapshot_section_def Let_def intro!: order_ok_next [OF wf s])
qed

lemma commit_ok:
  assumes "wf_store st" and "call_ok st (Commit n p m req v xs)" and "\<not> busy p"
    and "commit_section n p m req v xs (session_at p st) = (y, s')"
  shows "point_ok st busy (Commit n p m req v xs) y c (put_session p s' st)"
proof -
  from assms(2) obtain s where s: "sessions st p = Some s" "distinct xs"
    "0 < max_active s \<longrightarrow> int (length xs) \<le> max_active s"
    by (auto simp: order_ok_def)
  with assms(4) have c: "commit_section n p m req v xs s = (y, s')" by simp
  have "step_effect st y (put_session p s' st)"
    using s(1) section_ok_commit [OF c wf_sessionsD [OF assms(1) s(1)] s(2,3)]
    by (rule step_effect_put) (use c in \<open>auto simp: commit_section_def split: if_splits\<close>)
  moreover have "call_ok (put_session p s' st) y" "\<forall>q. holds q y \<longrightarrow> \<not> busy q"
    using c assms(2,3) by (auto simp: commit_section_def present_def split: if_splits)
  ultimately show ?thesis by (simp add: point_ok_def)
qed

lemma activate_ok:
  assumes "activate_point r busy x c st = Some (y, st')" and "wf_store st" and "call_ok st x"
  shows "point_ok st busy x y c st'"
proof (cases x)
  case (Validate p m ks req)
  with assms(1,3) show ?thesis
    by (cases ks) (auto simp: point_ok_def split: option.splits if_splits)
next
  case (Snapshot n p m req)
  show ?thesis
  proof (cases n)
    case (Suc k)
    with Snapshot assms snapshot_ok [OF assms(2), of k p m req busy c] show ?thesis
      by (auto split: if_splits)
  qed (use Snapshot assms(1) in \<open>auto simp: point_ok_def\<close>)
next
  case (Ensure n p m req v xs ks)
  with assms(1,3) show ?thesis by (cases ks) (auto simp: point_ok_def split: sum.splits)
next
  case (Recheck n p m req v xs ks)
  with assms(1,3) show ?thesis by (cases ks) (auto simp: point_ok_def split: if_splits)
next
  case (Commit n p m req v xs)
  with assms commit_ok show ?thesis by (auto split: if_splits prod.splits)
qed (use assms(1) in simp_all)

lemma handles_end_ok:
  assumes "wf_store st" and "call_ok st (Handles p [] out missing)"
  shows "point_ok st busy (Handles p [] out missing) (Activated (Inr out)) c
    (put_session p (drop_missing missing (session_at p st)) st)"
proof -
  from assms(2) obtain s where s: "sessions st p = Some s" by (auto simp: present_def)
  note wf = wf_sessionsD [OF assms(1) s]
  have "step_effect st (Activated (Inr out)) (put_session p (drop_missing missing s) st)"
    using wf by (intro step_effect_put [OF s]) (auto simp: active_drop)
  with s show ?thesis by (auto simp: point_ok_def gone_def active_drop)
qed

lemma handles_ok:
  assumes "handles_point x c st = Some (y, st')" and "wf_store st" and "call_ok st x"
  shows "point_ok st busy x y c st'"
proof (cases x)
  case (Handles p ks out missing)
  show ?thesis
  proof (cases ks)
    case Nil
    with Handles assms handles_end_ok [of st p out missing] show ?thesis by auto
  next
    case (Cons k ks')
    with Handles assms show ?thesis
      by (auto simp: point_ok_def HandleForKey_def GetIndex_def split: option.splits)
  qed
qed (use assms(1) in simp_all)

lemma unload_ok:
  assumes "unload_point busy p all rm st = Some (y, st')" and "wf_store st" and "call_ok st (Unload p all rm)"
  shows "point_ok st busy (Unload p all rm) y c st'"
proof -
  from assms(3) obtain s where s: "sessions st p = Some s" by (auto simp: present_def)
  note wf = wf_sessionsD [OF assms(2) s]
  let ?s = "unload_section all rm s"
  from assms(1) s have y: "y = Handles p (active_order ?s) [] []" "st' = put_session p ?s st" "\<not> busy p"
    by (auto simp: unload_point_def Let_def split: if_splits)
  have "step_effect st y st'"
    unfolding y(2) using wf by (intro step_effect_put [OF s]) (auto dest: active_unload)
  with y show ?thesis by (auto simp: point_ok_def present_def)
qed

lemma list_prune_ok:
  assumes "wf_store st" and "call_ok st (ListPrune p out missing)"
  shows "point_ok st busy (ListPrune p out missing) (Listed out) c
    (put_session p (pruneKeys missing (session_at p st)) st)"
proof -
  from assms(2) obtain s where s: "sessions st p = Some s" by (auto simp: present_def)
  note wf = wf_sessionsD [OF assms(1) s]
  have "step_effect st (Listed out) (put_session p (pruneKeys missing s) st)"
    using wf by (intro step_effect_put [OF s]) (auto dest: active_pruneKeys)
  with s show ?thesis by (simp add: point_ok_def)
qed

lemma list_ok:
  assumes "list_point busy x c st = Some (y, st')" and "wf_store st" and "call_ok st x"
  shows "point_ok st busy x y c st'"
proof (cases x)
  case (ListCheck p ks out missing)
  with assms(1,3) show ?thesis by (cases ks) (auto simp: point_ok_def split: if_splits)
next
  case (ListPrune p out missing)
  with assms list_prune_ok show ?thesis by (auto split: if_splits)
qed (use assms(1,3) in \<open>auto simp: point_ok_def split: if_splits\<close>)

lemma closed_gone: "session_closed p st \<Longrightarrow> gone k p st"
  by (auto simp: session_closed_def gone_def)

lemma collect_ok:
  assumes "wf_store st"
  shows "point_ok st busy (Collect key rec)
    (Prune key rec (filter (\<lambda>p. \<not> session_closed p st) (map fst (lru st)))) c st"
proof -
  have w: "wf_table st" using assms by (simp add: wf_store_def)
  have "gone k p st \<or> \<not> session_closed p st \<and> p \<in> fst ` set (lru st)" for k p
    using wf_tableD(6) [OF w, of p] by (cases "sessions st p") (auto simp: gone_def session_closed_def in_lru_def)
  moreover have "present st p" if "p \<in> fst ` set (lru st)" for p
    using wf_tableD(4) [OF w, of p] that by (auto simp: in_lru_def present_def)
  ultimately show ?thesis by (auto simp: point_ok_def)
qed

lemma prune_lock_ok:
  assumes "wf_store st" and "call_ok st (PruneLock key rec p ps)"
  shows "point_ok st busy (PruneLock key rec p ps) (Prune key rec ps) c
    (put_session p (prune_section key (session_at p st)) st)"
proof -
  from assms(2) obtain s where s: "sessions st p = Some s" by (auto simp: present_def)
  note wf = wf_sessionsD [OF assms(1) s]
  have eff: "step_effect st (Prune key rec ps) (put_session p (prune_section key s) st)"
    using wf by (intro step_effect_put [OF s]) (auto simp: active_prune)
  with s assms(2) call_ok_kept [OF step_effect_kept [OF eff], of "Prune key rec ps"] show ?thesis
    by (auto simp: point_ok_def gone_def active_prune)
qed

lemma prune_ok:
  assumes "prune_point busy x st = Some (y, st')" and "wf_store st" and "call_ok st x"
  shows "point_ok st busy x y c st'"
proof (cases x)
  case (Collect key rec)
  with assms collect_ok show ?thesis by auto
next
  case (Prune key rec ps)
  with assms(1,3) show ?thesis by (cases ps) (auto simp: point_ok_def closed_gone split: if_splits)
next
  case (PruneEnter key rec p ps)
  with assms(1,3) show ?thesis by (auto simp: point_ok_def closed_gone split: if_splits)
next
  case (PruneLock key rec p ps)
  with assms prune_lock_ok show ?thesis by (auto split: if_splits)
qed (use assms(1) in simp_all)

lemma Remove_knows:
  assumes "Remove hx d c = (r, c')" and "GetIndex k c \<noteq> None" and "GetIndex k c' = None"
  shows "\<exists>rec. r = Some (rec, k)"
  using assms
  by (auto simp: Remove_def GetIndex_def Let_def close_wait_def map_of_assign_names
      simp del: map_of_eq_Some_iff split: option.splits if_splits)

text \<open>The kind of a step.\<close>

lemma keep_catalog_Some:
  "map_option (\<lambda>(y, st'). (y, c, st')) z = Some (y, c', st') \<longleftrightarrow> z = Some (y, st') \<and> c' = c"
  by auto

lemma advance_kinds:
  assumes "advance hx r busy x c st = Some (y, c', st')"
  shows "(\<exists>d. x = RemoveCall d \<and> remove_point hx d c = (y, c') \<and> st' = st)
    \<or> activate_point r busy x c st = Some (y, st') \<and> c' = c
    \<or> handles_point x c st = Some (y, st') \<and> c' = c
    \<or> (\<exists>p all rm. x = Unload p all rm \<and> unload_point busy p all rm st = Some (y, st')) \<and> c' = c
    \<or> list_point busy x c st = Some (y, st') \<and> c' = c
    \<or> prune_point busy x st = Some (y, st') \<and> c' = c"
  using assms
  by (cases x) (auto simp: advance_def keep_catalog_Some split_beta prod_eq_iff
      simp del: activate_point.simps handles_point.simps list_point.simps prune_point.simps)

lemma advance_cases:
  assumes "advance hx r busy x c st = Some (y, c', st')"
  obtains (remove) d where "x = RemoveCall d" "remove_point hx d c = (y, c')" "st' = st"
  | (activate) "activate_point r busy x c st = Some (y, st')" "c' = c"
  | (handles) "handles_point x c st = Some (y, st')" "c' = c"
  | (unload) p all rm where "x = Unload p all rm" "unload_point busy p all rm st = Some (y, st')" "c' = c"
  | (list) "list_point busy x c st = Some (y, st')" "c' = c"
  | (prune) "prune_point busy x st = Some (y, st')" "c' = c"
  using advance_kinds [OF assms] by blast

text \<open>
  A step of a call: what was said of the kinds of steps, and skills leave the catalog only by a
  removal that then cares for them in every session.
\<close>

lemma advance_ok:
  assumes "advance hx r busy x c st = Some (y, c', st')" and "wf_store st" and "call_ok st x"
  shows "point_ok st busy x y c' st'
    \<and> (\<forall>k. GetIndex k c \<noteq> None \<longrightarrow> GetIndex k c' \<noteq> None \<or> (\<forall>p. cares k p y))"
  using assms(1)
proof (cases rule: advance_cases)
  case (remove d)
  obtain rr c'' where rm: "Remove hx d c = (rr, c'')" by fastforce
  with remove have y: "c' = c''"
    "y = (case rr of None \<Rightarrow> Removed (Inl (Sentinel ErrSkillNotFound)) | Some (rec, key) \<Rightarrow> Collect key rec)"
    by (auto simp: remove_point_def split: option.splits)
  have "GetIndex k c' \<noteq> None \<or> (\<forall>p. cares k p y)" if "GetIndex k c \<noteq> None" for k
    using Remove_knows [OF rm that] y by (cases "GetIndex k c'") auto
  with remove y show ?thesis by (auto simp: point_ok_def split: option.splits)
next
  case activate
  from activate_ok [OF activate(1) assms(2,3)] activate(2) show ?thesis by simp
next
  case handles
  from handles_ok [OF handles(1) assms(2,3)] handles(2) show ?thesis by simp
next
  case (unload p all rm)
  with unload_ok [of busy p all rm st y st'] assms(2,3) show ?thesis by simp
next
  case list
  from list_ok [OF list(1) assms(2,3)] list(2) show ?thesis by simp
next
  case prune
  from prune_ok [OF prune(1) assms(2,3)] prune(2) show ?thesis by simp
qed

section \<open>The invariant\<close>

definition covered :: "catalog \<Rightarrow> store \<Rightarrow> call list \<Rightarrow> bool" where
  "covered c st xs \<longleftrightarrow>
     (\<forall>k p. gone k p st \<or> GetIndex k c \<noteq> None \<or> (\<exists>x \<in> set xs. cares k p x))"

definition one_holder :: "call list \<Rightarrow> bool" where
  "one_holder xs \<longleftrightarrow>
     (\<forall>i j p. i < length xs \<longrightarrow> j < length xs \<longrightarrow> holds p (xs ! i) \<longrightarrow> holds p (xs ! j) \<longrightarrow> i = j)"

definition race_ok :: "race \<Rightarrow> bool" where
  "race_ok s \<longleftrightarrow> wf_store (rc_store s) \<and> (\<forall>x \<in> set (rc_calls s). call_ok (rc_store s) x)
     \<and> one_holder (rc_calls s) \<and> covered (rc_catalog s) (rc_store s) (rc_calls s)"

lemma race_ok_iff: "race_ok \<lparr>rc_catalog = c, rc_store = st, rc_calls = xs\<rparr> \<longleftrightarrow>
    wf_store st \<and> (\<forall>x \<in> set xs. call_ok st x) \<and> one_holder xs \<and> covered c st xs"
  by (simp add: race_ok_def)

lemma covered_mono:
  assumes "covered c st xs" and "\<And>k p. gone k p st \<Longrightarrow> gone k p st'"
    and "\<And>k. GetIndex k c \<noteq> None \<Longrightarrow> GetIndex k c' \<noteq> None"
  shows "covered c' st' xs"
  using assms unfolding covered_def by blast

lemma set_update_cases: "x \<in> set (xs[i := y]) \<Longrightarrow> x = y \<or> x \<in> set xs"
  using set_update_subset_insert [of xs i y] by auto

lemma ex_update:
  assumes "i < length xs" and "x \<in> set xs" and "P x"
  shows "P (xs ! i) \<or> (\<exists>x \<in> set (xs[i := y]). P x)"
proof -
  from assms(2) obtain j where "j < length xs" "x = xs ! j" by (auto simp: in_set_conv_nth)
  moreover from this have "j \<noteq> i \<Longrightarrow> xs ! j \<in> set (xs[i := y])"
    by (metis length_list_update nth_list_update_neq nth_mem)
  ultimately show ?thesis using assms(3) by (cases "j = i") auto
qed

lemma in_update: "i < length xs \<Longrightarrow> y \<in> set (xs[i := y])"
  by (rule set_update_memI)

lemma gone_effect:
  assumes "step_effect st y st'" and "gone k p st"
  shows "gone k p st' \<or> cares k p y"
  using assms(1) unfolding step_effect_def
proof (elim disjE exE conjE)
  fix q s s'
  assume "sessions st q = Some s" "st' = put_session q s' st" "section_ok s s'"
    "\<forall>k \<in> active_set s'. k \<in> active_set s \<or> cares k q y"
  with assms(2) show ?thesis by (auto simp: gone_def section_ok_def)
qed (use assms(2) in simp)

lemma one_holder_update:
  assumes "one_holder xs" and "i < length xs"
    and "\<forall>p. holds p y \<longrightarrow> holds p (xs ! i) \<or> \<not> held xs p"
  shows "one_holder (xs[i := y])"
  using assms by (auto simp: one_holder_def held_def nth_list_update dest: nth_mem)

lemma call_step_ok:
  assumes "call_step hx s t" and "race_ok s"
  shows "race_ok t"
proof -
  from assms(1) obtain i xs r c st y c' st' where
    st: "s = \<lparr>rc_catalog = c, rc_store = st, rc_calls = xs\<rparr>"
      "t = \<lparr>rc_catalog = c', rc_store = st', rc_calls = xs[i := y]\<rparr>"
    and i: "i < length xs" and adv: "advance hx r (held xs) (xs ! i) c st = Some (y, c', st')"
    by (rule call_stepE)
  from st(1) i assms(2) have s: "wf_store st" "call_ok st (xs ! i)" "\<forall>x \<in> set xs. call_ok st x"
    "one_holder xs" "covered c st xs" by (auto simp: race_ok_def)
  note a = advance_ok [OF adv s(1,2)]
  from a have eff: "step_effect st y st'" by (simp add: point_ok_def)
  have "call_ok st' x" if "x \<in> set (xs[i := y])" for x
    using set_update_cases [OF that] a s(3) call_ok_kept [OF step_effect_kept [OF eff]]
    by (auto simp: point_ok_def)
  moreover have "one_holder (xs[i := y])"
    using s(4) i a by (intro one_holder_update) (auto simp: point_ok_def)
  moreover have "gone k p st' \<or> GetIndex k c' \<noteq> None \<or> (\<exists>x \<in> set (xs[i := y]). cares k p x)" for k p
  proof -
    have y: "cares k p y \<Longrightarrow> ?thesis" using in_update [OF i] by blast
    from s(5) consider "gone k p st" | "GetIndex k c \<noteq> None" | x where "x \<in> set xs" "cares k p x"
      unfolding covered_def by blast
    then show ?thesis
    proof cases
      case 3
      with ex_update [OF i, of x "cares k p" y] a y show ?thesis by (auto simp: point_ok_def)
    qed (use gone_effect [OF eff, of k p] a y in blast)+
  qed
  ultimately show ?thesis
    using st(2) step_effect_wf [OF eff s(1)] by (simp add: race_ok_def covered_def)
qed

text \<open>What the environment does keeps all of it.\<close>

lemma catalog_change_knows:
  assumes "catalog_change hx c c'" and "GetIndex k c \<noteq> None"
  shows "GetIndex k c' \<noteq> None"
  using assms(1)
proof (cases rule: catalog_change.cases)
  case (Register res ctx d)
  then obtain r where a: "Add hx res ctx d c = (r, c')" by (metis prod.collapse)
  show ?thesis
  proof (cases r)
    case (Inl e)
    with a Add_Inl [of hx res ctx d c e] assms(2) show ?thesis by simp
  next
    case (Inr rec)
    with a have "Add hx res ctx d c = (Inr rec, c')" by simp
    then show ?thesis
      by (rule Add_Inr) (use assms(2) in \<open>simp add: GetIndex_def map_of_assign_names\<close>)
  qed
qed (use assms(2) in \<open>auto simp: GetIndex_def ensure_enter_def finishBodyLoad_def Let_def
      simp del: map_of_eq_Some_iff split: option.splits\<close>)

lemma objects_kept_Get: "objects_kept st (snd (Get now sid st))"
  using objects_kept_trans [OF objects_kept_evictExpired objects_kept_delete]
    objects_kept_trans [OF objects_kept_evictExpired objects_kept_move]
  by (auto simp: Get_def Let_def split: option.splits)

lemma objects_kept_Delete: "objects_kept st (Delete sid st)"
  by (simp add: Delete_def split: option.splits)

lemma objects_kept_sessions: "objects_kept st st' \<Longrightarrow> sessions_kept st st'"
  by (fastforce simp: sessions_kept_def dest: objects_keptD)

lemma objects_kept_gone: "objects_kept st st' \<Longrightarrow> gone k p st \<Longrightarrow> gone k p st'"
  unfolding gone_def objects_kept_def
  by (cases "sessions st p") (fastforce+)

lemma wf_makeRoom: "wf_store st \<Longrightarrow> wf_store (evictOverLimitLocked (evictExpiredLocked now st))"
  using evictOverLimit_id [OF wf_evictExpired] wf_evictExpired by simp

lemma push_kept:
  assumes "wf_store st" and "ids st sid = None"
  shows "sessions_kept st (snd (push_session now sid n st))"
    and "gone k p st \<Longrightarrow> gone k p (snd (push_session now sid n st))"
proof -
  let ?p = "next_ptr st"
  let ?st = "st\<lparr>lru := (?p, now) # lru st, ids := (ids st)(sid \<mapsto> ?p),
      sessions := (sessions st)(?p \<mapsto> newSession sid n), next_ptr := Suc ?p\<rparr>"
  have new: "sessions st ?p = None"
    using assms(1) wf_tableD(6) [of st ?p] by (cases "sessions st ?p") (auto simp: wf_store_def)
  have "objects_kept ?st (snd (push_session now sid n st))"
    unfolding push_session_def Let_def snd_conv by (rule objects_kept_evictOverLimit)
  note kept = objects_kept_sessions [OF this] objects_kept_gone [OF this, of k p]
  have "sessions_kept st ?st" using new by (auto simp: sessions_kept_def)
  with kept(1) show "sessions_kept st (snd (push_session now sid n st))"
    unfolding sessions_kept_def by fastforce
  show "gone k p (snd (push_session now sid n st))" if "gone k p st"
    by (rule kept(2)) (use that in \<open>auto simp: gone_def\<close>)
qed

lemma store_change_ok:
  assumes "store_change st st'" and "wf_store st"
  shows "wf_store st' \<and> sessions_kept st st' \<and> (\<forall>k p. gone k p st \<longrightarrow> gone k p st')"
  using assms(1)
proof (cases rule: store_change.cases)
  case (Open st1 now sid n)
  have wf: "wf_store st1" using Open(2) wf_makeRoom [OF assms(2)] by simp
  have kept: "objects_kept st st1" unfolding Open(2)
    by (rule objects_kept_trans [OF objects_kept_evictExpired objects_kept_evictOverLimit])
  obtain p where "push_session now sid n st1 = (p, st')" using Open(1) by (metis prod.collapse)
  then have "wf_store st'" using push_session_effect [OF wf Open(3)] by simp
  moreover have "sessions_kept st st'"
    using objects_kept_sessions [OF kept] push_kept(1) [OF wf Open(3), of now n] Open(1)
    unfolding sessions_kept_def by fastforce
  moreover have "gone k q st'" if "gone k q st" for k q
    using push_kept(2) [OF wf Open(3) objects_kept_gone [OF kept that]] Open(1) by simp
  ultimately show ?thesis by simp
qed (auto simp: assms(2) wf_touch wf_Get wf_Delete
      intro: objects_kept_sessions objects_kept_gone objects_kept_touch objects_kept_Get objects_kept_Delete)

lemma env_step_ok:
  assumes "env_step hx s t" and "race_ok s"
  shows "race_ok t"
  using assms(1)
proof (cases rule: env_step.cases)
  case (EnvCatalog c c' st xs)
  from assms(2) have s: "wf_store st" "\<forall>x \<in> set xs. call_ok st x" "one_holder xs" "covered c st xs"
    unfolding EnvCatalog(1) race_ok_iff by blast+
  have "covered c' st xs" using s(4) by (rule covered_mono) (use catalog_change_knows [OF EnvCatalog(3)] in blast)+
  with s show ?thesis unfolding EnvCatalog(2) race_ok_iff by blast
next
  case (EnvStore st st' c xs)
  from assms(2) have s: "wf_store st" "\<forall>x \<in> set xs. call_ok st x" "one_holder xs" "covered c st xs"
    unfolding EnvStore(1) race_ok_iff by blast+
  note new = store_change_ok [OF EnvStore(3) s(1)]
  have "covered c st' xs" using s(4) by (rule covered_mono) (use new in blast)+
  with s new call_ok_kept [of st st'] show ?thesis unfolding EnvStore(2) race_ok_iff by blast
qed

lemma arrive_step_ok:
  assumes "arrive_step s t" and "race_ok s"
  shows "race_ok t"
  using assms(1)
proof (cases rule: arrive_step.cases)
  case (Arrive st x c xs)
  from Arrive(3) have x: "call_ok st x" "\<not> holds p x" for p by (cases x; simp add: present_def)+
  have "one_holder (xs @ [x])"
    using assms(2) Arrive x(2) by (auto simp: race_ok_def one_holder_def nth_append split: if_splits)
  then show ?thesis using assms(2) Arrive x(1) by (fastforce simp: race_ok_def covered_def)
qed

text \<open>
  A beginning: a well-formed store whose open sessions hold only skills of the catalog, and no call
  under way.
\<close>

definition race_init :: "race \<Rightarrow> bool" where
  "race_init s \<longleftrightarrow> rc_calls s = [] \<and> wf_store (rc_store s)
     \<and> (\<forall>k p. gone k p (rc_store s) \<or> GetIndex k (rc_catalog s) \<noteq> None)"

lemma race_init_ok: "race_init s \<Longrightarrow> race_ok s"
  by (simp add: race_init_def race_ok_def one_holder_def covered_def)

interpretation races: transition_system race_init "race_step hx" race_ok for hx
  by unfold_locales (auto simp: race_init_ok race_step_def intro: call_step_ok env_step_ok arrive_step_ok)

section \<open>A removed skill is active nowhere\<close>

text \<open>The call removes the skill and is not back.\<close>

fun removing :: "provider_skill_key \<Rightarrow> call \<Rightarrow> bool" where
  "removing k (Collect key rec) \<longleftrightarrow> key = k"
| "removing k (Prune key rec ps) \<longleftrightarrow> key = k"
| "removing k (PruneEnter key rec p ps) \<longleftrightarrow> key = k"
| "removing k (PruneLock key rec p ps) \<longleftrightarrow> key = k"
| "removing k _ \<longleftrightarrow> False"

lemma cares_cases: "cares k p x \<Longrightarrow> holds p x \<or> removing k x"
  by (cases x) auto

lemma race_active:
  assumes "race_init s0" and "(race_step hx)\<^sup>*\<^sup>* s0 s"
    and "sessions (rc_store s) p = Some t" and "\<not> closed t" and "k \<in> active_set t"
    and "\<not> held (rc_calls s) p" and "\<forall>x \<in> set (rc_calls s). \<not> removing k x"
  shows "GetIndex k (rc_catalog s) \<noteq> None"
proof -
  have "covered (rc_catalog s) (rc_store s) (rc_calls s)"
    using races.reachable_inv [OF assms(1,2)] by (simp add: race_ok_def)
  moreover have "\<not> gone k p (rc_store s)" using assms(3-5) by (auto simp: gone_def)
  ultimately show ?thesis using assms(6,7) cares_cases unfolding covered_def held_def by blast
qed

text \<open>
  C9. However activations, unloads, listings, removals, registrations, loads and store operations
  interleave: when a skill is not in the catalog and no removal of it is still running, no open
  session whose mutex is free has it active, and every session is well-formed and within its limit.
\<close>

theorem removal_reaches_sessions:
  assumes "race_init s0" and "(race_step hx)\<^sup>*\<^sup>* s0 s"
    and "sessions (rc_store s) p = Some t" and "\<not> closed t" and "\<not> held (rc_calls s) p"
    and "\<forall>x \<in> set (rc_calls s). \<not> removing k x" and "GetIndex k (rc_catalog s) = None"
  shows "\<not> isActiveLocked k t \<and> k \<notin> set (active_order t)
    \<and> (0 < max_active t \<longrightarrow> int (length (active_order t)) \<le> max_active t)"
proof -
  have "wf_session t"
    using races.reachable_inv [OF assms(1,2)] wf_sessionsD assms(3) by (auto simp: race_ok_def)
  moreover have "k \<notin> active_set t" using race_active [OF assms(1-4) _ assms(5,6)] assms(7) by blast
  ultimately show ?thesis by (simp add: wf_session_def isActiveLocked_def)
qed

section \<open>Every call returns\<close>

text \<open>
  How far a call is from its end: the stage, the rounds left, the part of the round, the length of
  the list it walks. A list is as long as the session is at the time, so the order is lexicographic.
\<close>

fun rank :: "call \<Rightarrow> nat \<times> nat \<times> nat \<times> nat" where
  "rank (Validate p m ks req) = (3, 0, 0, length ks)"
| "rank (Snapshot n p m req) = (2, n, 0, 0)"
| "rank (Ensure n p m req v xs ks) = (2, n, 3, length ks)"
| "rank (Recheck n p m req v xs ks) = (2, n, 2, length ks)"
| "rank (Commit n p m req v xs) = (2, n, 1, 0)"
| "rank (Handles p ks out missing) = (1, 0, 0, length ks)"
| "rank (Unload p all rm) = (2, 0, 0, 0)"
| "rank (ListKeys p) = (2, 0, 0, 0)"
| "rank (ListCheck p ks out missing) = (1, 1, 0, length ks)"
| "rank (ListPrune p out missing) = (1, 0, 0, 0)"
| "rank (RemoveCall d) = (3, 0, 0, 0)"
| "rank (Collect key rec) = (2, 0, 0, 0)"
| "rank (Prune key rec ps) = (1, 0, length ps, 0)"
| "rank (PruneEnter key rec p ps) = (1, 0, length ps, 2)"
| "rank (PruneLock key rec p ps) = (1, 0, length ps, 1)"
| "rank (Activated r) = (0, 0, 0, 0)"
| "rank (Listed ks) = (0, 0, 0, 0)"
| "rank (Removed r) = (0, 0, 0, 0)"

definition rank_less :: "((nat \<times> nat \<times> nat \<times> nat) \<times> (nat \<times> nat \<times> nat \<times> nat)) set" where
  "rank_less = less_than <*lex*> less_than <*lex*> less_than <*lex*> less_than"

lemma wf_rank_less: "wf rank_less"
  unfolding rank_less_def by (intro wf_lex_prod wf_less_than)

lemma in_rank_less [simp]:
  "((a, b, c, d), (a', b', c', d')) \<in> rank_less \<longleftrightarrow>
     a < a' \<or> a = a' \<and> (b < b' \<or> b = b' \<and> (c < c' \<or> c = c' \<and> d < d'))"
  by (simp add: rank_less_def)

lemma activate_rank:
  "activate_point r busy x c st = Some (y, st') \<Longrightarrow> (rank y, rank x) \<in> rank_less"
  by (induction r busy x c st rule: activate_point.induct)
    (auto simp: snapshot_section_def commit_section_def Let_def split: option.splits sum.splits if_splits prod.splits)

lemma handles_rank: "handles_point x c st = Some (y, st') \<Longrightarrow> (rank y, rank x) \<in> rank_less"
  by (induction x c st rule: handles_point.induct) (auto split: option.splits)

lemma list_rank: "list_point busy x c st = Some (y, st') \<Longrightarrow> (rank y, rank x) \<in> rank_less"
  by (induction busy x c st rule: list_point.induct) (auto split: if_splits)

lemma prune_rank: "prune_point busy x st = Some (y, st') \<Longrightarrow> (rank y, rank x) \<in> rank_less"
  by (induction busy x st rule: prune_point.induct) (auto split: if_splits)

lemma advance_rank:
  assumes "advance hx r busy x c st = Some (y, c', st')"
  shows "(rank y, rank x) \<in> rank_less"
  using assms
proof (cases rule: advance_cases)
  case (remove d)
  then show ?thesis by (auto simp: remove_point_def split: prod.splits option.splits)
next
  case (unload p all rm)
  then show ?thesis by (auto simp: unload_point_def Let_def split: if_splits)
qed (auto intro: activate_rank handles_rank list_rank prune_rank)

lemma call_step_less:
  assumes "call_step hx s t"
  shows "(mset (map rank (rc_calls t)), mset (map rank (rc_calls s))) \<in> mult1 rank_less"
proof -
  from assms obtain i xs r c st y c' st' where
    st: "s = \<lparr>rc_catalog = c, rc_store = st, rc_calls = xs\<rparr>"
      "t = \<lparr>rc_catalog = c', rc_store = st', rc_calls = xs[i := y]\<rparr>"
    and i: "i < length xs" and adv: "advance hx r (held xs) (xs ! i) c st = Some (y, c', st')"
    by (rule call_stepE)
  let ?M = "image_mset rank (mset xs - {#xs ! i#})"
  have xs: "mset xs = add_mset (xs ! i) (mset xs - {#xs ! i#})" using i by simp
  have "mset (map rank xs) = add_mset (rank (xs ! i)) ?M"
    by (subst mset_map, subst xs) simp
  moreover have "mset (map rank (xs[i := y])) = ?M + {#rank y#}"
    using i by (simp only: mset_map mset_update) simp
  ultimately have "(mset (map rank (xs[i := y])), mset (map rank xs)) \<in> mult1 rank_less"
    by (rule mult1I) (use advance_rank [OF adv] in auto)
  then show ?thesis by (simp add: st)
qed

lemma snapshot_stuck: "activate_point r busy (Snapshot n p m req) c st = None \<Longrightarrow> busy p"
  by (cases n) (auto split: if_splits)

lemma handles_moves: "handles_point (Handles p ks out missing) c st \<noteq> None"
  by (cases ks) auto

lemma stuck_calls: "advance hx r busy x c st = None \<Longrightarrow> finished x \<or> (\<exists>p. busy p)"
  by (cases x)
    (auto simp: advance_def unload_point_def Let_def
      split: if_splits prod.splits dest: snapshot_stuck elim: activate_point.elims handles_point.elims list_point.elims prune_point.elims)

lemma holder_moves: "holds p x \<Longrightarrow> advance hx r busy x c st \<noteq> None"
  using handles_moves by (cases x) (auto simp: advance_def simp del: not_None_eq)

lemma finished_stays: "finished x \<Longrightarrow> advance hx r busy x c st = None"
  by (cases x) (auto simp: advance_def)

lemma calls_move:
  assumes "x \<in> set (rc_calls s)" and "\<not> finished x"
  shows "\<exists>t. call_step hx s t"
proof -
  obtain c st xs where s: "s = \<lparr>rc_catalog = c, rc_store = st, rc_calls = xs\<rparr>" by (cases s)
  have move: ?thesis if "y \<in> set xs" "advance hx r (held xs) y c st \<noteq> None" for r y
  proof -
    from that(1) obtain i where "i < length xs" "xs ! i = y" by (auto simp: in_set_conv_nth)
    with that(2) s show ?thesis by (auto intro: CallStep)
  qed
  show ?thesis
  proof (cases "advance hx (Inr []) (held xs) x c st")
    case None
    with stuck_calls assms(2) obtain p where "held xs p" by blast
    then obtain y where "y \<in> set xs" "holds p y" by (auto simp: held_def)
    with move [of y "Inr []"] holder_moves show ?thesis by blast
  next
    case (Some z)
    with move [of x "Inr []"] assms(1) s show ?thesis by simp
  qed
qed

lemma eventually_constant:
  assumes "wf R" and "\<And>n. (g (Suc n), g n) \<in> R \<or> g (Suc n) = g n"
  shows "\<exists>N. \<forall>n \<ge> N. g (Suc n) = g (n :: nat)"
proof -
  obtain N where N: "\<And>y. (y, g N) \<in> R \<Longrightarrow> y \<notin> range g"
    using wfE_min [OF assms(1), of "g 0" "range g"] by auto
  have "g (N + k) = g N" for k
  proof (induction k)
    case (Suc k)
    with assms(2) [of "N + k"] N show ?case by auto
  qed simp
  then show ?thesis by (metis le_add_diff_inverse le_Suc_eq add_Suc_right)
qed

lemma calls_quiet:
  assumes run: "\<forall>n. call_step hx (f n) (f (Suc n)) \<or> env_step hx (f n) (f (Suc n))"
  shows "\<exists>N. \<forall>n \<ge> N. \<not> call_step hx (f n) (f (Suc n))"
proof -
  let ?g = "\<lambda>n. mset (map rank (rc_calls (f n)))"
  have wf: "wf (mult1 rank_less)" using wf_rank_less by (rule wf_mult1)
  have "(?g (Suc n), ?g n) \<in> mult1 rank_less \<or> ?g (Suc n) = ?g n" for n
    using run [THEN spec, of n]
  proof
    assume "env_step hx (f n) (f (Suc n))"
    then have "rc_calls (f (Suc n)) = rc_calls (f n)" by (cases rule: env_step.cases) simp_all
    then show ?thesis by simp
  qed (use call_step_less in blast)
  from eventually_constant [where g = ?g, OF wf this] obtain N where "\<forall>n \<ge> N. ?g (Suc n) = ?g n" by blast
  then have "\<forall>n \<ge> N. \<not> call_step hx (f n) (f (Suc n))"
    using call_step_less wf_not_refl [OF wf] by metis
  then show ?thesis ..
qed

text \<open>
  C11. Calls terminate and nothing deadlocks: in a run in which no new calls arrive, calls make only
  finitely many steps, whatever the environment does in between; and as long as a call is not
  back, some call can make a step.
\<close>

theorem calls_terminate:
  assumes "\<forall>n. call_step hx (f n) (f (Suc n)) \<or> env_step hx (f n) (f (Suc n))"
  shows "(\<exists>N. \<forall>n \<ge> N. \<not> call_step hx (f n) (f (Suc n)))
    \<and> (\<forall>n. (\<exists>x \<in> set (rc_calls (f n)). \<not> finished x) \<longrightarrow> (\<exists>t. call_step hx (f n) t))"
  using calls_quiet [OF assms] calls_move by blast

text \<open>
  C10. Every call returns: in a run in which no new calls arrive and, whenever some call can make a
  step, some call eventually does, all calls are back from some point on.
\<close>

theorem all_calls_return:
  assumes "\<forall>n. call_step hx (f n) (f (Suc n)) \<or> env_step hx (f n) (f (Suc n))"
    and "\<forall>n. (\<exists>t. call_step hx (f n) t) \<longrightarrow> (\<exists>m \<ge> n. call_step hx (f m) (f (Suc m)))"
  shows "\<exists>N. \<forall>n \<ge> N. \<forall>x \<in> set (rc_calls (f n)). finished x"
proof -
  from calls_quiet [OF assms(1)] obtain N where "\<forall>n \<ge> N. \<not> call_step hx (f n) (f (Suc n))" by blast
  with assms(2) have "\<forall>n \<ge> N. \<not> (\<exists>t. call_step hx (f n) t)" by (meson order_trans)
  then show ?thesis using calls_move by blast
qed

section \<open>A race\<close>

text \<open>
  A schedule as a list of calls: the call of that number makes its next step, if it can; loads
  succeed.
\<close>

definition run_step :: "(string \<Rightarrow> string) \<Rightarrow> nat \<Rightarrow> race \<Rightarrow> race" where
  "run_step hx i s =
     (case advance hx (Inr []) (held (rc_calls s)) (rc_calls s ! i) (rc_catalog s) (rc_store s) of
        None \<Rightarrow> s
      | Some (y, c, st) \<Rightarrow> \<lparr>rc_catalog = c, rc_store = st, rc_calls = (rc_calls s)[i := y]\<rparr>)"

definition can_run :: "(string \<Rightarrow> string) \<Rightarrow> nat \<Rightarrow> race \<Rightarrow> bool" where
  "can_run hx i s \<longleftrightarrow> i < length (rc_calls s)
     \<and> advance hx (Inr []) (held (rc_calls s)) (rc_calls s ! i) (rc_catalog s) (rc_store s) \<noteq> None"

lemma run_step_call: "can_run hx i s \<Longrightarrow> call_step hx s (run_step hx i s)"
  by (cases s) (auto simp: can_run_def run_step_def intro: CallStep)

fun run_ok :: "(string \<Rightarrow> string) \<Rightarrow> nat list \<Rightarrow> race \<Rightarrow> bool" where
  "run_ok hx [] s \<longleftrightarrow> True"
| "run_ok hx (i # is) s \<longleftrightarrow> can_run hx i s \<and> run_ok hx is (run_step hx i s)"

lemma run_reachable: "run_ok hx is s \<Longrightarrow> (race_step hx)\<^sup>*\<^sup>* s (fold (run_step hx) is s)"
proof (induction "is" arbitrary: s)
  case (Cons i "is")
  then have "race_step hx s (run_step hx i s)" by (simp add: race_step_def run_step_call)
  with Cons show ?case by (simp add: converse_rtranclp_into_rtranclp)
qed simp

lemma run_nth:
  "run_ok hx is s \<Longrightarrow> n < length is \<Longrightarrow>
     call_step hx (fold (run_step hx) (take n is) s) (fold (run_step hx) (take (Suc n) is) s)"
proof (induction "is" arbitrary: s n)
  case (Cons i "is")
  then show ?case by (cases n) (auto intro: run_step_call)
qed simp

text \<open>
  The skill \<open>demo_b\<close> is being activated; after the last check before the commit it is removed, and the
  removal goes through all sessions before the commit.
\<close>

definition race_start :: race where
  "race_start = \<lparr>rc_catalog = demo_catalog [demo_def ''b'' ''x'' ''/s''], rc_store = one_session,
     rc_calls = []\<rparr>"

definition race_calls :: "call list" where
  "race_calls = [Validate 0 LoadModeReplace [demo_b] [], RemoveCall (demo_def ''b'' ''x'' ''/s'')]"

definition race_schedule :: "nat list" where
  "race_schedule = [0, 0, 0, 0, 0, 0, 0, 1, 1, 1, 1, 1, 1, 0, 0, 0]"

definition race_begun :: race where
  "race_begun = race_start\<lparr>rc_calls := race_calls\<rparr>"

definition race_end :: race where
  "race_end = fold (run_step demo_digest) race_schedule race_begun"

lemma race_runs: "run_ok demo_digest race_schedule race_begun"
  by code_simp

lemma race_start_init: "race_init race_start"
proof -
  have "sessions one_session p = Some s \<Longrightarrow> active_set s = {}" for p s
    by (auto simp: one_session_def push_session_def NewStore_def Let_def newSession_def
        evictOverLimitLocked.simps split: if_splits)
  then show ?thesis
    using wf_one_session by (fastforce simp: race_init_def race_start_def gone_def)
qed

lemma new_call: "fresh_call (rc_store s) x \<Longrightarrow> race_step hx s (s\<lparr>rc_calls := rc_calls s @ [x]\<rparr>)"
  by (cases s) (auto simp: race_step_def intro: Arrive)

lemma race_begun_reachable: "(race_step hx)\<^sup>*\<^sup>* race_start race_begun"
proof -
  have "sessions one_session 0 \<noteq> None" by code_simp
  then have "race_step hx race_start (race_start\<lparr>rc_calls := [race_calls ! 0]\<rparr>)"
    "race_step hx (race_start\<lparr>rc_calls := [race_calls ! 0]\<rparr>) race_begun"
    using new_call [of race_start "race_calls ! 0" hx]
      new_call [of "race_start\<lparr>rc_calls := [race_calls ! 0]\<rparr>" "race_calls ! 1" hx]
    by (simp_all add: race_start_def race_calls_def race_begun_def)
  then show ?thesis by (meson r_into_rtranclp rtranclp.rtrancl_into_rtrancl)
qed

lemma race_end_reachable: "(race_step demo_digest)\<^sup>*\<^sup>* race_start race_end"
  unfolding race_end_def using race_begun_reachable run_reachable [OF race_runs] by (rule rtranclp_trans)

text \<open>What the end of the race looks like.\<close>

definition race_settled :: "race \<Rightarrow> bool" where
  "race_settled s \<longleftrightarrow> list_all finished (rc_calls s) \<and> GetIndex demo_b (rc_catalog s) = None
     \<and> (case sessions (rc_store s) 0 of None \<Rightarrow> False | Some t \<Rightarrow> \<not> closed t)"

lemma race_end_settled: "race_settled race_end"
  by code_simp

lemma race_end_finished: "x \<in> set (rc_calls race_end) \<Longrightarrow> finished x"
  using race_end_settled by (simp add: race_settled_def list_all_iff)

lemma finished_idle: "finished x \<Longrightarrow> \<not> holds p x \<and> \<not> removing k x"
  by (cases x) auto

theorem removal_reaches_sessions_witness:
  "\<exists>t. sessions (rc_store race_end) 0 = Some t \<and> \<not> isActiveLocked demo_b t
     \<and> GetIndex demo_b (rc_catalog race_end) = None"
proof -
  obtain t where t: "sessions (rc_store race_end) 0 = Some t" "\<not> closed t"
    using race_end_settled by (auto simp: race_settled_def split: option.splits)
  have "\<not> held (rc_calls race_end) 0" "\<forall>x \<in> set (rc_calls race_end). \<not> removing demo_b x"
    using race_end_finished finished_idle by (auto simp: held_def)
  moreover have "GetIndex demo_b (rc_catalog race_end) = None"
    using race_end_settled by (simp add: race_settled_def)
  ultimately show ?thesis
    using removal_reaches_sessions [OF race_start_init race_end_reachable t] t(1) by blast
qed

text \<open>The schedule, and then nothing but a load of an unknown skill, which changes nothing.\<close>

definition race_run :: "nat \<Rightarrow> race" where
  "race_run n = fold (run_step demo_digest) (take n race_schedule) race_begun"

lemma idle_env: "GetIndex k (rc_catalog s) = None \<Longrightarrow> env_step hx s s"
proof -
  assume "GetIndex k (rc_catalog s) = None"
  then have "snd (ensure_enter k (rc_catalog s)) = rc_catalog s"
    by (simp add: GetIndex_def ensure_enter_def)
  then show ?thesis by (cases s) (metis EnvCatalog LoadEnter race.select_convs(1))
qed

lemma race_run_steps:
  "call_step demo_digest (race_run n) (race_run (Suc n)) \<or>
     env_step demo_digest (race_run n) (race_run (Suc n))"
proof (cases "n < length race_schedule")
  case True
  from run_nth [OF race_runs this] show ?thesis by (simp add: race_run_def)
next
  case False
  have "GetIndex demo_b (rc_catalog race_end) = None" using race_end_settled by (simp add: race_settled_def)
  with False idle_env show ?thesis by (simp add: race_run_def race_end_def [symmetric])
qed

lemma finished_no_step: "(\<And>x. x \<in> set (rc_calls s) \<Longrightarrow> finished x) \<Longrightarrow> \<not> call_step hx s t"
  by (auto elim!: call_stepE simp: finished_stays)

theorem calls_terminate_witness:
  "\<exists>N. \<forall>n \<ge> N. \<not> call_step demo_digest (race_run n) (race_run (Suc n))"
  using calls_terminate [of demo_digest race_run] race_run_steps by blast

theorem all_calls_return_witness:
  "\<exists>N. \<forall>n \<ge> N. \<forall>x \<in> set (rc_calls (race_run n)). finished x"
proof (rule all_calls_return [of demo_digest])
  show "\<forall>n. (\<exists>t. call_step demo_digest (race_run n) t) \<longrightarrow>
      (\<exists>m \<ge> n. call_step demo_digest (race_run m) (race_run (Suc m)))"
  proof (intro allI impI)
    fix n assume move: "\<exists>t. call_step demo_digest (race_run n) t"
    have "n < length race_schedule"
    proof (rule ccontr)
      assume "\<not> n < length race_schedule"
      then have "race_run n = race_end" by (simp add: race_run_def race_end_def)
      with move finished_no_step [of race_end] race_end_finished show False by auto
    qed
    from run_nth [OF race_runs this] show "\<exists>m \<ge> n. call_step demo_digest (race_run m) (race_run (Suc m))"
      by (auto simp: race_run_def)
  qed
qed (use race_run_steps in blast)

text \<open>
  A removal that is still pruning does not see that its skill is back: a skill that is registered
  again and activated after the removal collected the sessions is taken out of the session, although
  it is in the catalog and the activation succeeded.
\<close>

definition readded :: "race \<Rightarrow> race" where
  "readded s = s\<lparr>rc_catalog :=
     snd (Add demo_digest demo_resolver None (demo_def ''b'' ''x'' ''/s'') (rc_catalog s))\<rparr>"

lemma readded_step: "race_step demo_digest s (readded s)"
  by (cases s) (simp add: race_step_def readded_def EnvCatalog Register)

definition readded_end :: race where
  "readded_end = fold (run_step demo_digest) ([0, 0, 0, 0, 0, 0, 0, 0, 0, 0] @ [1, 1, 1, 1])
     (readded (fold (run_step demo_digest) [1, 1] race_begun))"

definition pruned_though_known :: "race \<Rightarrow> bool" where
  "pruned_though_known s \<longleftrightarrow> list_all finished (rc_calls s) \<and> GetIndex demo_b (rc_catalog s) \<noteq> None
     \<and> (case rc_calls s ! 0 of Activated (Inr hs) \<Rightarrow> hs \<noteq> [] | _ \<Rightarrow> False)
     \<and> (case sessions (rc_store s) 0 of None \<Rightarrow> False | Some t \<Rightarrow> \<not> closed t \<and> active_order t = [])"

lemma removal_prunes_readded:
  "(race_step demo_digest)\<^sup>*\<^sup>* race_start readded_end \<and> pruned_though_known readded_end"
proof
  let ?s = "fold (run_step demo_digest) [1, 1] race_begun"
  have "run_ok demo_digest [1, 1] race_begun" by code_simp
  then have "(race_step demo_digest)\<^sup>*\<^sup>* race_begun ?s" by (rule run_reachable)
  moreover have "run_ok demo_digest ([0, 0, 0, 0, 0, 0, 0, 0, 0, 0] @ [1, 1, 1, 1]) (readded ?s)" by code_simp
  then have "(race_step demo_digest)\<^sup>*\<^sup>* (readded ?s) readded_end"
    unfolding readded_end_def by (rule run_reachable)
  moreover have "race_step demo_digest ?s (readded ?s)"
    using readded_step .
  ultimately show "(race_step demo_digest)\<^sup>*\<^sup>* race_start readded_end"
    using race_begun_reachable by (meson rtranclp.rtrancl_into_rtrancl rtranclp_trans)
qed code_simp

end
