(* ===== verification/Session_Alone.thy ===== *)
theory Session_Alone
  imports Session_Concurrency Runtime_Theorems
begin

text \<open>
  The steps of theory \<open>Session_Calls\<close> are those of the operations: a call that runs alone, its loads
  included, ends with the result and in the state of the definitions in \<open>Session\<close>, \<open>Store\<close> and
  \<open>Runtime\<close>, on which the rest of the development rests.
\<close>

section \<open>A call that runs alone\<close>

abbreviation one_call :: "catalog \<Rightarrow> store \<Rightarrow> call \<Rightarrow> race" where
  "one_call c st x \<equiv> \<lparr>rc_catalog = c, rc_store = st, rc_calls = [x]\<rparr>"

abbreviation runs_to :: "(string \<Rightarrow> string) \<Rightarrow> race \<Rightarrow> race \<Rightarrow> bool" where
  "runs_to hx \<equiv> (race_step hx)\<^sup>*\<^sup>*"

lemma one_step:
  assumes "advance hx r (\<lambda>p. holds p x) x c st = Some (y, c', st')"
  shows "race_step hx (one_call c st x) (one_call c' st' y)"
proof -
  have "held [x] = (\<lambda>p. holds p x)" by (simp add: held_def fun_eq_iff)
  with CallStep [of 0 "[x]" hx r c st y c' st'] assms show ?thesis by (simp add: race_step_def)
qed

lemma then_runs:
  assumes "advance hx r (\<lambda>p. holds p x) x c st = Some (y, c', st')" and "runs_to hx (one_call c' st' y) t"
  shows "runs_to hx (one_call c st x) t"
  using one_step [OF assms(1)] assms(2) by (rule converse_rtranclp_into_rtranclp)

lemma runs_env: "(catalog_change hx)\<^sup>*\<^sup>* c c' \<Longrightarrow> runs_to hx (one_call c st x) (one_call c' st x)"
proof (induction rule: rtranclp_induct)
  case (step c1 c2)
  then have "race_step hx (one_call c1 st x) (one_call c2 st x)" by (simp add: race_step_def EnvCatalog)
  with step show ?case by (simp add: rtranclp.rtrancl_into_rtrancl)
qed simp

lemma handles_alone:
  "runs_to hx (one_call c st (Handles p ks out missing))
     (one_call c (put_session p (drop_missing (missing @ filter (\<lambda>k. HandleForKey k c = None) ks) (session_at p st)) st)
       (Activated (Inr (out @ List.map_filter (\<lambda>k. HandleForKey k c) ks))))"
proof (induction ks arbitrary: out missing)
  case Nil
  show ?case by (rule then_runs [OF _ rtranclp.rtrancl_refl]) (simp add: advance_def)
next
  case (Cons k ks)
  show ?case
  proof (cases "HandleForKey k c")
    case None
    then have "advance hx (Inr []) (\<lambda>q. holds q (Handles p (k # ks) out missing)) (Handles p (k # ks) out missing) c st
        = Some (Handles p ks out (missing @ [k]), c, st)" by (simp add: advance_def)
    from then_runs [OF this Cons [of out "missing @ [k]"]] None show ?thesis by simp
  next
    case (Some h)
    then have "advance hx (Inr []) (\<lambda>q. holds q (Handles p (k # ks) out missing)) (Handles p (k # ks) out missing) c st
        = Some (Handles p ks (out @ [h]) missing, c, st)" by (simp add: advance_def)
    from then_runs [OF this Cons [of "out @ [h]" missing]] Some show ?thesis by simp
  qed
qed

text \<open>From the head of the handle loop: what \<open>activeHandlesLocked\<close> computes.\<close>

lemma handles_alone_section:
  assumes "sessions st p = Some s" and "activeHandlesLocked (catalog_interface res) c s = (handles, s')"
  shows "runs_to hx (one_call c st (Handles p (active_order s) [] []))
    (one_call c (put_session p s' st) (Activated (Inr handles)))"
  using handles_alone [of hx c st p "active_order s" "[]" "[]"] assms
  by (auto simp: activeHandlesLocked_def drop_missing_def catalog_interface_def Let_def)

section \<open>Activation\<close>

lemma validate_alone:
  "runs_to hx (one_call c st (Validate p m ks req))
     (one_call c st (case validate_keys (catalog_interface res) c ks (set req) of
        Inl e \<Rightarrow> Activated (Inl e) | Inr req' \<Rightarrow> Snapshot 5 p m (req @ req')))"
proof (induction ks arbitrary: req)
  case Nil
  show ?case by (rule then_runs [OF _ rtranclp.rtrancl_refl]) (simp add: advance_def)
next
  case (Cons k ks)
  have step: "runs_to hx (one_call c st (Validate p m (k # ks) req)) t"
    if "runs_to hx (one_call c st y) t"
      "activate_point (Inr []) (\<lambda>q. False) (Validate p m (k # ks) req) c st = Some (y, st)" for y t
    by (rule then_runs [OF _ that(1)]) (use that(2) in \<open>simp add: advance_def\<close>)
  show ?case
  proof (cases "k \<in> set req")
    case True
    with step [OF Cons [of req]] show ?thesis by simp
  next
    case False
    show ?thesis
    proof (cases "GetIndex k c")
      case None
      with False step [OF rtranclp.rtrancl_refl] show ?thesis by (simp add: catalog_interface_def)
    next
      case (Some idx)
      show ?thesis
      proof (cases "fst (NormalizeSkillInsert (idx_insert idx)) = SkillInsertInstructions")
        case True
        from step [OF Cons [of "req @ [k]"]] False Some True show ?thesis
          by (simp add: catalog_interface_def and_then_def split: sum.splits)
      next
        case ins: False
        with False Some step [OF rtranclp.rtrancl_refl] show ?thesis by (simp add: catalog_interface_def)
      qed
    qed
  qed
qed

lemma EnsureBody_changes:
  assumes "EnsureBody res ctx k c = (r, c')"
  shows "(catalog_change hx)\<^sup>*\<^sup>* c c'"
proof -
  have "ensure_loop n res ctx k c = (r, c') \<Longrightarrow> (catalog_change hx)\<^sup>*\<^sup>* c c'" for n
  proof (induction n arbitrary: c)
    case (Suc n)
    obtain x c1 where e: "ensure_enter k c = (x, c1)" by fastforce
    have enter: "catalog_change hx c c1" using LoadEnter [of hx c k] e by simp
    show ?case
    proof (cases ctx)
      case None
      show ?thesis
      proof (cases x)
        case (EnterReturn r')
        with Suc.prems e None enter show ?thesis by auto
      next
        case (EnterWait ch)
        with Suc e None enter show ?thesis
          by (auto split: if_splits intro: converse_rtranclp_into_rtranclp)
      next
        case (EnterLoad ch rk)
        with Suc.prems e None enter LoadFinish [of hx c1 k ch] show ?thesis
          by (auto simp: Let_def intro: rtranclp.rtrancl_into_rtrancl)
      qed
    qed (use Suc.prems in auto)
  qed simp
  with assms show ?thesis by (cases ctx) (auto simp: EnsureBody_def)
qed

lemma ensure_alone:
  assumes "ensure_all (catalog_interface res) ctx ks c = (r, c')"
  shows "runs_to hx (one_call c st (Ensure n p m req v xs ks))
    (one_call c' st (case r of Inl e \<Rightarrow> Activated (Inl e) | Inr u \<Rightarrow> Recheck n p m req v xs xs))"
  using assms
proof (induction ks arbitrary: c)
  case Nil
  then show ?case
    by (auto simp: advance_def intro!: then_runs [OF _ rtranclp.rtrancl_refl])
next
  case (Cons k ks)
  obtain b c1 where e: "EnsureBody res ctx k c = (b, c1)" by fastforce
  have loads: "runs_to hx (one_call c st x) (one_call c1 st x)" for x
    by (rule runs_env [OF EnsureBody_changes [OF e]])
  have "runs_to hx (one_call c1 st (Ensure n p m req v xs (k # ks)))
    (one_call c1 st (case b of Inl e \<Rightarrow> Activated (Inl e) | Inr u \<Rightarrow> Ensure n p m req v xs ks))"
    by (rule then_runs [OF _ rtranclp.rtrancl_refl, where r = b]) (simp add: advance_def)
  with loads have step: "runs_to hx (one_call c st (Ensure n p m req v xs (k # ks)))
    (one_call c1 st (case b of Inl e \<Rightarrow> Activated (Inl e) | Inr u \<Rightarrow> Ensure n p m req v xs ks))"
    by (rule rtranclp_trans)
  show ?case
  proof (cases b)
    case (Inl err)
    with step e Cons.prems show ?thesis by (auto simp: catalog_interface_def)
  next
    case (Inr body)
    with Cons.prems e have "ensure_all (catalog_interface res) ctx ks c1 = (r, c')"
      by (simp add: catalog_interface_def)
    from rtranclp_trans [OF step] Cons.IH [OF this] Inr show ?thesis by simp
  qed
qed

lemma recheck_alone:
  "runs_to hx (one_call c st (Recheck n p m req v xs ks))
    (one_call c st (if list_ex (\<lambda>k. GetIndex k c = None) ks then Activated (Inl (Sentinel ErrSkillNotFound))
                    else Commit n p m req v xs))"
proof (induction ks)
  case Nil
  show ?case by (auto simp: advance_def intro!: then_runs [OF _ rtranclp.rtrancl_refl])
next
  case (Cons k ks)
  have "runs_to hx (one_call c st (Recheck n p m req v xs (k # ks)))
    (one_call c st (if GetIndex k c = None then Activated (Inl (Sentinel ErrSkillNotFound))
                    else Recheck n p m req v xs ks))"
    by (rule then_runs [OF _ rtranclp.rtrancl_refl]) (simp add: advance_def)
  from this rtranclp_trans [OF this] Cons show ?case by (cases "GetIndex k c = None") auto
qed

lemma round_alone:
  assumes "sessions st p = Some s"
    and "activate_loop (Suc n) (catalog_interface res) alone ctx req m s c = (r, s', c')"
  shows "runs_to hx (one_call c st (Snapshot (Suc n) p m req)) (one_call c' (put_session p s' st) (Activated r))"
proof -
  let ?ops = "catalog_interface res"
  let ?xs = "next_order m req s"
  have first: "runs_to hx (one_call c st (Snapshot (Suc n) p m req)) (one_call c st (snapshot_section n p m req s))"
    using assms(1) by (intro then_runs [OF _ rtranclp.rtrancl_refl]) (simp add: advance_def)
  have same: "s' = s \<Longrightarrow> put_session p s' st = st" using assms(1) by (simp add: put_same)
  show ?thesis
  proof (cases "closed s \<or> 0 < max_active s \<and> max_active s < int (length ?xs)")
    case True
    with first assms(2) same show ?thesis
      by (cases "closed s") (auto simp: snapshot_section_def Let_def)
  next
    case False
    then have "snapshot_section n p m req s = Ensure n p m req (state_version s) ?xs ?xs"
      by (auto simp: snapshot_section_def Let_def)
    with first have first: "runs_to hx (one_call c st (Snapshot (Suc n) p m req))
        (one_call c st (Ensure n p m req (state_version s) ?xs ?xs))" by simp
    obtain e c1 where e: "ensure_all ?ops ctx ?xs c = (e, c1)" by fastforce
    note loaded = rtranclp_trans [OF first ensure_alone [OF e]]
    show ?thesis
    proof (cases e)
      case (Inl err)
      with loaded assms(2) e False same show ?thesis by (auto simp: Let_def)
    next
      case (Inr u)
      from rtranclp_trans [OF loaded [unfolded Inr sum.case] recheck_alone]
      have checked: "runs_to hx (one_call c st (Snapshot (Suc n) p m req))
          (one_call c1 st (if list_ex (\<lambda>k. GetIndex k c1 = None) ?xs
             then Activated (Inl (Sentinel ErrSkillNotFound)) else Commit n p m req (state_version s) ?xs))" .
      show ?thesis
      proof (cases "list_ex (\<lambda>k. GetIndex k c1 = None) ?xs")
        case True
        with checked assms(2) e Inr False same show ?thesis
          by (auto simp: Let_def catalog_interface_def)
      next
        case all: False
        let ?s = "s\<lparr>active_set := set ?xs, active_order := ?xs, state_version := state_version s + 1\<rparr>"
        obtain hs s2 where h: "activeHandlesLocked ?ops c1 ?s = (hs, s2)" by fastforce
        with assms(2) e Inr False all have res: "r = Inr hs" "s' = s2" "c' = c1"
          by (auto simp: Let_def alone_def catalog_interface_def)
        have "runs_to hx (one_call c1 st (Commit n p m req (state_version s) ?xs))
            (one_call c1 (put_session p ?s st) (Handles p ?xs [] []))"
          using assms(1) False
          by (intro then_runs [OF _ rtranclp.rtrancl_refl]) (simp add: advance_def commit_section_def)
        moreover have "runs_to hx (one_call c1 (put_session p ?s st) (Handles p ?xs [] []))
            (one_call c1 (put_session p s2 (put_session p ?s st)) (Activated (Inr hs)))"
          using handles_alone_section [OF _ h, of "put_session p ?s st" p] by simp
        moreover have "put_session p s2 (put_session p ?s st) = put_session p s2 st"
          by (simp add: put_session_def)
        ultimately show ?thesis using rtranclp_trans [OF checked] all res by (auto intro: rtranclp_trans)
      qed
    qed
  qed
qed

lemma activation_alone:
  assumes "sessions st p = Some s" and "\<not> closed s" and "keys \<noteq> []"
    and "load_mode mode \<in> {LoadModeReplace, LoadModeAdd}"
    and "ActivateKeys (catalog_interface res) alone None keys mode s c = (r, s', c')"
  shows "runs_to hx (one_call c st (Validate p (load_mode mode) keys []))
    (one_call c' (put_session p s' st) (Activated r))"
proof -
  let ?m = "load_mode mode"
  let ?v = "validate_keys (catalog_interface res) c keys {}"
  from assms(2-5) have act: "(case ?v of Inl e \<Rightarrow> (Inl e, s, c)
      | Inr req \<Rightarrow> activate_loop 5 (catalog_interface res) alone None req ?m s c) = (r, s', c')"
    by (auto simp: ActivateKeys_def Let_def)
  have v: "runs_to hx (one_call c st (Validate p ?m keys []))
      (one_call c st (case ?v of Inl e \<Rightarrow> Activated (Inl e) | Inr req \<Rightarrow> Snapshot 5 p ?m req))"
    using validate_alone [of hx c st p ?m keys "[]" res] unfolding append_Nil list.set .
  show ?thesis
  proof (cases ?v)
    case (Inl e)
    with act v assms(1) show ?thesis by (simp add: put_same)
  next
    case (Inr req)
    have "(5 :: nat) = Suc 4" by simp
    with Inr act have "activate_loop (Suc 4) (catalog_interface res) alone None req ?m s c = (r, s', c')"
      by (simp only: sum.case)
    then have "runs_to hx (one_call c st (Snapshot 5 p ?m req)) (one_call c' (put_session p s' st) (Activated r))"
      using round_alone [OF assms(1), of 4] by (simp add: eval_nat_numeral)
    with v [unfolded Inr sum.case] show ?thesis by (rule rtranclp_trans)
  qed
qed

section \<open>Unloading, listing and removing\<close>

lemma unload_alone:
  assumes "sessions st p = Some s" and "\<not> closed s" and "ua_all args \<or> ua_skills args \<noteq> []"
    and "ua_all args \<or> resolve_handles (catalog_interface res) c (ua_skills args) = Inr rm"
    and "toolUnload (catalog_interface res) None args c s = (r, s')"
  shows "runs_to hx (one_call c st (Unload p (ua_all args) rm)) (one_call c (put_session p s' st) (Activated r))"
proof -
  let ?s = "unload_section (ua_all args) rm s"
  obtain hs s2 where h: "activeHandlesLocked (catalog_interface res) c ?s = (hs, s2)" by fastforce
  with assms(2-5) have r: "r = Inr hs" "s' = s2"
    by (auto simp: toolUnload_def unload_section_def Let_def split: if_splits)
  have "runs_to hx (one_call c st (Unload p (ua_all args) rm))
      (one_call c (put_session p ?s st) (Handles p (active_order ?s) [] []))"
    using assms(1) by (intro then_runs [OF _ rtranclp.rtrancl_refl]) (simp add: advance_def unload_point_def Let_def)
  moreover have "runs_to hx (one_call c (put_session p ?s st) (Handles p (active_order ?s) [] []))
      (one_call c (put_session p s2 (put_session p ?s st)) (Activated (Inr hs)))"
    using handles_alone_section [OF _ h, of "put_session p ?s st" p] by simp
  moreover have "put_session p s2 (put_session p ?s st) = put_session p s2 st" by (simp add: put_session_def)
  ultimately show ?thesis using r by (auto intro: rtranclp_trans)
qed

lemma check_alone:
  "runs_to hx (one_call c st (ListCheck p ks out missing))
     (one_call c st (ListCheck p [] (out @ filter (\<lambda>k. HandleForKey k c \<noteq> None) ks)
        (missing @ filter (\<lambda>k. HandleForKey k c = None) ks)))"
proof (induction ks arbitrary: out missing)
  case (Cons k ks)
  let ?y = "if HandleForKey k c = None then ListCheck p ks out (missing @ [k]) else ListCheck p ks (out @ [k]) missing"
  have "runs_to hx (one_call c st (ListCheck p (k # ks) out missing)) (one_call c st ?y)"
    by (rule then_runs [OF _ rtranclp.rtrancl_refl]) (simp add: advance_def)
  from rtranclp_trans [OF this] Cons [of out "missing @ [k]"] Cons [of "out @ [k]" missing] show ?case
    by (cases "HandleForKey k c") auto
qed simp

lemma list_alone:
  assumes "sessions st p = Some s" and "\<not> closed s"
    and "ActiveKeys (catalog_interface res) None c s = (Inr keys, s')"
  shows "runs_to hx (one_call c st (ListKeys p)) (one_call c (put_session p s' st) (Listed keys))"
proof -
  let ?missing = "filter (\<lambda>k. HandleForKey k c = None) (active_order s)"
  from assms(2,3) have keys: "keys = filter (\<lambda>k. HandleForKey k c \<noteq> None) (active_order s)"
    "s' = (if ?missing \<noteq> [] then pruneKeys ?missing s else s)"
    by (auto simp: ActiveKeys_def Let_def catalog_interface_def)
  have "runs_to hx (one_call c st (ListKeys p)) (one_call c st (ListCheck p (active_order s) [] []))"
    using assms(1) by (intro then_runs [OF _ rtranclp.rtrancl_refl]) (simp add: advance_def)
  also have "runs_to hx \<dots> (one_call c st (ListCheck p [] keys ?missing))"
    using check_alone [of hx c st p "active_order s" "[]" "[]"] unfolding keys(1) append_Nil .
  also have "runs_to hx \<dots> (one_call c (put_session p s' st) (Listed keys))"
  proof (cases "?missing = []")
    case True
    then have "s' = s" using keys(2) by (simp del: filter_empty_conv)
    with True assms(1) show ?thesis
      by (intro then_runs [OF _ rtranclp.rtrancl_refl]) (simp add: advance_def put_same del: filter_empty_conv)
  next
    case False
    then have s': "s' = pruneKeys ?missing s" unfolding keys(2) by (rule if_P)
    have "runs_to hx (one_call c st (ListCheck p [] keys ?missing)) (one_call c st (ListPrune p keys ?missing))"
      using False by (intro then_runs [OF _ rtranclp.rtrancl_refl]) (simp add: advance_def del: filter_empty_conv)
    also have "runs_to hx \<dots> (one_call c (put_session p s' st) (Listed keys))"
      using assms(1) s' by (intro then_runs [OF _ rtranclp.rtrancl_refl]) (simp add: advance_def)
    finally show ?thesis .
  qed
  finally show ?thesis .
qed

lemma prune_alone:
  "runs_to hx (one_call c st (Prune key rec ps)) (one_call c (fold (prune_session key) ps st) (Removed (Inr rec)))"
proof (induction ps arbitrary: st)
  case Nil
  show ?case by (rule then_runs [OF _ rtranclp.rtrancl_refl]) (simp add: advance_def)
next
  case (Cons p ps)
  have "runs_to hx (one_call c st (Prune key rec (p # ps))) (one_call c (prune_session key p st) (Prune key rec ps))"
  proof (cases "session_closed p st")
    case True
    then have "prune_session key p st = st" by (auto simp: session_closed_def prune_session_def split: option.splits)
    with True show ?thesis by (intro then_runs [OF _ rtranclp.rtrancl_refl]) (simp add: advance_def)
  next
    case False
    then obtain s where s: "sessions st p = Some s" "\<not> closed s"
      by (auto simp: session_closed_def split: option.splits)
    then have pr: "prune_session key p st = put_session p (prune_section key s) st"
      by (simp add: prune_session_def pruneKey_section put_session_def)
    have "runs_to hx (one_call c st (Prune key rec (p # ps))) (one_call c st (PruneEnter key rec p ps))"
      using False by (intro then_runs [OF _ rtranclp.rtrancl_refl]) (simp add: advance_def)
    also have "runs_to hx \<dots> (one_call c st (PruneLock key rec p ps))"
      using False by (intro then_runs [OF _ rtranclp.rtrancl_refl]) (simp add: advance_def)
    also have "runs_to hx \<dots> (one_call c (prune_session key p st) (Prune key rec ps))"
      using s pr by (intro then_runs [OF _ rtranclp.rtrancl_refl]) (simp add: advance_def)
    finally show ?thesis .
  qed
  from rtranclp_trans [OF this Cons] show ?case by simp
qed

lemma remove_alone:
  assumes "check_def octx d = Inr u" and "RemoveSkill hx octx d rt = (r, rt')"
  shows "runs_to hx (one_call (rt_catalog rt) (rt_sessions rt) (RemoveCall d))
    (one_call (rt_catalog rt') (rt_sessions rt') (Removed r))"
proof -
  obtain x c where rm: "Remove hx d (rt_catalog rt) = (x, c)" by fastforce
  have first: "runs_to hx (one_call (rt_catalog rt) (rt_sessions rt) (RemoveCall d))
      (one_call c (rt_sessions rt) (case x of None \<Rightarrow> Removed (Inl (Sentinel ErrSkillNotFound))
         | Some (rec, key) \<Rightarrow> Collect key rec))"
    using rm by (intro then_runs [OF _ rtranclp.rtrancl_refl])
      (simp add: advance_def remove_point_def split: option.splits)
  show ?thesis
  proof (cases x)
    case None
    with first rm assms show ?thesis by (auto simp: RemoveSkill_def)
  next
    case (Some rk)
    obtain rec key where rk: "rk = (rec, key)" by fastforce
    let ?ps = "filter (\<lambda>p. \<not> session_closed p (rt_sessions rt)) (map fst (lru (rt_sessions rt)))"
    from first Some rk have "runs_to hx (one_call (rt_catalog rt) (rt_sessions rt) (RemoveCall d))
        (one_call c (rt_sessions rt) (Collect key rec))" by simp
    also have "runs_to hx \<dots> (one_call c (rt_sessions rt) (Prune key rec ?ps))"
      by (rule then_runs [OF _ rtranclp.rtrancl_refl]) (simp add: advance_def)
    also have "runs_to hx \<dots> (one_call c (fold (prune_session key) ?ps (rt_sessions rt)) (Removed (Inr rec)))"
      by (rule prune_alone)
    finally show ?thesis using rm assms Some rk by (auto simp: RemoveSkill_def PruneSkill_def)
  qed
qed

text \<open>
  C12. The interleaved calls refine the operations: run alone from an open session, an activation, an
  unload and a listing past their guards, and a removal with a valid definition, end with exactly
  the result and the state that \<open>ActivateKeys\<close>, \<open>toolUnload\<close>, \<open>ActiveKeys\<close> and \<open>RemoveSkill\<close> compute in
  one piece.
\<close>

theorem calls_alone:
  assumes "sessions (rt_sessions rt) p = Some s" and "\<not> closed s"
  shows "let ops = catalog_interface (providerResolver rt);
      start = one_call (rt_catalog rt) (rt_sessions rt)
    in (\<forall>keys mode r s' c'. keys \<noteq> [] \<and> load_mode mode \<in> {LoadModeReplace, LoadModeAdd}
        \<and> ActivateKeys ops alone None keys mode s (rt_catalog rt) = (r, s', c') \<longrightarrow>
        runs_to hx (start (Validate p (load_mode mode) keys []))
          (one_call c' (put_session p s' (rt_sessions rt)) (Activated r)))
    \<and> (\<forall>args rm r s'. (ua_all args \<or> ua_skills args \<noteq> []
          \<and> resolve_handles ops (rt_catalog rt) (ua_skills args) = Inr rm)
        \<and> toolUnload ops None args (rt_catalog rt) s = (r, s') \<longrightarrow>
        runs_to hx (start (Unload p (ua_all args) rm))
          (one_call (rt_catalog rt) (put_session p s' (rt_sessions rt)) (Activated r)))
    \<and> (\<forall>keys s'. ActiveKeys ops None (rt_catalog rt) s = (Inr keys, s') \<longrightarrow>
        runs_to hx (start (ListKeys p))
          (one_call (rt_catalog rt) (put_session p s' (rt_sessions rt)) (Listed keys)))
    \<and> (\<forall>octx d r rt'. check_def octx d = Inr () \<and> RemoveSkill hx octx d rt = (r, rt') \<longrightarrow>
        runs_to hx (start (RemoveCall d)) (one_call (rt_catalog rt') (rt_sessions rt') (Removed r)))"
  unfolding Let_def
proof (intro conjI allI impI, goal_cases)
  case (1 keys mode r s' c')
  then show ?case by (elim conjE) (rule activation_alone [OF assms(1,2)])
next
  case (2 args rm r s')
  then have "ua_all args \<or> ua_skills args \<noteq> []"
    "ua_all args \<or> resolve_handles (catalog_interface (providerResolver rt)) (rt_catalog rt) (ua_skills args) = Inr rm"
    "toolUnload (catalog_interface (providerResolver rt)) None args (rt_catalog rt) s = (r, s')"
    by blast+
  then show ?case by (rule unload_alone [OF assms(1,2)])
next
  case (3 keys s')
  then show ?case by (rule list_alone [OF assms(1,2)])
next
  case (4 octx d r rt')
  then show ?case using remove_alone [of octx d "()"] by simp
qed

theorem calls_alone_witness:
  "\<exists>r rt'. RemoveSkill demo_digest (Some None) (demo_def ''b'' ''x'' ''/s'') demo_run = (r, rt')
     \<and> runs_to demo_digest
         (one_call (rt_catalog demo_run) (rt_sessions demo_run) (RemoveCall (demo_def ''b'' ''x'' ''/s'')))
         (one_call (rt_catalog rt') (rt_sessions rt') (Removed r))"
proof -
  have "case sessions (rt_sessions demo_run) 0 of None \<Rightarrow> False | Some s \<Rightarrow> \<not> closed s" by code_simp
  then obtain s where s: "sessions (rt_sessions demo_run) 0 = Some s" "\<not> closed s"
    by (auto split: option.splits)
  obtain r rt' where rm: "RemoveSkill demo_digest (Some None) (demo_def ''b'' ''x'' ''/s'') demo_run = (r, rt')"
    by fastforce
  moreover have "check_def (Some None) (demo_def ''b'' ''x'' ''/s'') = Inr ()" by code_simp
  ultimately show ?thesis using calls_alone [OF s, of demo_digest] unfolding Let_def by blast
qed

end
