(* ===== verification/Session_Errors.thy ===== *)
theory Session_Errors
  imports Session_Theorems
begin

text \<open>
  The errors of the four tools: what a host may tell apart with \<open>errors.Is\<close> when a tool fails.
\<close>

text \<open>The error of a call that reached no provider and no body.\<close>

definition call_error :: "ctx \<Rightarrow> go_error \<Rightarrow> bool" where
  "call_error ctx e \<longleftrightarrow> ctx = Some e \<or> errors_is e ErrSessionNotFound
     \<or> errors_is e ErrInvalidArgument \<or> errors_is e ErrSkillNotFound"

named_theorems call_errors \<open>errors of a call\<close>

lemma call_error_simps [call_errors]:
  "call_error (Some e) e"
  "call_error ctx (invalid_arg m)"
  "call_error ctx (Sentinel ErrSessionNotFound)"
  "call_error ctx (Sentinel ErrSkillNotFound)"
  "call_error ctx (Wrapf m [Sentinel ErrSkillNotFound])"
  by (simp_all add: call_error_def)

lemma resolve_handles_error: "resolve_handles ops c hs = Inl e \<Longrightarrow> call_error ctx e"
  by (induction hs arbitrary: e)
    (auto simp: call_errors and_then_eq_Inl split: if_splits option.splits)

lemma validate_keys_error: "validate_keys ops c ks seen = Inl e \<Longrightarrow> call_error ctx e"
  by (induction ops c ks seen arbitrary: e rule: validate_keys.induct)
    (auto simp: call_errors and_then_eq_Inl split: if_splits option.splits)

lemma ensure_all_error:
  "fst (ensure_all ops ctx ks c) = Inl e \<Longrightarrow> \<exists>k c'. fst (co_ensure_body ops ctx k c') = Inl e"
proof (induction ks arbitrary: c)
  case (Cons k ks)
  obtain b c1 where b: "co_ensure_body ops ctx k c = (b, c1)" by fastforce
  show ?case
  proof (cases b)
    case (Inl err)
    with b Cons.prems have "fst (co_ensure_body ops ctx k c) = Inl e" by simp
    then show ?thesis by blast
  qed (use b Cons in simp)
qed simp

lemma activate_loop_error:
  "fst (activate_loop n ops others ctx req m s c) = Inl e \<Longrightarrow>
     call_error ctx e \<or> (\<exists>k c'. fst (co_ensure_body ops ctx k c') = Inl e)"
proof (induction n arbitrary: s c)
  case (Suc n)
  let ?xs = "next_order m req s"
  obtain b c1 where b: "ensure_all ops ctx ?xs c = (b, c1)" by fastforce
  obtain s1 c2 where o: "others n (s, c1) = (s1, c2)" by fastforce
  show ?case
  proof (cases "closed s \<or> 0 < max_active s \<and> max_active s < int (length ?xs)")
    case True
    with Suc.prems show ?thesis by (cases "closed s") (auto simp: Let_def call_errors)
  next
    case False
    with Suc.prems Suc.IH b o ensure_all_error [of ops ctx ?xs c e] show ?thesis
      by (cases b) (auto simp: Let_def call_errors split: if_splits prod.splits)
  qed
qed (auto simp: call_errors)

lemma ActivateKeys_error:
  "fst (ActivateKeys ops others ctx keys mode s c) = Inl e \<Longrightarrow>
     call_error ctx e \<or> (\<exists>k c'. fst (co_ensure_body ops ctx k c') = Inl e)"
  using activate_loop_error [of 5 ops others ctx _ "load_mode mode" s c e]
    validate_keys_error [of ops c keys "{}" e ctx]
  by (auto simp: ActivateKeys_def Let_def call_errors split: option.splits if_splits sum.splits)

lemma active_target_error:
  "active_target ops res ctx name loc target c s = Inl e \<Longrightarrow>
     call_error ctx e \<or> e = Sentinel ErrSkillNotActive \<or> e = Sentinel ErrProviderNotFound"
  by (cases ctx) (auto simp: active_target_def guard_err_def call_errors split: option.splits if_splits)

lemma active_target_Inr:
  "active_target ops res ctx name loc target c s = Inr (k, p) \<Longrightarrow> k \<in> active_set s \<and> res (key_type k) = Some p"
  by (auto simp: active_target_def guard_err_def isActiveLocked_def split: option.splits if_splits)

text \<open>
  C28. The errors of the tools: loading fails with the error of the context, a closed session, an
  invalid argument, an unknown skill, or what loading a body answered; unloading with one of the
  first four; reading and running also with a skill that is not active or has no provider, or with
  what the provider of an active skill answered. Nothing else.
\<close>

theorem tool_errors:
  "(case fst (toolLoad ops others ctx la s c) of Inr hs \<Rightarrow> True
      | Inl e \<Rightarrow> call_error ctx e \<or> (\<exists>k c'. fst (co_ensure_body ops ctx k c') = Inl e))
   \<and> (case fst (toolUnload ops ctx ua c s) of Inr hs \<Rightarrow> True | Inl e \<Rightarrow> call_error ctx e)
   \<and> (case toolRead ops res ctx ra c s of Inr out \<Rightarrow> True
      | Inl e \<Rightarrow> call_error ctx e \<or> e = Sentinel ErrSkillNotActive \<or> e = Sentinel ErrProviderNotFound
          \<or> (\<exists>k p enc. k \<in> active_set s \<and> res (key_type k) = Some p
               \<and> p_read_resource p ctx k (ra_resource_location ra) enc = Inl e))
   \<and> (case toolRunScript ops res ctx sa c s of Inr out \<Rightarrow> True
      | Inl e \<Rightarrow> call_error ctx e \<or> e = Sentinel ErrSkillNotActive \<or> e = Sentinel ErrProviderNotFound
          \<or> (\<exists>k p. k \<in> active_set s \<and> res (key_type k) = Some p
               \<and> p_run_script p ctx k (sa_script_location sa) (sa_args sa) (sa_env sa) (sa_work_dir sa) = Inl e))"
proof (intro conjI, goal_cases)
  case 1
  show ?case
    using ActivateKeys_error [of ops others ctx _ "load_mode (la_mode la)" s c]
      resolve_handles_error [of ops c "la_skills la" _ ctx]
    by (auto simp: toolLoad_def Let_def call_errors split: option.splits if_splits sum.splits)
next
  case 2
  show ?case
    using resolve_handles_error [of ops c "ua_skills ua" _ ctx]
    by (auto simp: toolUnload_def Let_def call_errors split: option.splits if_splits sum.splits prod.splits)
next
  case 3
  show ?case
    by (cases "active_target ops res ctx (ra_skill_name ra) (ra_skill_location ra) (ra_resource_location ra) c s")
      (fastforce simp: toolRead_def Let_def dest: active_target_error active_target_Inr split: sum.splits)+
next
  case 4
  show ?case
    by (cases "active_target ops res ctx (sa_skill_name sa) (sa_skill_location sa) (sa_script_location sa) c s")
      (fastforce simp: toolRunScript_def dest: active_target_error active_target_Inr split: sum.splits)+
qed

end
