(* ===== verification/Spec2Isabelle.thy ===== *)
theory Spec2Isabelle
  imports Runtime_Prompts Tool_Registry Catalog_Refinement Store_Refinement Fs_Written
    Session_Alone Session_Errors
begin

text \<open>
  A verification development of agentskills-go, a Go library that gives a language model a set of
  skills: directories with a SKILL.md document, which are registered, listed in prompts, activated in
  sessions, and whose resources and scripts tools may use.

  The program and how its parts interact. A runtime (src/runtime.go, src/skillprompt.go) holds
  providers by type, one catalog and one store of sessions. Registering a skill asks the provider of
  its type for an index record (src/fsskillprovider/provider.go reads the SKILL.md with
  src/document.go) and enters it into the catalog (src/internal/catalog/catalog.go), which gives it a
  name of its own for the model, resolves handles, and loads its body when it is first needed.
  Sessions (src/internal/session/session.go) keep an ordered list of active skills; the store
  (store.go) bounds their number and idle time; the tools (tools_impl.go) load and unload skills, read
  resources and run scripts through the provider of an active skill. Prompts list what is available
  and show the bodies of what is active (src/internal/catalog/promptxml.go, artifact.go).

  The theories, from the bottom. Each component has its model and, where the proofs are long, a
  theory of lemmas and one of properties.
  \<^item> \<open>Prelude\<close>: fallible calls as sums, loops with a map of seen values, association lists as Go maps,
    the locale of a transition system with an invariant. \<open>Simulation\<close>: operations that refine an
    abstract specification, as a locale. \<open>Go_Strings\<close>: the part of strings, bytes and utf8 that is
    used; a string is a list of bytes. \<open>File_Paths\<close>: path/filepath for systems with slash separators,
    and the walk over a directory tree.
  \<^item> \<open>Spec_Types\<close>: the types, constants and errors of src/spec. An error is a sentinel, a message or a
    wrapping message; \<open>errors_is\<close> is errors.Is. A provider is the table of its methods.
  \<^item> \<open>Artifact\<close>: rendering of skill bodies (artifact.go); the two substitution passes are equal to
    token-wise replacement. \<open>Document\<close>, \<open>Document_Correct\<close>: parsing, validating and writing SKILL.md
    (document.go). \<open>Prompt_Text\<close>: the two prompt blocks line by line (promptxml.go).
  \<^item> \<open>Catalog\<close>, \<open>Catalog_Correct\<close>, \<open>Catalog_Theorems\<close>: the catalog (catalog.go, prompt.go), its invariant,
    adding and removing, handles, listings. \<open>Catalog_Refinement\<close>: it implements an abstract registry.
    \<open>Catalog_Concurrency\<close>: EnsureBody run by many callers at once, as a step relation between the critical
    sections of the mutex. \<open>Provider_Contract\<close>: what the catalog relies on in a provider, as locales.
  \<^item> \<open>Session\<close>, \<open>Session_Correct\<close>, \<open>Session_Theorems\<close>: activation with its optimistic retry loop, pruning,
    the four tools (session.go, tools_impl.go). \<open>Session_Errors\<close>: the errors the tools return.
    \<open>Store\<close>, \<open>Store_Correct\<close>: the bounded list of sessions (store.go). \<open>Store_Refinement\<close>: it
    implements a table of sessions in the order of their last use.
    \<open>Session_Calls\<close>: activations, unloads, listings and removals step by step, at the grain of the locks.
    \<open>Session_Concurrency\<close>: what holds however they interleave. \<open>Session_Alone\<close>: run alone, they are the
    operations of \<open>Session\<close> and \<open>Runtime\<close>.
  \<^item> \<open>Filters\<close>, \<open>Runtime\<close>, \<open>Runtime_Correct\<close>, \<open>Runtime_Theorems\<close>, \<open>Runtime_Prompts\<close>: the API of runtime.go
    and skillprompt.go over all of the above, as a step relation with the invariant of a runtime.
    \<open>Tool_Registry\<close>: the descriptors of the tools and the registry a session fills with them.
  \<^item> \<open>Fs_Provider\<close>, \<open>Fs_Resources\<close>, \<open>Fs_Provider_Correct\<close>: the file-system provider (provider.go), the
    resource scan as a function of the directory tree, and that the provider keeps the contracts.
    \<open>Fs_Written\<close>: a document that is written into a directory becomes the skill it describes.

  How state and operations correspond. A Go struct is a record, a map that is iterated is an
  association list whose order stands for the iteration order, any other map is a partial function.
  A method takes the state and returns its result with the state after it; an early return with an
  error is \<open>Inl\<close>. A context is what its Err method returns during the call. Session objects are pointers
  into the store, because callers keep them. Names of definitions are those of the source.

  What the lemmas show. Invariants: of the catalog, the session, the store and the runtime, kept by
  every operation and so in every reachable state. Effects: what each operation of the API changes, on
  success and on failure. Round trips: document and bytes, document and indexed skill, handle and key,
  adding and removing. Refinement: catalog and store against abstract specifications, the interleaved
  calls against the operations. Concurrency: the commit of an activation is atomic under interference;
  loading is done once for all callers and no caller is left waiting; a removed skill is active in no
  session once its removal is back; calls do not deadlock, make finitely many steps and return. Safety:
  tools reach only active skills and only the directory that was indexed.

  Bounds and fuel. The loops that the source bounds are recursions on that bound: five attempts in
  EnsureBody and in ActivateKeys, which is part of the behaviour and not an approximation. All other
  loops terminate by structure or by a measure. The version counter of a session is a 64-bit word that
  wraps around; durations saturate as in Go. Sizes (2 MiB documents, 1024 listed resources) are those of
  the source.

  Parameters. What is not under src/ is an argument: go-yaml (\<open>doc_env\<close>), SHA-256 (\<open>hx\<close>), the operating
  system (\<open>os\<close>), the tools and the registry of llmtools-go (\<open>llmtools\<close>, \<open>registry_api\<close>), identifiers
  and the clock. Hypotheses about them are named where they are used: \<open>yaml_faithful\<close> for writing and
  reading documents, \<open>lawful_os\<close> for absolute and clean paths, \<open>fair_interference\<close> for other users of a
  session. That all calls return assumes of the scheduler that, when some call can make a step, some
  call eventually does.

  Not modelled. The constant JSON schemas of the tool arguments (src/spec/tool_skill_*.go), which only
  llmtools-go reads, log messages, nil receivers, the formatting of error messages beyond their constant
  part, and paths of Windows.
\<close>

end
